(* ===== verification/Cdma_Prelude.thy ===== *)
theory Cdma_Prelude
  imports Main "HOL-Library.Word" "HOL-Library.Monad_Syntax" "HOL-Library.Multiset"
begin

text \<open>
  Shared vocabulary of the libcdma model: the machine-integer types, the POSIX error
  numbers the C files return, and the generic facts on words and lists that the
  components share. \<open>ring_simps\<close> collects the facts on indices into rings of
  \<open>2 ^ k\<close> slots, \<open>live_simps\<close> (declared with the environment) those on
  resource accounting.

  A C expression whose value the C standard leaves undefined (a shift by the width of
  the type or more, a division by zero, an access outside an array, a loop that never
  ends) is \<open>None\<close> in the model, so that a result \<open>Some r\<close> says that the code ran
  without undefined behaviour and returned.
\<close>

unbundle bit_operations_syntax

type_synonym u8 = "8 word"
type_synonym u16 = "16 word"
type_synonym u32 = "32 word"
type_synonym u64 = "64 word"

text \<open>A pointer is the address it holds; \<open>NULL\<close> is address 0.\<close>

type_synonym ptr = "64 word"

abbreviation (input) NULL :: ptr where "NULL \<equiv> 0"

abbreviation (input) MAP_FAILED :: ptr where "MAP_FAILED \<equiv> - 1"

abbreviation (input) EIO :: int where "EIO \<equiv> 5"
abbreviation (input) ENOMEM :: int where "ENOMEM \<equiv> 12"
abbreviation (input) EFAULT :: int where "EFAULT \<equiv> 14"
abbreviation (input) EINVAL :: int where "EINVAL \<equiv> 22"

named_theorems ring_simps "indices and addresses of rings with 2 ^ k slots"

subsection \<open>Words\<close>

lemma unat_and_mask [ring_simps]:
  fixes x :: "'a::len word"
  shows "unat (x AND mask k) = unat x mod 2 ^ k"
proof -
  have "unat (x AND mask k) = take_bit k (unat x)"
    by (simp only: take_bit_eq_mask [symmetric] unsigned_take_bit_eq)
  then show ?thesis
    by (simp only: take_bit_eq_mod)
qed

lemma unat_pow2:
  assumes "k < LENGTH('a::len)"
  shows "unat (2 ^ k :: 'a word) = 2 ^ k"
proof -
  have "(2 :: nat) ^ k < 2 ^ LENGTH('a)"
    using assms by (rule power_strict_increasing) simp
  moreover have "unat (word_of_nat (2 ^ k) :: 'a word) = 2 ^ k mod 2 ^ LENGTH('a)"
    by (rule unat_of_nat)
  ultimately show ?thesis by simp
qed

lemma unat_pow2_u32 [simp]: "k < 32 \<Longrightarrow> unat (2 ^ k :: u32) = 2 ^ k"
  by (rule unat_pow2) simp

lemma unat_pow2_u64 [simp]: "k < 64 \<Longrightarrow> unat (2 ^ k :: u64) = 2 ^ k"
  by (rule unat_pow2) simp

lemma unat_u32_less [simp]: "unat (x :: u32) < 4294967296"
proof -
  have "unat x < 2 ^ LENGTH(32)" by (rule unsigned_less)
  then show ?thesis by simp
qed

lemma unat_u64_less [simp]: "unat (x :: u64) < 18446744073709551616"
proof -
  have "unat x < 2 ^ LENGTH(64)" by (rule unsigned_less)
  then show ?thesis by simp
qed

lemma unat_u8_less [simp]: "unat (x :: u8) < 256"
proof -
  have "unat x < 2 ^ LENGTH(8)" by (rule unsigned_less)
  then show ?thesis by simp
qed

lemma unat_ucast: "unat (ucast (x :: 'a::len word) :: 'b::len word) = unat x mod 2 ^ LENGTH('b)"
  by (simp only: unsigned_ucast_eq take_bit_eq_mod)

lemma unat_ucast_wide:
  assumes "LENGTH('a) \<le> LENGTH('b)"
  shows "unat (ucast (x :: 'a::len word) :: 'b::len word) = unat x"
proof -
  have "unat x < 2 ^ LENGTH('a)" by (rule unsigned_less)
  also have "(2 :: nat) ^ LENGTH('a) \<le> 2 ^ LENGTH('b)"
    using assms by (simp add: power_increasing)
  finally show ?thesis by (simp add: unat_ucast)
qed

lemma unat_ucast_u64 [simp]: "unat (ucast (x :: u32) :: u64) = unat x"
  by (rule unat_ucast_wide) simp

lemma unat_ucast_u8_u32 [simp]: "unat (ucast (x :: u8) :: u32) = unat x"
  by (rule unat_ucast_wide) simp

lemma unat_add_u32:
  "unat ((x :: u32) + y) = (unat x + unat y) mod 4294967296"
  by (simp add: unat_word_ariths)

lemma unat_add_u32_le:
  assumes "unat (x :: u32) + unat y < 4294967296"
  shows "unat (x + y) = unat x + unat y"
  using assms by (simp add: unat_word_ariths)

lemma unat_add_u64_le:
  assumes "unat (x :: u64) + unat y < 18446744073709551616"
  shows "unat (x + y) = unat x + unat y"
  using assms by (simp add: unat_word_ariths)

lemma unat_push_bit:
  assumes "unat (x :: 'a::len word) * 2 ^ k < 2 ^ LENGTH('a)"
  shows "unat (push_bit k x) = unat x * 2 ^ k"
proof -
  have "unat (push_bit k x) = take_bit LENGTH('a) (push_bit k (unat x))"
    by (rule unsigned_push_bit_eq)
  also have "\<dots> = (unat x * 2 ^ k) mod 2 ^ LENGTH('a)"
    by (simp only: take_bit_eq_mod push_bit_eq_mult)
  finally show ?thesis using assms by simp
qed

lemma unat_drop_bit: "unat (drop_bit k (x :: 'a::len word)) = unat x div 2 ^ k"
  unfolding unat_drop_bit_eq by (rule drop_bit_eq_div)

lemma unat_and_not_mask:
  fixes x :: "'a::len word"
  shows "unat (x AND NOT (mask k)) = unat x div 2 ^ k * 2 ^ k"
proof -
  have "(x AND NOT (mask k)) + (x AND mask k) = (x AND NOT (mask k)) OR (x AND mask k)"
    by (rule disjunctive_add) (auto simp: bit_simps)
  also have "\<dots> = x"
    by (rule bit_word_eqI) (auto simp: bit_simps)
  finally have "x AND NOT (mask k) = x - (x AND mask k)"
    by (metis add_diff_cancel_right')
  moreover have "x AND mask k \<le> x"
    by (rule word_and_le2)
  ultimately have "unat (x AND NOT (mask k)) = unat x - unat (x AND mask k)"
    by (simp add: unat_sub)
  then show ?thesis
    by (simp only: unat_and_mask minus_mod_eq_div_mult)
qed

lemma pow2_le_31: "k \<le> 31 \<Longrightarrow> (2 :: nat) ^ k \<le> 2147483648"
  using power_increasing [of k 31 "2 :: nat"] by simp

lemma sub_add_word: "(x :: 'a::len word) + y - x = y"
  by simp

lemma bit_and_not_exp:
  "b < 64 \<Longrightarrow> bit (w AND NOT (2 ^ b) :: u64) j \<longleftrightarrow> bit w j \<and> j \<noteq> b"
  by (auto simp: bit_simps bit_exp_iff dest: bit_imp_le_length)

lemma bit_or_exp:
  "b < 64 \<Longrightarrow> bit (w OR 2 ^ b :: u64) j \<longleftrightarrow> bit w j \<or> j = b"
  by (auto simp: bit_simps bit_exp_iff)

subsection \<open>Lists\<close>

lemma takeWhile_prefix_P:
  assumes "j < length (takeWhile P xs)"
  shows "P (xs ! j)"
proof -
  have "takeWhile P xs ! j \<in> set (takeWhile P xs)" using assms by (rule nth_mem)
  then have "P (takeWhile P xs ! j)" by (blast dest: set_takeWhileD)
  then show ?thesis using assms by (simp add: takeWhile_nth)
qed

lemma first_word:
  assumes "i = length (takeWhile (\<lambda>w. w = 0) ws)"
  shows "i \<le> length ws" and "\<forall>j<i. ws ! j = 0" and "i < length ws \<Longrightarrow> ws ! i \<noteq> 0"
proof -
  show "i \<le> length ws" unfolding assms by (rule length_takeWhile_le)
  show "\<forall>j<i. ws ! j = 0"
    unfolding assms using takeWhile_prefix_P [of _ "\<lambda>w. w = 0" ws] by blast
  show "i < length ws \<Longrightarrow> ws ! i \<noteq> 0"
    unfolding assms by (rule nth_length_takeWhile)
qed

lemma sub_sum_mset:
  assumes "A + B \<subseteq># (L :: 'a multiset)"
  shows "A \<subseteq># L" and "B \<subseteq># L - A"
proof -
  obtain D where "L = A + B + D" using assms by (auto simp: mset_subset_eq_exists_conv)
  then show "A \<subseteq># L" "B \<subseteq># L - A" by simp_all
qed

subsection \<open>Words read as signed integers\<close>

lemma sint_u32: "sint (x :: u32) = (if unat x < 2147483648 then int (unat x) else int (unat x) - 4294967296)"
proof -
  have u: "uint x < 4294967296" "0 \<le> uint x" using uint_lt2p [of x] by simp_all
  have "sint x = signed_take_bit 31 (uint x)" by (simp add: sint_uint)
  also have "\<dots> = (if uint x < 2147483648 then uint x else uint x - 4294967296)"
  proof (cases "uint x < 2147483648")
    case True
    have "- (2 ^ 31) \<le> uint x" by (rule order_trans [OF _ u(2)]) simp
    moreover have "uint x < 2 ^ 31" using True by simp
    ultimately have "signed_take_bit 31 (uint x) = uint x" by (rule signed_take_bit_int_eq_self)
    then show ?thesis using True by simp
  next
    case False
    have "signed_take_bit 31 (uint x) = take_bit 32 (uint x + 2 ^ 31) - 2 ^ 31" by (simp add: signed_take_bit_eq_take_bit_shift)
    also have "\<dots> = uint x - 4294967296"
    proof -
      have e: "uint x + 2147483648 = (uint x - 2147483648) + 4294967296" by simp
      have "(uint x + 2147483648) mod 4294967296 = (uint x - 2147483648) mod 4294967296"
        unfolding e by (rule mod_add_self2)
      also have "\<dots> = uint x - 2147483648" using False u by (intro mod_pos_pos_trivial) simp_all
      finally show ?thesis by (simp add: take_bit_eq_mod)
    qed
    finally show ?thesis using False by simp
  qed
  also have "\<dots> = (if unat x < 2147483648 then int (unat x) else int (unat x) - 4294967296)"
  proof -
    have e: "uint x = int (unat x)" by simp
    show ?thesis by (simp only: e of_nat_less_numeral_iff)
  qed
  finally show ?thesis .
qed

lemma sint_small: "n \<le> 33554432 \<Longrightarrow> sint (of_nat n :: u32) = int n"
  by (subst signed_of_nat) (simp add: signed_take_bit_int_eq_self)

lemma unat_add_of_nat_u32:
  assumes "unat (x :: u32) + i < 4294967296"
  shows "unat (x + of_nat i) = unat x + i"
proof -
  have "unat (of_nat i :: u32) = i" using assms unat_of_nat [of i, where 'a = 32] by simp
  then show ?thesis using assms by (subst unat_add_u32_le) simp_all
qed

subsection \<open>Indices modulo a power of two\<close>

lemma mod_add_distinct:
  fixes n i j N :: nat
  assumes i: "i < N" and j: "j < N" and eq: "(n + i) mod N = (n + j) mod N"
  shows "i = j"
proof -
  have "(int n + int i) mod int N = (int n + int j) mod int N"
    using eq by (metis of_nat_add of_nat_mod)
  then have "int N dvd (int n + int i) - (int n + int j)"
    by (simp only: mod_eq_dvd_iff)
  then have "int N dvd int i - int j" by simp
  moreover have "\<bar>int i - int j\<bar> < int N" using i j by linarith
  ultimately have "int i - int j = 0"
    using dvd_imp_le_int [of "int i - int j" "int N"] by linarith
  then show ?thesis by simp
qed

end
