(* ===== verification/Cdma_Types.thy ===== *)
theory Cdma_Types
  imports Cdma_Prelude
begin

text \<open>
  The data model: the constants, enumerations and structures of
  \<open>kernel_headers/cdma_abi.h\<close>, \<open>include/cdma_u_lib.h\<close>, \<open>cdma_u_types.h\<close>,
  \<open>cdma_u_common.h\<close>, \<open>cdma_u_jfs.h\<close> and \<open>cdma_u_jfc.h\<close>. A structure is a record
  whose fields carry a short prefix naming the structure (HOL record fields are global);
  an unsigned C integer of \<open>w\<close> bits is a \<open>w word\<close>, a bit field of \<open>w\<close> bits a word of that
  width, a C \<open>int\<close> an \<open>int\<close>, a pointer the address it holds. Reserved members
  (\<open>rsv*\<close>, \<open>pad\<close>) that no line of the library reads or writes are left out.
\<close>

section \<open>Constants\<close>

abbreviation (input) CDMA_JFS_WQEBB :: u32 where "CDMA_JFS_WQEBB \<equiv> 64"
abbreviation (input) CDMA_HW_PAGE_SIZE :: u32 where "CDMA_HW_PAGE_SIZE \<equiv> 4096"
abbreviation (input) CDMA_BITS_PER_LONG :: u32 where "CDMA_BITS_PER_LONG \<equiv> 64"
abbreviation (input) CDMA_BITS_PER_LONG_SHIFT :: nat where "CDMA_BITS_PER_LONG_SHIFT \<equiv> 6"
abbreviation (input) CDMA_SGE_SIZE :: u32 where "CDMA_SGE_SIZE \<equiv> 16"
abbreviation (input) CDMA_DB_SIZE :: u32 where "CDMA_DB_SIZE \<equiv> 64"
abbreviation (input) CDMA_NORMAL_JETTY_TYPE :: u32 where "CDMA_NORMAL_JETTY_TYPE \<equiv> 0x7fffffff"
abbreviation (input) CDMA_JFC_DB_OFFSET :: u32 where "CDMA_JFC_DB_OFFSET \<equiv> 0"
abbreviation (input) MAP_COMMAND_MASK :: u32 where "MAP_COMMAND_MASK \<equiv> 0xff"
abbreviation (input) MAP_INDEX_MASK :: u64 where "MAP_INDEX_MASK \<equiv> 0xffffff"
abbreviation (input) MAP_INDEX_SHIFT :: nat where "MAP_INDEX_SHIFT \<equiv> 8"

abbreviation (input) CDMA_ADDR_SHIFT :: nat where "CDMA_ADDR_SHIFT \<equiv> 32"
abbreviation (input) CDMA_DOORBELL_OFFSET :: u64 where "CDMA_DOORBELL_OFFSET \<equiv> 0x80"
abbreviation (input) CDMA_JFC_HW_DB_OFFSET :: u64 where "CDMA_JFC_HW_DB_OFFSET \<equiv> 0x40"
abbreviation (input) CDMA_JFC_DB_CI_IDX_M :: u32 where "CDMA_JFC_DB_CI_IDX_M \<equiv> 0x3fffff"
abbreviation (input) CDMA_JFC_DB_VALID_OWNER_M :: u32 where "CDMA_JFC_DB_VALID_OWNER_M \<equiv> 1"
abbreviation (input) CDMA_INTER_ERR :: int where "CDMA_INTER_ERR \<equiv> 1"
abbreviation (input) CDMA_SRC_IDX_SHIFT :: nat where "CDMA_SRC_IDX_SHIFT \<equiv> 16"
abbreviation (input) CDMA_TYPICAL_RNR_RETRY :: u8 where "CDMA_TYPICAL_RNR_RETRY \<equiv> 7"
abbreviation (input) CDMA_TYPICAL_ERR_TIMEOUT :: u8 where "CDMA_TYPICAL_ERR_TIMEOUT \<equiv> 2"
abbreviation (input) CDMA_CQE_STATUS_NUM :: u8 where "CDMA_CQE_STATUS_NUM \<equiv> 7"
abbreviation (input) CDMA_CQE_SUB_STATUS_NUM :: u8 where "CDMA_CQE_SUB_STATUS_NUM \<equiv> 5"
abbreviation (input) CDMA_CTX_RSP_ST64B_EN :: u32 where "CDMA_CTX_RSP_ST64B_EN \<equiv> 0x1"
abbreviation (input) CDMA_U_MIN_JFC_DEPTH :: u32 where "CDMA_U_MIN_JFC_DEPTH \<equiv> 64"
abbreviation (input) CDMA_MAX_EU_NUM :: u8 where "CDMA_MAX_EU_NUM \<equiv> 64"

abbreviation (input) MAX_SQE_BB_NUM :: u32 where "MAX_SQE_BB_NUM \<equiv> 4"
abbreviation (input) CDMA_JFS_MAX_SGE_READ :: u32 where "CDMA_JFS_MAX_SGE_READ \<equiv> 6"
abbreviation (input) CDMA_JFS_MAX_SGE_NOTIFY :: u32 where "CDMA_JFS_MAX_SGE_NOTIFY \<equiv> 11"
abbreviation (input) SQE_NORMAL_CTL_LEN :: u32 where "SQE_NORMAL_CTL_LEN \<equiv> 48"
abbreviation (input) SQE_WRITE_NOTIFY_CTL_LEN :: u32 where "SQE_WRITE_NOTIFY_CTL_LEN \<equiv> 80"
abbreviation (input) CDMA_ATOMIC_LEN_4 :: u32 where "CDMA_ATOMIC_LEN_4 \<equiv> 4"
abbreviation (input) CDMA_ATOMIC_LEN_8 :: u32 where "CDMA_ATOMIC_LEN_8 \<equiv> 8"
abbreviation (input) CDMA_ATOMIC_LEN_16 :: u32 where "CDMA_ATOMIC_LEN_16 \<equiv> 16"
abbreviation (input) CDMA_ATOMIC_SGE_NUM :: u32 where "CDMA_ATOMIC_SGE_NUM \<equiv> 1"
abbreviation (input) SQE_NOTIFY_TOKEN_ID_FIELD :: nat where "SQE_NOTIFY_TOKEN_ID_FIELD \<equiv> 48"
abbreviation (input) SQE_NOTIFY_ADDR_FIELD :: nat where "SQE_NOTIFY_ADDR_FIELD \<equiv> 56"
abbreviation (input) SQE_ATOMIC_DATA_FIELD :: nat where "SQE_ATOMIC_DATA_FIELD \<equiv> 64"
abbreviation (input) SQE_CTL_RMA_ADDR_OFFSET :: nat where "SQE_CTL_RMA_ADDR_OFFSET \<equiv> 32"

abbreviation (input) EVENT_WAIT_TIME :: int where "EVENT_WAIT_TIME \<equiv> 10000"
abbreviation (input) EVENT_EVENT_NUM :: int where "EVENT_EVENT_NUM \<equiv> 1"

text \<open>
  The work-request opcodes (\<open>enum dma_wr_opcode\<close>) stay numbers: the code switches on them
  with a \<open>default\<close> branch for every other value of the variable.
\<close>

abbreviation (input) CDMA_WR_OPC_WRITE :: u32 where "CDMA_WR_OPC_WRITE \<equiv> 0x00"
abbreviation (input) CDMA_WR_OPC_WRITE_NOTIFY :: u32 where "CDMA_WR_OPC_WRITE_NOTIFY \<equiv> 0x02"
abbreviation (input) CDMA_WR_OPC_READ :: u32 where "CDMA_WR_OPC_READ \<equiv> 0x10"
abbreviation (input) CDMA_WR_OPC_CAS :: u32 where "CDMA_WR_OPC_CAS \<equiv> 0x20"
abbreviation (input) CDMA_WR_OPC_SWAP :: u32 where "CDMA_WR_OPC_SWAP \<equiv> 0x21"
abbreviation (input) CDMA_WR_OPC_FADD :: u32 where "CDMA_WR_OPC_FADD \<equiv> 0x22"

abbreviation (input) CDMA_OPCODE_WRITE :: u8 where "CDMA_OPCODE_WRITE \<equiv> 0x03"
abbreviation (input) CDMA_OPCODE_WRITE_WITH_NOTIFY :: u8 where "CDMA_OPCODE_WRITE_WITH_NOTIFY \<equiv> 0x05"
abbreviation (input) CDMA_OPCODE_READ :: u8 where "CDMA_OPCODE_READ \<equiv> 0x06"
abbreviation (input) CDMA_OPCODE_CAS :: u8 where "CDMA_OPCODE_CAS \<equiv> 0x07"
abbreviation (input) CDMA_OPCODE_FAA :: u8 where "CDMA_OPCODE_FAA \<equiv> 0x0b"
abbreviation (input) CDMA_OPCODE_INVALID :: u8 where "CDMA_OPCODE_INVALID \<equiv> 0x12"

section \<open>Enumerations\<close>

datatype dma_cr_status =
    DMA_CR_SUCCESS | DMA_CR_UNSUPPORTED_OPCODE_ERR | DMA_CR_LOC_LEN_ERR
  | DMA_CR_LOC_OPERATION_ERR | DMA_CR_LOC_ACCESS_ERR | DMA_CR_REM_RESP_LEN_ERR
  | DMA_CR_REM_UNSUPPORTED_REQ_ERR | DMA_CR_REM_OPERATION_ERR
  | DMA_CR_REM_ACCESS_ABORT_ERR | DMA_CR_ACK_TIMEOUT_ERR
  | DMA_CR_RNR_RETRY_CNT_EXC_ERR | DMA_CR_WR_FLUSH_ERR | DMA_CR_WR_SUSPEND_DONE
  | DMA_CR_WR_FLUSH_ERR_DONE | DMA_CR_WR_UNHANDLED | DMA_CR_LOC_DATA_POISON
  | DMA_CR_REM_DATA_POISON

datatype db_mmap_type = CDMA_MMAP_JFC_PAGE | CDMA_MMAP_JETTY_DSQE

fun db_type_code :: "db_mmap_type \<Rightarrow> u32" where
  "db_type_code CDMA_MMAP_JFC_PAGE = 0"
| "db_type_code CDMA_MMAP_JETTY_DSQE = 1"

datatype jfc_poll_state = JFC_OK | JFC_EMPTY | JFC_POLL_ERR

datatype dma_status = DMA_STATUS_OK | DMA_STATUS_INVAL

datatype dma_aeqe_type =
    DMA_AEQE_TYPE_JFC | DMA_AEQE_TYPE_JFS | DMA_AEQE_TYPE_INVALID | DMA_AEQE_TYPE_UNKNOWN

fun aeqe_type_code :: "dma_aeqe_type \<Rightarrow> u32" where
  "aeqe_type_code DMA_AEQE_TYPE_JFC = 0"
| "aeqe_type_code DMA_AEQE_TYPE_JFS = 1"
| "aeqe_type_code DMA_AEQE_TYPE_INVALID = 2"
| "aeqe_type_code DMA_AEQE_TYPE_UNKNOWN = 3"

section \<open>Devices\<close>

record dev_eid =
  dw0 :: u32
  dw1 :: u32
  dw2 :: u32
  dw3 :: u32

record eu_info =
  eu_eid_idx :: u32
  eu_eid :: dev_eid
  eu_upi :: u32

record cdma_device_cap =
  max_jfc :: u32
  max_jfs :: u32
  max_jfc_depth :: u32
  max_jfs_depth :: u32
  max_jfs_inline_len :: u32
  max_jfs_sge :: u32
  max_jfs_rsge :: u32
  max_msg_size :: u64
  max_atomic_size :: u32
  cap_trans_mode :: u16
  ceq_cnt :: u32
  max_eid_cnt :: u32
  page_size_cap :: u64

record cdma_device_attr =
  attr_eu_num :: u8
  attr_eid :: dev_eid
  attr_eu :: eu_info
  attr_eus :: "eu_info list"
  attr_dev_cap :: cdma_device_cap

record dma_device =
  dev_name :: string
  dev_fd :: int
  dev_attr :: cdma_device_attr

section \<open>Segments, work requests and completions\<close>

record dma_seg =
  seg_handle :: u64
  seg_sva :: u64
  seg_len :: u64
  seg_tid :: u32
  seg_token_value :: u32
  seg_token_value_valid :: bool

record dma_seg_cfg =
  scfg_addr :: u64
  scfg_len :: u64
  scfg_token_value :: u32
  scfg_tid :: u32
  scfg_token_value_valid :: bool

record dma_sge =
  sge_addr :: u64
  sge_len :: u32
  sge_seg :: dma_seg

text \<open>A scatter/gather list: the array the pointer \<open>sge\<close> designates and its count.\<close>

record dma_sg =
  sg_sge :: "dma_sge list"
  sg_num_sge :: u32

record dma_rw_wr =
  rw_src :: dma_sg
  rw_dst :: dma_sg
  rw_target_hint :: u8
  rw_notify_data :: u64
  rw_notify_addr :: u64
  rw_notify_tokenid :: u32
  rw_notify_tokenvalue :: u32

text \<open>
  In \<open>struct dma_cas_wr\<close> the value and the address of an operand share their storage
  (an anonymous union of two \<open>uint64_t\<close>): one field stands for both.
\<close>

record dma_cas_wr =
  cas_dst :: dma_sge
  cas_src :: dma_sge
  cas_cmp :: u64
  cas_swap :: u64

record dma_faa_wr =
  faa_dst :: dma_sge
  faa_src :: dma_sge
  faa_operand :: u64

record dma_jfs_wr_flag =
  fl_place_order :: "2 word"
  fl_comp_order :: "1 word"
  fl_fence :: "1 word"
  fl_solicited_enable :: "1 word"
  fl_complete_enable :: "1 word"
  fl_inline_flag :: "1 word"

text \<open>
  \<open>struct dma_jfs_wr\<close>: the union of the three request bodies is a sum; the chain through
  \<open>next\<close> is a list of work requests. Reading a member of the union that was not the one
  written is not something a caller of this library does; the model makes it \<open>None\<close>.
\<close>

datatype dma_wr_body = Wr_rw dma_rw_wr | Wr_cas dma_cas_wr | Wr_faa dma_faa_wr

record dma_jfs_wr =
  wr_opcode :: u32
  wr_flag :: dma_jfs_wr_flag
  wr_user_ctx :: u64
  wr_tpn :: u32
  wr_rmt_eid :: u32
  wr_body :: dma_wr_body

record dma_cr_flag =
  crf_s_r :: "1 word"
  crf_jetty :: "1 word"
  crf_suspend_done :: "1 word"
  crf_flush_err_done :: "1 word"

record dma_cr =
  cr_status :: dma_cr_status
  cr_user_ctx :: u64
  cr_opcode :: u32
  cr_flag :: dma_cr_flag
  cr_completion_len :: u32
  cr_local_id :: u32
  cr_remote_id :: u32
  cr_tpn :: u32

section \<open>Completion queue entries and the arm doorbell\<close>

record cdma_u_jfc_cqe =
  cqe_s_r :: "1 word"
  cqe_is_jetty :: "1 word"
  cqe_owner :: "1 word"
  cqe_inline_en :: "1 word"
  cqe_opcode :: "3 word"
  cqe_fd :: "1 word"
  cqe_rsv :: u8
  cqe_substatus :: u8
  cqe_status :: u8
  cqe_entry_idx :: u16
  cqe_local_num_l :: u16
  cqe_local_num_h :: "4 word"
  cqe_rmt_idx :: "20 word"
  cqe_rsv1 :: u8
  cqe_tpn :: "24 word"
  cqe_rsv2 :: u8
  cqe_byte_cnt :: u32
  cqe_user_data0 :: u32
  cqe_user_data1 :: u32
  cqe_rmt_eid :: "u32 \<times> u32 \<times> u32 \<times> u32"
  cqe_imm_data_l :: u32
  cqe_imm_data_h :: u32
  cqe_inline_data :: "u32 \<times> u32 \<times> u32"

section \<open>Queues\<close>

record cdma_u_doorbell =
  db_id :: u32
  db_type :: db_mmap_type
  db_addr :: ptr

record cdma_u_jetty_queue =
  qbuf :: ptr
  qbuf_size :: u32
  qbuf_curr :: ptr
  q_pi :: u32
  q_ci :: u32
  q_idx :: u32
  q_db :: cdma_u_doorbell
  baseblk_shift :: u32
  baseblk_cnt :: u32
  baseblk_mask :: u32
  q_wrid :: ptr
  q_dwqe_addr :: ptr
  q_sqe_bb_cnt :: u32
  q_max_sge_num :: u32
  q_flush_flag :: bool
  q_cstm :: u32

text \<open>
  A page of software doorbells. The array \<open>bitmap\<close> points to is owned by the page: the
  record holds the address (to free it) and the words.
\<close>

record cdma_u_db_page =
  pg_prev :: ptr
  pg_next :: ptr
  pg_buf :: ptr
  pg_length :: u32
  pg_num_db :: u32
  pg_use_cnt :: u32
  pg_bitmap_ptr :: ptr
  pg_bitmap :: "u64 list"
  pg_bitmap_cnt :: u32

record dma_context =
  dctx_dma_dev :: ptr
  dctx_tid :: u32
  dctx_async_fd :: int

record cdma_u_context =
  ctx_dma_ctx :: dma_context
  ctx_page_size :: u32
  ctx_page :: ptr
  ctx_db :: cdma_u_doorbell
  ctx_cqe_size :: u8
  ctx_dwqe_enable :: u8
  ctx_st64b_en :: bool
  ctx_async_fd :: int

record dma_jfce =
  jfce_dma_ctx :: ptr
  jfce_fd :: int
  jfce_id :: int

record dma_jfc_cfg =
  jfc_cfg_depth :: u32
  jfc_cfg_flag :: u32
  jfc_cfg_ceqn :: u32
  jfc_cfg_jfce :: ptr
  jfc_cfg_user_ctx :: u64
  jfc_cfg_queue_id :: u32

record cdma_u_jfc =
  jfc_dma_ctx :: ptr
  jfc_id :: u32
  jfc_cfg :: dma_jfc_cfg
  jfc_handle :: u64
  comp_events_acked :: u32
  async_events_acked :: u32
  jfc_cq :: cdma_u_jetty_queue
  arm_sn :: u32
  sw_db :: ptr

record dma_jfs_cfg =
  jfs_cfg_depth :: u32
  jfs_cfg_flag :: u32
  jfs_cfg_priority :: u8
  jfs_cfg_max_sge :: u8
  jfs_cfg_max_rsge :: u8
  jfs_cfg_rnr_retry :: u8
  jfs_cfg_err_timeout :: u8
  jfs_cfg_jfc :: ptr
  jfs_cfg_queue_id :: u32
  jfs_cfg_rmt_eid :: u32
  jfs_cfg_pld_token_id :: u32
  jfs_cfg_tpn :: u32
  jfs_cfg_eid_idx :: u32
  jfs_cfg_trans_mode :: u32

record cdma_u_jfs =
  jfs_dma_ctx :: ptr
  jfs_id :: u32
  jfs_cfg :: dma_jfs_cfg
  jfs_handle :: u64
  jfs_sq :: cdma_u_jetty_queue
  jfs_type :: u32

record dma_tp_cfg =
  tp_cfg_scna :: u32
  tp_cfg_dcna :: u32
  tp_cfg_seid :: u32
  tp_cfg_deid :: u32
  tp_cfg_queue_id :: u32

record dma_tp =
  tp_dma_ctx :: ptr
  tp_cfg :: dma_tp_cfg
  tp_tpn :: u32
  tp_handle :: u64

record queue_cfg =
  qcfg_queue_depth :: u32
  qcfg_priority :: u8
  qcfg_user_ctx :: u64
  qcfg_dcna :: u32
  qcfg_rmt_eid :: dev_eid
  qcfg_event_mode :: bool
  qcfg_trans_mode :: u32

record dma_queue_cfg =
  cdma_jfc_cfg :: dma_jfc_cfg
  cdma_jfs_cfg :: dma_jfs_cfg
  cdma_tp_cfg :: dma_tp_cfg

record cdma_u_queue =
  que_ctx :: ptr
  que_cfg :: queue_cfg
  que_queue_id :: u32
  que_jfs :: ptr
  que_jfc :: ptr
  que_tp :: ptr
  que_jfce :: ptr
  que_queue_cfg :: dma_queue_cfg
  que_handle :: u64

record dma_aeqe =
  aeqe_ctx :: ptr
  aeqe_queue_id :: u32
  aeqe_event_type :: u32
  aeqe_duration :: int

section \<open>Zeroed structures\<close>

text \<open>What \<open>calloc\<close> returns for a structure, and what \<open>= {0}\<close> initialises one to.\<close>

definition zero_eid :: dev_eid where
  "zero_eid =
    \<lparr>dw0 = 0, dw1 = 0, dw2 = 0, dw3 = 0\<rparr>"

definition zero_eu :: eu_info where
  "zero_eu =
    \<lparr>eu_eid_idx = 0, eu_eid = zero_eid, eu_upi = 0\<rparr>"

definition zero_cap :: cdma_device_cap where
  "zero_cap =
    \<lparr>max_jfc = 0, max_jfs = 0, max_jfc_depth = 0, max_jfs_depth = 0,
     max_jfs_inline_len = 0, max_jfs_sge = 0, max_jfs_rsge = 0, max_msg_size = 0,
     max_atomic_size = 0, cap_trans_mode = 0, ceq_cnt = 0, max_eid_cnt = 0,
     page_size_cap = 0\<rparr>"

definition zero_attr :: cdma_device_attr where
  "zero_attr =
    \<lparr>attr_eu_num = 0, attr_eid = zero_eid, attr_eu = zero_eu, attr_eus = replicate 64 zero_eu,
     attr_dev_cap = zero_cap\<rparr>"

definition zero_dev :: dma_device where
  "zero_dev =
    \<lparr>dev_name = '''', dev_fd = 0, dev_attr = zero_attr\<rparr>"

definition zero_seg :: dma_seg where
  "zero_seg =
    \<lparr>seg_handle = 0, seg_sva = 0, seg_len = 0, seg_tid = 0, seg_token_value = 0,
     seg_token_value_valid = False\<rparr>"

definition zero_cqe :: cdma_u_jfc_cqe where
  "zero_cqe =
    \<lparr>cqe_s_r = 0, cqe_is_jetty = 0, cqe_owner = 0, cqe_inline_en = 0,
     cqe_opcode = 0, cqe_fd = 0, cqe_rsv = 0, cqe_substatus = 0, cqe_status = 0, cqe_entry_idx = 0,
     cqe_local_num_l = 0, cqe_local_num_h = 0, cqe_rmt_idx = 0, cqe_rsv1 = 0, cqe_tpn = 0, cqe_rsv2 = 0,
     cqe_byte_cnt = 0, cqe_user_data0 = 0, cqe_user_data1 = 0, cqe_rmt_eid = (0, 0, 0, 0),
     cqe_imm_data_l = 0, cqe_imm_data_h = 0, cqe_inline_data = (0, 0, 0)\<rparr>"

definition zero_doorbell :: cdma_u_doorbell where
  "zero_doorbell =
    \<lparr>db_id = 0, db_type = CDMA_MMAP_JFC_PAGE, db_addr = NULL\<rparr>"

definition zero_jetty_queue :: cdma_u_jetty_queue where
  "zero_jetty_queue =
    \<lparr>qbuf = NULL, qbuf_size = 0, qbuf_curr = NULL, q_pi = 0, q_ci = 0, q_idx = 0,
     q_db = zero_doorbell, baseblk_shift = 0, baseblk_cnt = 0, baseblk_mask = 0,
     q_wrid = NULL, q_dwqe_addr = NULL, q_sqe_bb_cnt = 0, q_max_sge_num = 0,
     q_flush_flag = False, q_cstm = 0\<rparr>"

definition zero_db_page :: cdma_u_db_page where
  "zero_db_page =
    \<lparr>pg_prev = NULL, pg_next = NULL, pg_buf = NULL, pg_length = 0, pg_num_db = 0,
     pg_use_cnt = 0, pg_bitmap_ptr = NULL, pg_bitmap = [], pg_bitmap_cnt = 0\<rparr>"

definition zero_dma_context :: dma_context where
  "zero_dma_context =
    \<lparr>dctx_dma_dev = NULL, dctx_tid = 0, dctx_async_fd = 0\<rparr>"

definition zero_context :: cdma_u_context where
  "zero_context =
    \<lparr>ctx_dma_ctx = zero_dma_context, ctx_page_size = 0, ctx_page = NULL,
     ctx_db = zero_doorbell, ctx_cqe_size = 0, ctx_dwqe_enable = 0, ctx_st64b_en = False,
     ctx_async_fd = 0\<rparr>"

definition zero_jfce :: dma_jfce where
  "zero_jfce =
    \<lparr>jfce_dma_ctx = NULL, jfce_fd = 0, jfce_id = 0\<rparr>"

definition zero_jfc_cfg :: dma_jfc_cfg where
  "zero_jfc_cfg =
    \<lparr>jfc_cfg_depth = 0, jfc_cfg_flag = 0, jfc_cfg_ceqn = 0, jfc_cfg_jfce = NULL,
     jfc_cfg_user_ctx = 0, jfc_cfg_queue_id = 0\<rparr>"

definition zero_jfc :: cdma_u_jfc where
  "zero_jfc =
    \<lparr>jfc_dma_ctx = NULL, jfc_id = 0, jfc_cfg = zero_jfc_cfg, jfc_handle = 0,
     comp_events_acked = 0, async_events_acked = 0, jfc_cq = zero_jetty_queue, arm_sn = 0,
     sw_db = NULL\<rparr>"

definition zero_jfs_cfg :: dma_jfs_cfg where
  "zero_jfs_cfg =
    \<lparr>jfs_cfg_depth = 0, jfs_cfg_flag = 0, jfs_cfg_priority = 0, jfs_cfg_max_sge = 0,
     jfs_cfg_max_rsge = 0, jfs_cfg_rnr_retry = 0, jfs_cfg_err_timeout = 0,
     jfs_cfg_jfc = NULL, jfs_cfg_queue_id = 0, jfs_cfg_rmt_eid = 0,
     jfs_cfg_pld_token_id = 0, jfs_cfg_tpn = 0, jfs_cfg_eid_idx = 0,
     jfs_cfg_trans_mode = 0\<rparr>"

definition zero_jfs :: cdma_u_jfs where
  "zero_jfs =
    \<lparr>jfs_dma_ctx = NULL, jfs_id = 0, jfs_cfg = zero_jfs_cfg, jfs_handle = 0,
     jfs_sq = zero_jetty_queue, jfs_type = 0\<rparr>"

definition zero_tp_cfg :: dma_tp_cfg where
  "zero_tp_cfg =
    \<lparr>tp_cfg_scna = 0, tp_cfg_dcna = 0, tp_cfg_seid = 0, tp_cfg_deid = 0,
     tp_cfg_queue_id = 0\<rparr>"

definition zero_tp :: dma_tp where
  "zero_tp =
    \<lparr>tp_dma_ctx = NULL, tp_cfg = zero_tp_cfg, tp_tpn = 0, tp_handle = 0\<rparr>"

definition zero_queue_cfg :: queue_cfg where
  "zero_queue_cfg =
    \<lparr>qcfg_queue_depth = 0, qcfg_priority = 0, qcfg_user_ctx = 0, qcfg_dcna = 0,
     qcfg_rmt_eid = zero_eid, qcfg_event_mode = False, qcfg_trans_mode = 0\<rparr>"

definition zero_dma_queue_cfg :: dma_queue_cfg where
  "zero_dma_queue_cfg =
    \<lparr>cdma_jfc_cfg = zero_jfc_cfg, cdma_jfs_cfg = zero_jfs_cfg,
     cdma_tp_cfg = zero_tp_cfg\<rparr>"

definition zero_queue :: cdma_u_queue where
  "zero_queue =
    \<lparr>que_ctx = NULL, que_cfg = zero_queue_cfg, que_queue_id = 0, que_jfs = NULL,
     que_jfc = NULL, que_tp = NULL, que_jfce = NULL, que_queue_cfg = zero_dma_queue_cfg,
     que_handle = 0\<rparr>"

lemmas zero_defs = zero_eid_def zero_eu_def zero_cap_def zero_attr_def zero_dev_def zero_seg_def zero_cqe_def zero_doorbell_def zero_jetty_queue_def zero_db_page_def zero_dma_context_def zero_context_def zero_jfce_def zero_jfc_cfg_def zero_jfc_def zero_jfs_cfg_def zero_jfs_def zero_tp_cfg_def zero_tp_def zero_queue_cfg_def zero_dma_queue_cfg_def zero_queue_def

end
