(* ===== verification/Cdma_Env.thy ===== *)
theory Cdma_Env
  imports Cdma_Types
begin

text \<open>
  The world the library runs in. Code that is not part of the repository (the C library's
  allocator and \<open>mmap\<close>, the CDMA kernel driver behind \<open>ioctl\<close>, \<open>libummu\<close>) is a
  parameter \<open>env\<close>: each of its functions answers from the history of everything that
  happened before and the arguments of the call, so a theorem for every \<open>env\<close> holds
  whatever the system answers. The state \<open>st\<close> holds the objects the library allocates,
  one store per C type, keyed by address, and the trace \<open>tr\<close> of the calls and
  device accesses made so far, newest first. \<open>live\<close> reads off the trace what has been
  acquired and not yet released.
\<close>

unbundle bit_operations_syntax

section \<open>Kernel requests\<close>

text \<open>
  One constructor per command of \<open>enum cdma_cmd\<close> (\<open>cdma_abi.h\<close>) and per event command, with
  the members of its \<open>in\<close> structure; the private data of \<open>CREATE_JFS\<close> and
  \<open>CREATE_JFC\<close>, which the driver reads through \<open>udata.in_addr\<close>, is part of the request.
\<close>

record cdma_create_jfs_ucmd =
  jfsu_buf_addr :: u64
  jfsu_buf_len :: u32
  jfsu_jetty_addr :: u64
  jfsu_sqe_bb_cnt :: u32
  jfsu_jetty_type :: u32
  jfsu_non_pin :: u32
  jfsu_queue_id :: u32
  jfsu_tid :: u32

record cdma_cmd_create_jfs_in =
  jfsi_depth :: u32
  jfsi_flag :: u32
  jfsi_eid_idx :: u32
  jfsi_priority :: u8
  jfsi_max_sge :: u8
  jfsi_max_rsge :: u8
  jfsi_rnr_retry :: u8
  jfsi_err_timeout :: u8
  jfsi_jfc_id :: u32
  jfsi_queue_id :: u32
  jfsi_rmt_eid :: u32
  jfsi_pld_token_id :: u32
  jfsi_tpn :: u32
  jfsi_dma_jfs :: u64
  jfsi_trans_mode :: u32

record cdma_create_jfc_ucmd =
  jfcu_buf_addr :: u64
  jfcu_buf_len :: u32
  jfcu_db_addr :: u64
  jfcu_tid :: u32

record cdma_cmd_create_jfc_in =
  jfci_depth :: u32
  jfci_jfce_fd :: int
  jfci_jfce_id :: int
  jfci_ceqn :: u32
  jfci_queue_id :: u32

record cdma_cmd_create_ctp_in =
  ctpi_scna :: u32
  ctpi_dcna :: u32
  ctpi_dma_tp :: u64
  ctpi_seid :: u32
  ctpi_deid :: u32
  ctpi_queue_id :: u32

record cdma_cmd_create_queue_in =
  quei_queue_depth :: u32
  quei_dcna :: u32
  quei_rmt_eid :: u32
  quei_priority :: u8
  quei_user_ctx :: u64
  quei_trans_mode :: u32

datatype kreq =
    CDMA_CMD_QUERY_DEV_INFO
  | CDMA_CMD_CREATE_CTX
  | CDMA_CMD_DELETE_CTX
  | CDMA_CMD_CREATE_CTP cdma_cmd_create_ctp_in
  | CDMA_CMD_DELETE_CTP u32 u64 u32
  | CDMA_CMD_CREATE_JFS cdma_cmd_create_jfs_in cdma_create_jfs_ucmd
  | CDMA_CMD_DELETE_JFS u32 u64 u32
  | CDMA_CMD_REGISTER_SEG u64 u64
  | CDMA_CMD_UNREGISTER_SEG u64
  | CDMA_CMD_CREATE_QUEUE cdma_cmd_create_queue_in
  | CDMA_CMD_DELETE_QUEUE u32 u64
  | CDMA_CMD_CREATE_JFC cdma_cmd_create_jfc_in cdma_create_jfc_ucmd
  | CDMA_CMD_DELETE_JFC u32 u64 u32
  | CDMA_CMD_CREATE_JFCE
  | CDMA_CMD_WAIT_JFC u32 int
  | CDMA_CMD_GET_ASYNC_EVENT

text \<open>
  The \<open>out\<close> structures of the commands, merged into one record: a command reads only the
  members of its own.
\<close>

record kout =
  out_id :: u32
  out_depth :: u32
  out_max_sge :: u8
  out_max_rsge :: u8
  out_handle :: u64
  out_tpn :: u32
  out_fd :: int
  out_jfce_id :: int
  out_queue_id :: int
  out_cqe_size :: u8
  out_dwqe_enable :: u8
  out_async_fd :: int
  out_rsv_bitmap :: u32
  out_st64b_en :: u8
  out_event_cnt :: u32
  out_event_data :: u64
  out_event_type :: u32

section \<open>The trace\<close>

text \<open>What an allocation is for: the structure whose \<open>sizeof\<close> it asks for.\<close>

datatype obj =
    ObjJfs | ObjJfc | ObjJfce | ObjTp | ObjQueue | ObjSeg | ObjCtx | ObjDbPage
  | ObjBitmap | ObjWrid | ObjDevList | ObjDev

text \<open>
  Events: calls to the system with their result, locks by the object that holds them,
  memory barriers and stores to device memory (of a 32-bit word, a 64-bit word, a 64-byte
  block).
\<close>

datatype event =
    EvAlloc obj ptr
  | EvFree ptr
  | EvMmapAnon u32 ptr
  | EvMmapDev int u32 u64 ptr
  | EvMadvise ptr u32 int
  | EvMunmap ptr u32
  | EvSpinInit ptr int
  | EvSpinDestroy ptr
  | EvMutexInit ptr int
  | EvMutexDestroy ptr
  | EvCondInit ptr int
  | EvCondSignal ptr
  | EvLock ptr
  | EvUnlock ptr
  | EvIoctl int kreq int kout
  | EvClose int
  | EvOpen string int
  | EvRealpath string ptr
  | EvOpendir ptr
  | EvClosedir ptr
  | EvPoll int int int
  | EvAllocTid int u32
  | EvFreeTid u32
  | EvGrant u32 u64 u64 u32 int
  | EvUngrant u32 u64 u64 int
  | EvBarrierSt
  | EvBarrierLd
  | EvMmio32 ptr u32
  | EvMmio64 ptr u64
  | EvMmioBlock ptr "u32 list"

record env =
  e_alloc :: "event list \<Rightarrow> obj \<Rightarrow> ptr"
  e_mmap_anon :: "event list \<Rightarrow> u32 \<Rightarrow> ptr"
  e_mmap_dev :: "event list \<Rightarrow> int \<Rightarrow> u32 \<Rightarrow> u64 \<Rightarrow> ptr"
  e_madvise :: "event list \<Rightarrow> ptr \<Rightarrow> u32 \<Rightarrow> int"
  e_spin_init :: "event list \<Rightarrow> ptr \<Rightarrow> int"
  e_mutex_init :: "event list \<Rightarrow> ptr \<Rightarrow> int"
  e_cond_init :: "event list \<Rightarrow> ptr \<Rightarrow> int"
  e_ioctl :: "event list \<Rightarrow> int \<Rightarrow> kreq \<Rightarrow> int \<times> kout"
  e_poll :: "event list \<Rightarrow> int \<Rightarrow> int \<Rightarrow> int \<times> bool \<times> bool"
  e_allocate_tid :: "event list \<Rightarrow> int \<times> u32"
  e_grant :: "event list \<Rightarrow> u32 \<Rightarrow> u64 \<Rightarrow> u64 \<Rightarrow> u32 \<Rightarrow> int"
  e_ungrant :: "event list \<Rightarrow> u32 \<Rightarrow> u64 \<Rightarrow> u64 \<Rightarrow> int"
  e_pagesize :: u32
  e_stack :: "event list \<Rightarrow> u64"

section \<open>The state\<close>

record st =
  devs :: "ptr \<Rightarrow> dma_device"
  ctxs :: "ptr \<Rightarrow> cdma_u_context"
  pages :: "ptr \<Rightarrow> cdma_u_db_page"
  jfces :: "ptr \<Rightarrow> dma_jfce"
  jfcs :: "ptr \<Rightarrow> cdma_u_jfc"
  jfss :: "ptr \<Rightarrow> cdma_u_jfs"
  tps :: "ptr \<Rightarrow> dma_tp"
  queues :: "ptr \<Rightarrow> cdma_u_queue"
  segs :: "ptr \<Rightarrow> dma_seg"
  wqebbs :: "ptr \<Rightarrow> u32 list"
  cqes :: "ptr \<Rightarrow> cdma_u_jfc_cqe"
  wrids :: "ptr \<Rightarrow> u64"
  swdbs :: "ptr \<Rightarrow> u32"
  umem :: "ptr \<Rightarrow> u8"
  tr :: "event list"

definition emit :: "event \<Rightarrow> st \<Rightarrow> st" where
  "emit e s = s\<lparr>tr := e # tr s\<rparr>"

section \<open>Calls\<close>

definition sys_alloc :: "env \<Rightarrow> obj \<Rightarrow> st \<Rightarrow> ptr \<times> st" where
  "sys_alloc E ob s = (let p = e_alloc E (tr s) ob in (p, emit (EvAlloc ob p) s))"

definition sys_free :: "ptr \<Rightarrow> st \<Rightarrow> st" where
  "sys_free p s = emit (EvFree p) s"

definition sys_mmap_anon :: "env \<Rightarrow> u32 \<Rightarrow> st \<Rightarrow> ptr \<times> st" where
  "sys_mmap_anon E n s = (let p = e_mmap_anon E (tr s) n in (p, emit (EvMmapAnon n p) s))"

definition sys_mmap_dev :: "env \<Rightarrow> int \<Rightarrow> u32 \<Rightarrow> u64 \<Rightarrow> st \<Rightarrow> ptr \<times> st" where
  "sys_mmap_dev E fd n off s =
     (let p = e_mmap_dev E (tr s) fd n off in (p, emit (EvMmapDev fd n off p) s))"

definition sys_madvise :: "env \<Rightarrow> ptr \<Rightarrow> u32 \<Rightarrow> st \<Rightarrow> int \<times> st" where
  "sys_madvise E p n s = (let r = e_madvise E (tr s) p n in (r, emit (EvMadvise p n r) s))"

definition sys_munmap :: "ptr \<Rightarrow> u32 \<Rightarrow> st \<Rightarrow> st" where
  "sys_munmap p n s = emit (EvMunmap p n) s"

definition sys_spin_init :: "env \<Rightarrow> ptr \<Rightarrow> st \<Rightarrow> int \<times> st" where
  "sys_spin_init E p s = (let r = e_spin_init E (tr s) p in (r, emit (EvSpinInit p r) s))"

definition sys_mutex_init :: "env \<Rightarrow> ptr \<Rightarrow> st \<Rightarrow> int \<times> st" where
  "sys_mutex_init E p s = (let r = e_mutex_init E (tr s) p in (r, emit (EvMutexInit p r) s))"

definition sys_cond_init :: "env \<Rightarrow> ptr \<Rightarrow> st \<Rightarrow> int \<times> st" where
  "sys_cond_init E p s = (let r = e_cond_init E (tr s) p in (r, emit (EvCondInit p r) s))"

definition sys_ioctl :: "env \<Rightarrow> int \<Rightarrow> kreq \<Rightarrow> st \<Rightarrow> (int \<times> kout) \<times> st" where
  "sys_ioctl E fd rq s =
     (let (r, out) = e_ioctl E (tr s) fd rq in ((r, out), emit (EvIoctl fd rq r out) s))"

definition sys_close :: "int \<Rightarrow> st \<Rightarrow> st" where
  "sys_close fd s = emit (EvClose fd) s"

definition sys_poll :: "env \<Rightarrow> int \<Rightarrow> int \<Rightarrow> st \<Rightarrow> (int \<times> bool \<times> bool) \<times> st" where
  "sys_poll E fd timeout s =
     (let (r, b) = e_poll E (tr s) fd timeout in ((r, b), emit (EvPoll fd timeout r) s))"

definition ummu_allocate_tid :: "env \<Rightarrow> st \<Rightarrow> (int \<times> u32) \<times> st" where
  "ummu_allocate_tid E s =
     (let (r, tid) = e_allocate_tid E (tr s) in ((r, tid), emit (EvAllocTid r tid) s))"

definition ummu_grant :: "env \<Rightarrow> u32 \<Rightarrow> u64 \<Rightarrow> u64 \<Rightarrow> u32 \<Rightarrow> st \<Rightarrow> int \<times> st" where
  "ummu_grant E tid va len tok s =
     (let r = e_grant E (tr s) tid va len tok in (r, emit (EvGrant tid va len tok r) s))"

definition ummu_ungrant :: "env \<Rightarrow> u32 \<Rightarrow> u64 \<Rightarrow> u64 \<Rightarrow> st \<Rightarrow> int \<times> st" where
  "ummu_ungrant E tid va len s =
     (let r = e_ungrant E (tr s) tid va len in (r, emit (EvUngrant tid va len r) s))"

lemmas sys_defs = sys_alloc_def sys_free_def sys_mmap_anon_def sys_mmap_dev_def
  sys_madvise_def sys_munmap_def sys_spin_init_def sys_mutex_init_def sys_cond_init_def sys_ioctl_def
  sys_close_def sys_poll_def ummu_allocate_tid_def ummu_grant_def ummu_ungrant_def

section \<open>Live resources\<close>

text \<open>
  A resource is acquired by a successful call and released when its releasing call is
  issued; what a failed \<open>munmap\<close>, \<open>close\<close> or delete command leaves behind is the
  system's. Kernel objects are identified by the device descriptor and their number.
\<close>

datatype resource =
    RMem ptr | RMap ptr u32 | RSpin ptr | RMutex ptr | RCond ptr | RFd int | RTid u32
  | RGrant u32 u64 u64 | RCtx int | RCtp int u32 | RJfs int u32 | RJfc int u32
  | RSeg int u64 | RQueue int u32 | RDir ptr

fun kacquired :: "int \<Rightarrow> kreq \<Rightarrow> kout \<Rightarrow> resource multiset" where
  "kacquired fd CDMA_CMD_CREATE_CTX out =
     add_mset (RCtx fd) (if out_async_fd out < 0 then {#} else {#RFd (out_async_fd out)#})"
| "kacquired fd (CDMA_CMD_CREATE_CTP _) out = {#RCtp fd (out_tpn out)#}"
| "kacquired fd (CDMA_CMD_CREATE_JFS _ _) out = {#RJfs fd (out_id out)#}"
| "kacquired fd (CDMA_CMD_REGISTER_SEG _ _) out = {#RSeg fd (out_handle out)#}"
| "kacquired fd (CDMA_CMD_CREATE_QUEUE _) out = {#RQueue fd (word_of_int (out_queue_id out))#}"
| "kacquired fd (CDMA_CMD_CREATE_JFC _ _) out = {#RJfc fd (out_id out)#}"
| "kacquired fd CDMA_CMD_CREATE_JFCE out = {#RFd (out_fd out)#}"
| "kacquired fd _ out = {#}"

fun kreleased :: "int \<Rightarrow> kreq \<Rightarrow> resource multiset" where
  "kreleased fd CDMA_CMD_DELETE_CTX = {#RCtx fd#}"
| "kreleased fd (CDMA_CMD_DELETE_CTP tpn _ _) = {#RCtp fd tpn#}"
| "kreleased fd (CDMA_CMD_DELETE_JFS i _ _) = {#RJfs fd i#}"
| "kreleased fd (CDMA_CMD_UNREGISTER_SEG h) = {#RSeg fd h#}"
| "kreleased fd (CDMA_CMD_DELETE_QUEUE i _) = {#RQueue fd i#}"
| "kreleased fd (CDMA_CMD_DELETE_JFC i _ _) = {#RJfc fd i#}"
| "kreleased fd _ = {#}"

fun acquired :: "event \<Rightarrow> resource multiset" where
  "acquired (EvAlloc _ p) = (if p = NULL then {#} else {#RMem p#})"
| "acquired (EvMmapAnon n p) = (if p = MAP_FAILED then {#} else {#RMap p n#})"
| "acquired (EvMmapDev _ n _ p) = (if p = MAP_FAILED then {#} else {#RMap p n#})"
| "acquired (EvSpinInit p r) = (if r = 0 then {#RSpin p#} else {#})"
| "acquired (EvMutexInit p r) = (if r = 0 then {#RMutex p#} else {#})"
| "acquired (EvCondInit p r) = (if r = 0 then {#RCond p#} else {#})"
| "acquired (EvIoctl fd rq r out) = (if r = 0 then kacquired fd rq out else {#})"
| "acquired (EvOpen path fd) = (if fd < 0 then {#} else {#RFd fd#})"
| "acquired (EvRealpath path p) = (if p = NULL then {#} else {#RMem p#})"
| "acquired (EvOpendir d) = (if d = NULL then {#} else {#RDir d#})"
| "acquired (EvAllocTid r tid) = (if r = 0 then {#RTid tid#} else {#})"
| "acquired (EvGrant tid va len _ r) = (if r = 0 then {#RGrant tid va len#} else {#})"
| "acquired _ = {#}"

fun released :: "event \<Rightarrow> resource multiset" where
  "released (EvFree p) = (if p = NULL then {#} else {#RMem p#})"
| "released (EvMunmap p n) = {#RMap p n#}"
| "released (EvSpinDestroy p) = {#RSpin p#}"
| "released (EvMutexDestroy p) = {#RMutex p#}"
| "released (EvIoctl fd rq _ _) = kreleased fd rq"
| "released (EvClose fd) = {#RFd fd#}"
| "released (EvClosedir d) = {#RDir d#}"
| "released (EvFreeTid tid) = {#RTid tid#}"
| "released (EvUngrant tid va len _) = {#RGrant tid va len#}"
| "released _ = {#}"

primrec live_of :: "event list \<Rightarrow> resource multiset" where
  "live_of [] = {#}"
| "live_of (e # es) = acquired e + (live_of es - released e)"

definition live :: "st \<Rightarrow> resource multiset" where
  "live s = live_of (tr s)"

named_theorems live_simps "how calls and stores change the live resources"

lemma live_emit [live_simps]: "live (emit e s) = acquired e + (live s - released e)"
  by (simp add: live_def emit_def)

text \<open>
  Documented behaviour of the system the theorems rely on where they name it. \<open>mmap_ok\<close>:
  \<open>mmap\<close> without \<open>MAP_FIXED\<close> never returns address 0. \<open>sys_ok E k\<close>: in addition the
  page size is \<open>2 ^ k\<close>, mappings are page aligned and distinct from the live ones, and the
  allocator returns addresses that are not in use. \<open>jfce_ok\<close>: a successful
  \<open>CREATE_JFCE\<close> returns a file descriptor.
\<close>

definition mmap_ok :: "env \<Rightarrow> bool" where
  "mmap_ok E \<longleftrightarrow> (\<forall>t n. e_mmap_anon E t n \<noteq> NULL) \<and> (\<forall>t fd n off. e_mmap_dev E t fd n off \<noteq> NULL)"

definition sys_ok :: "env \<Rightarrow> nat \<Rightarrow> bool" where
  "sys_ok E k \<longleftrightarrow> mmap_ok E \<and> 12 \<le> k \<and> k \<le> 30 \<and> e_pagesize E = 2 ^ k
     \<and> (\<forall>t ob. e_alloc E t ob \<noteq> NULL \<longrightarrow> RMem (e_alloc E t ob) \<notin># live_of t)
     \<and> (\<forall>t n. e_mmap_anon E t n \<noteq> MAP_FAILED \<longrightarrow>
          e_mmap_anon E t n AND mask k = 0 \<and> (\<forall>n'. RMap (e_mmap_anon E t n) n' \<notin># live_of t))
     \<and> (\<forall>t fd n off. e_mmap_dev E t fd n off \<noteq> MAP_FAILED \<longrightarrow> e_mmap_dev E t fd n off AND mask k = 0)"

text \<open>Mutexes and condition variables with default attributes: their initialisation does not fail.\<close>

definition sync_ok :: "env \<Rightarrow> bool" where
  "sync_ok E \<longleftrightarrow> (\<forall>t p. e_mutex_init E t p = 0 \<and> e_cond_init E t p = 0)"

definition jfce_ok :: "env \<Rightarrow> bool" where
  "jfce_ok E \<longleftrightarrow> (\<forall>t fd. fst (e_ioctl E t fd CDMA_CMD_CREATE_JFCE) = 0
                  \<longrightarrow> 0 \<le> out_fd (snd (e_ioctl E t fd CDMA_CMD_CREATE_JFCE)))"

lemma emit_sel [simp]:
  "devs (emit e s) = devs s" "ctxs (emit e s) = ctxs s" "pages (emit e s) = pages s"
  "jfces (emit e s) = jfces s" "jfcs (emit e s) = jfcs s" "jfss (emit e s) = jfss s"
  "tps (emit e s) = tps s" "queues (emit e s) = queues s" "segs (emit e s) = segs s"
  "wqebbs (emit e s) = wqebbs s" "cqes (emit e s) = cqes s" "wrids (emit e s) = wrids s"
  "swdbs (emit e s) = swdbs s" "umem (emit e s) = umem s" "tr (emit e s) = e # tr s"
  by (simp_all add: emit_def)

lemma live_store [live_simps]:
  "live (s\<lparr>devs := a0\<rparr>) = live s" "live (s\<lparr>ctxs := a1\<rparr>) = live s" "live (s\<lparr>pages := a2\<rparr>) = live s"
  "live (s\<lparr>jfces := a3\<rparr>) = live s" "live (s\<lparr>jfcs := a4\<rparr>) = live s" "live (s\<lparr>jfss := a5\<rparr>) = live s"
  "live (s\<lparr>tps := a6\<rparr>) = live s" "live (s\<lparr>queues := a7\<rparr>) = live s" "live (s\<lparr>segs := a8\<rparr>) = live s"
  "live (s\<lparr>wqebbs := a9\<rparr>) = live s" "live (s\<lparr>cqes := b0\<rparr>) = live s" "live (s\<lparr>wrids := b1\<rparr>) = live s"
  "live (s\<lparr>swdbs := b2\<rparr>) = live s" "live (s\<lparr>umem := b3\<rparr>) = live s"
  by (simp_all add: live_def)

section \<open>A concrete system\<close>

text \<open>
  \<open>init_st\<close> is the state before the library is used. \<open>demo_env f\<close> is an environment in
  which every call succeeds and the kernel answers a request with \<open>f\<close>: the allocator hands
  out a new multiple of 64K at every call, and nothing should that address be in use. It
  shows that the assumptions above can hold, and theorems are applied to it.
\<close>

definition init_st :: st where
  "init_st = \<lparr>devs = \<lambda>_. zero_dev, ctxs = \<lambda>_. zero_context, pages = \<lambda>_. zero_db_page,
     jfces = \<lambda>_. zero_jfce, jfcs = \<lambda>_. zero_jfc, jfss = \<lambda>_. zero_jfs, tps = \<lambda>_. zero_tp,
     queues = \<lambda>_. zero_queue, segs = \<lambda>_. zero_seg, wqebbs = \<lambda>_. replicate 16 0,
     cqes = \<lambda>_. zero_cqe, wrids = \<lambda>_. 0, swdbs = \<lambda>_. 0, umem = \<lambda>_. 0, tr = []\<rparr>"

fun maps_at :: "ptr \<Rightarrow> resource \<Rightarrow> bool" where
  "maps_at p (RMap q n) = (q = p)"
| "maps_at p _ = False"

definition demo_addr :: "event list \<Rightarrow> ptr" where
  "demo_addr t = 0x10000 * (of_nat (length t) + 1)"

definition demo_alloc :: "event list \<Rightarrow> ptr" where
  "demo_alloc t = (if RMem (demo_addr t) \<in># live_of t then NULL else demo_addr t)"

definition demo_mmap :: "event list \<Rightarrow> ptr" where
  "demo_mmap t = (if demo_addr t = NULL \<or> demo_addr t AND mask 12 \<noteq> 0
                     \<or> (\<exists>r\<in>#live_of t. maps_at (demo_addr t) r) then MAP_FAILED
                  else demo_addr t)"

definition demo_env :: "(kreq \<Rightarrow> int \<times> kout) \<Rightarrow> env" where
  "demo_env f = \<lparr>e_alloc = \<lambda>t _. demo_alloc t, e_mmap_anon = \<lambda>t _. demo_mmap t,
     e_mmap_dev = \<lambda>t _ _ _. demo_mmap t, e_madvise = \<lambda>_ _ _. 0, e_spin_init = \<lambda>_ _. 0,
     e_mutex_init = \<lambda>_ _. 0, e_cond_init = \<lambda>_ _. 0, e_ioctl = \<lambda>_ _ rq. f rq, e_poll = \<lambda>_ _ _. (1, True, False),
     e_allocate_tid = \<lambda>_. (0, 1), e_grant = \<lambda>_ _ _ _ _. 0, e_ungrant = \<lambda>_ _ _ _. 0,
     e_pagesize = 4096, e_stack = \<lambda>_. 0\<rparr>"

lemma demo_mmap_props:
  "demo_mmap t \<noteq> NULL"
  "demo_mmap t \<noteq> MAP_FAILED \<Longrightarrow> demo_mmap t AND mask 12 = 0 \<and> (\<forall>n. RMap (demo_mmap t) n \<notin># live_of t)"
  by (auto simp: demo_mmap_def split: if_splits)

lemma demo_env_mmap_ok: "mmap_ok (demo_env f)"
  by (simp add: mmap_ok_def demo_env_def demo_mmap_props)

lemma demo_env_ok: "sys_ok (demo_env f) 12"
  using demo_mmap_props
  by (simp add: sys_ok_def demo_env_mmap_ok) (simp add: demo_env_def demo_alloc_def)

text \<open>\<open>demo_sys\<close> answers every request with the same values.\<close>

definition demo_sys :: env where
  "demo_sys = demo_env (\<lambda>_. (0, \<lparr>out_id = 7, out_depth = 64, out_max_sge = 4, out_max_rsge = 4,
     out_handle = 9, out_tpn = 5, out_fd = 11, out_jfce_id = 2, out_queue_id = 3, out_cqe_size = 64,
     out_dwqe_enable = 1, out_async_fd = 12, out_rsv_bitmap = 0, out_st64b_en = 0, out_event_cnt = 1,
     out_event_data = 0, out_event_type = 0\<rparr>))"

lemma demo_sys_ok: "sys_ok demo_sys 12"
  unfolding demo_sys_def by (rule demo_env_ok)

end
