(* ===== verification/Cdma_Sqe.thy ===== *)
theory Cdma_Sqe
  imports Cdma_Env
begin

text \<open>
  Building a send queue element (\<open>cdma_u_jfs.c\<close>, \<open>cdma_u_jfs.h\<close>). The temporary element is
  the array \<open>tmp_sq\<close> of four WQEBBs of 16 dwords, here a list of 64 dwords; the bit fields
  of \<open>struct cdma_jfs_sqe_ctl\<close> are the ranges of \<open>field_pos\<close> in its first twelve dwords, its
  reserved members left out. A store outside \<open>tmp_sq\<close> is \<open>None\<close>. Every \<open>memcpy\<close> of this
  file copies a multiple of four bytes to a multiple of four, little endian.
\<close>

unbundle bit_operations_syntax

section \<open>The control segment\<close>

datatype sqe_field =
    F_sqe_bb_idx | F_place_odr | F_comp_order | F_fence | F_se | F_cqe | F_inline_en
  | F_token_en | F_rmt_jetty_type | F_owner | F_target_hint | F_opcode | F_inline_msg_len
  | F_tpn | F_sge_num | F_toid | F_rmt_eid0 | F_rmt_token_value | F_rmt_addr_l | F_rmt_addr_h

text \<open>Dword, first bit and width of a member.\<close>

fun field_pos :: "sqe_field \<Rightarrow> nat \<times> nat \<times> nat" where
  "field_pos F_sqe_bb_idx = (0, 0, 16)"
| "field_pos F_place_odr = (0, 16, 2)"
| "field_pos F_comp_order = (0, 18, 1)"
| "field_pos F_fence = (0, 19, 1)"
| "field_pos F_se = (0, 20, 1)"
| "field_pos F_cqe = (0, 21, 1)"
| "field_pos F_inline_en = (0, 22, 1)"
| "field_pos F_token_en = (0, 28, 1)"
| "field_pos F_rmt_jetty_type = (0, 29, 2)"
| "field_pos F_owner = (0, 31, 1)"
| "field_pos F_target_hint = (1, 0, 8)"
| "field_pos F_opcode = (1, 8, 8)"
| "field_pos F_inline_msg_len = (1, 22, 10)"
| "field_pos F_tpn = (2, 0, 24)"
| "field_pos F_sge_num = (2, 24, 8)"
| "field_pos F_toid = (3, 0, 20)"
| "field_pos F_rmt_eid0 = (4, 0, 32)"
| "field_pos F_rmt_token_value = (8, 0, 32)"
| "field_pos F_rmt_addr_l = (10, 0, 32)"
| "field_pos F_rmt_addr_h = (11, 0, 32)"

definition field_dw :: "sqe_field \<Rightarrow> nat" where "field_dw f = fst (field_pos f)"

definition field_off :: "sqe_field \<Rightarrow> nat" where "field_off f = fst (snd (field_pos f))"

definition field_width :: "sqe_field \<Rightarrow> nat" where "field_width f = snd (snd (field_pos f))"

definition ctl_get :: "sqe_field \<Rightarrow> u32 list \<Rightarrow> u32" where
  "ctl_get f t = take_bit (field_width f) (drop_bit (field_off f) (t ! field_dw f))"

definition ctl_set :: "sqe_field \<Rightarrow> u32 \<Rightarrow> u32 list \<Rightarrow> u32 list" where
  "ctl_set f v t = t[field_dw f :=
     (t ! field_dw f AND NOT (push_bit (field_off f) (mask (field_width f))))
       OR push_bit (field_off f) (take_bit (field_width f) v)]"

lemmas field_defs = field_dw_def field_off_def field_width_def

lemma field_range: "field_dw f < 12 \<and> field_off f + field_width f \<le> 32 \<and> 0 < field_width f"
  by (cases f) (simp_all add: field_defs)

lemma field_disjoint:
  assumes "f \<noteq> g" and "field_dw f = field_dw g"
  shows "field_off f + field_width f \<le> field_off g \<or> field_off g + field_width g \<le> field_off f"
  using assms by (cases f; cases g) (simp_all add: field_defs)

lemma length_ctl_set [simp]: "length (ctl_set f v t) = length t"
  by (simp add: ctl_set_def)

lemma nth_ctl_set [simp]: "12 \<le> i \<Longrightarrow> ctl_set f v t ! i = t ! i"
  using field_range [of f] by (simp add: ctl_set_def)

lemma ctl_get_update [simp]: "12 \<le> i \<Longrightarrow> ctl_get f (t[i := v]) = ctl_get f t"
  using field_range [of f] by (simp add: ctl_get_def)

lemma ctl_get_set:
  assumes "12 \<le> length t"
  shows "ctl_get f (ctl_set g v t) = (if f = g then take_bit (field_width f) v else ctl_get f t)"
proof -
  have dw: "field_dw g < length t" using field_range [of g] assms by simp
  show ?thesis
  proof (cases "f = g")
    case True
    show ?thesis
      unfolding True ctl_get_def ctl_set_def
      using dw field_range [of g] by (auto intro!: bit_word_eqI simp: bit_simps)
  next
    case False
    show ?thesis
    proof (cases "field_dw f = field_dw g")
      case same: True
      show ?thesis
        using field_disjoint [OF False same] dw field_range [of f] field_range [of g] False same
        by (auto intro!: bit_word_eqI simp: ctl_get_def ctl_set_def bit_simps)
    next
      case False
      then show ?thesis using \<open>f \<noteq> g\<close> by (simp add: ctl_get_def ctl_set_def)
    qed
  qed
qed


section \<open>Building the element\<close>

definition lo32 :: "u64 \<Rightarrow> u32" where "lo32 v = ucast v"

definition hi32 :: "u64 \<Rightarrow> u32" where "hi32 v = ucast (drop_bit 32 v)"

definition dw_of_bytes :: "(ptr \<Rightarrow> u8) \<Rightarrow> ptr \<Rightarrow> u32" where
  "dw_of_bytes m a = ucast (m a) OR push_bit 8 (ucast (m (a + 1)))
     OR push_bit 16 (ucast (m (a + 2))) OR push_bit 24 (ucast (m (a + 3)))"

text \<open>\<open>memcpy\<close> of \<open>ws\<close> to dword \<open>p\<close> of \<open>tmp_sq\<close>.\<close>

definition put_dws :: "nat \<Rightarrow> u32 list \<Rightarrow> u32 list \<Rightarrow> u32 list option" where
  "put_dws p ws t =
     (if p + length ws \<le> length t then Some (take p t @ ws @ drop (p + length ws) t) else None)"

text \<open>\<open>struct cdma_wqe_sge\<close> (\<open>length\<close>, \<open>token_id\<close>, \<open>va\<close>) at dword \<open>p\<close>.\<close>

definition sge_dws :: "dma_sge \<Rightarrow> u32 list" where
  "sge_dws g = [sge_len g, seg_tid (sge_seg g), lo32 (sge_addr g), hi32 (sge_addr g)]"

fun fill_sges :: "dma_sge list \<Rightarrow> nat \<Rightarrow> u32 \<Rightarrow> u32 list \<Rightarrow> (u32 \<times> u32 list) option" where
  "fill_sges [] p sge_num t = Some (sge_num, t)"
| "fill_sges (g # gs) p sge_num t =
     (if sge_len g = 0 then fill_sges gs p sge_num t
      else do { t1 \<leftarrow> put_dws p (sge_dws g) t; fill_sges gs (p + 4) (sge_num + 1) t1 })"

definition sg_entries :: "dma_sg \<Rightarrow> dma_sge list option" where
  "sg_entries sg = (if unat (sg_num_sge sg) \<le> length (sg_sge sg)
                    then Some (take (unat (sg_num_sge sg)) (sg_sge sg)) else None)"

definition sg_first :: "dma_sg \<Rightarrow> dma_sge option" where
  "sg_first sg = (if sg_sge sg = [] then None else Some (hd (sg_sge sg)))"

definition cdma_parse_jfs_opcode :: "u32 \<Rightarrow> u8" where
  "cdma_parse_jfs_opcode opcode =
     (if opcode = CDMA_WR_OPC_READ then CDMA_OPCODE_READ
      else if opcode = CDMA_WR_OPC_WRITE then CDMA_OPCODE_WRITE
      else if opcode = CDMA_WR_OPC_WRITE_NOTIFY then CDMA_OPCODE_WRITE_WITH_NOTIFY
      else if opcode = CDMA_WR_OPC_CAS then CDMA_OPCODE_CAS
      else if opcode = CDMA_WR_OPC_FADD then CDMA_OPCODE_FAA
      else CDMA_OPCODE_INVALID)"

definition wr_rw :: "dma_jfs_wr \<Rightarrow> dma_rw_wr option" where
  "wr_rw wr = (case wr_body wr of Wr_rw rw \<Rightarrow> Some rw | _ \<Rightarrow> None)"

text \<open>True when the number of SGEs is refused.\<close>

definition cdma_check_sge_num :: "u8 \<Rightarrow> cdma_u_jetty_queue \<Rightarrow> dma_jfs_wr \<Rightarrow> bool option" where
  "cdma_check_sge_num opcode sq wr =
     (if opcode = CDMA_OPCODE_CAS \<or> opcode = CDMA_OPCODE_FAA then Some (q_max_sge_num sq = 0)
      else if opcode = CDMA_OPCODE_READ then
        do { rw \<leftarrow> wr_rw wr;
             Some (sg_num_sge (rw_dst rw) > CDMA_JFS_MAX_SGE_READ
                   \<or> sg_num_sge (rw_dst rw) > q_max_sge_num sq) }
      else if opcode = CDMA_OPCODE_WRITE_WITH_NOTIFY then
        do { rw \<leftarrow> wr_rw wr;
             Some (sg_num_sge (rw_src rw) > CDMA_JFS_MAX_SGE_NOTIFY
                   \<or> sg_num_sge (rw_src rw) > q_max_sge_num sq) }
      else do { rw \<leftarrow> wr_rw wr; Some (sg_num_sge (rw_src rw) > q_max_sge_num sq) })"

text \<open>The parameter is a \<open>uint8_t\<close>: callers pass the opcode of the request, truncated.\<close>

definition cdma_get_ctl_len :: "u8 \<Rightarrow> u32" where
  "cdma_get_ctl_len opcode =
     (if ucast opcode = CDMA_WR_OPC_WRITE_NOTIFY then SQE_WRITE_NOTIFY_CTL_LEN else SQE_NORMAL_CTL_LEN)"

definition cdma_fill_multi_sge :: "u32 list \<Rightarrow> dma_rw_wr \<Rightarrow> nat \<Rightarrow> (int \<times> u32 list) option" where
  "cdma_fill_multi_sge t rw sge = do {
     gs \<leftarrow> sg_entries (rw_src rw);
     (sge_num, t1) \<leftarrow> fill_sges gs sge 0 t;
     Some (0, ctl_set F_sge_num sge_num t1)
   }"

text \<open>The remote side of a request: token and address of an SGE.\<close>

definition set_rmt :: "dma_sge \<Rightarrow> u32 list \<Rightarrow> u32 list" where
  "set_rmt g t = ctl_set F_rmt_addr_h (hi32 (sge_addr g)) (ctl_set F_rmt_addr_l (lo32 (sge_addr g))
     (ctl_set F_rmt_token_value (seg_token_value (sge_seg g))
       (ctl_set F_token_en (of_bool (seg_token_value_valid (sge_seg g)))
         (ctl_set F_toid (seg_tid (sge_seg g)) t))))"

definition cdma_u_fill_write_sqe :: "u32 list \<Rightarrow> dma_jfs_wr \<Rightarrow> (int \<times> u32 list) option" where
  "cdma_u_fill_write_sqe t wr = do {
     rw \<leftarrow> wr_rw wr;
     (ret, t1) \<leftarrow> cdma_fill_multi_sge t rw (unat (cdma_get_ctl_len (ucast (wr_opcode wr))) div 4);
     if ret \<noteq> 0 then Some (- EINVAL, t1)
     else do {
       g \<leftarrow> sg_first (rw_dst rw);
       let t2 = ctl_set F_target_hint (ucast (rw_target_hint rw)) (set_rmt g t1);
       if wr_opcode wr = CDMA_WR_OPC_WRITE_NOTIFY then do {
         t3 \<leftarrow> put_dws (SQE_NOTIFY_TOKEN_ID_FIELD div 4)
                 [take_bit 20 (rw_notify_tokenid rw), rw_notify_tokenvalue rw] t2;
         t4 \<leftarrow> put_dws (SQE_NOTIFY_ADDR_FIELD div 4)
                 [lo32 (rw_notify_addr rw), hi32 (rw_notify_addr rw)] t3;
         t5 \<leftarrow> put_dws (SQE_ATOMIC_DATA_FIELD div 4)
                 [lo32 (rw_notify_data rw), hi32 (rw_notify_data rw)] t4;
         Some (0, t5)
       } else Some (0, t2)
     }
   }"

definition cdma_u_fill_read_sqe :: "u32 list \<Rightarrow> dma_jfs_wr \<Rightarrow> (int \<times> u32 list) option" where
  "cdma_u_fill_read_sqe t wr = do {
     rw \<leftarrow> wr_rw wr;
     gs \<leftarrow> sg_entries (rw_dst rw);
     (sge_num, t1) \<leftarrow> fill_sges gs (unat SQE_NORMAL_CTL_LEN div 4) 0 t;
     g \<leftarrow> sg_first (rw_src rw);
     Some (0, set_rmt g (ctl_set F_sge_num sge_num t1))
   }"

definition cdma_check_atomic_len :: "u32 \<Rightarrow> u8 \<Rightarrow> bool" where
  "cdma_check_atomic_len len opcode =
     (if ucast opcode = CDMA_WR_OPC_CAS
      then len = CDMA_ATOMIC_LEN_4 \<or> len = CDMA_ATOMIC_LEN_8 \<or> len = CDMA_ATOMIC_LEN_16
      else if ucast opcode = CDMA_WR_OPC_FADD
      then len = CDMA_ATOMIC_LEN_4 \<or> len = CDMA_ATOMIC_LEN_8
      else False)"

text \<open>
  The \<open>len\<close> bytes of an operand: of the 64-bit value itself up to 8 bytes, of the memory it
  points to above.
\<close>

definition operand_dws :: "(ptr \<Rightarrow> u8) \<Rightarrow> u64 \<Rightarrow> u32 \<Rightarrow> u32 list" where
  "operand_dws m v len =
     (if len \<le> CDMA_ATOMIC_LEN_8 then take (unat len div 4) [lo32 v, hi32 v]
      else map (\<lambda>i. dw_of_bytes m (v + of_nat (4 * i))) [0..<unat len div 4])"

definition cdma_u_fill_cas_sqe ::
  "(ptr \<Rightarrow> u8) \<Rightarrow> u32 list \<Rightarrow> dma_jfs_wr \<Rightarrow> (int \<times> u32 list) option" where
  "cdma_u_fill_cas_sqe m t wr = (case wr_body wr of
     Wr_cas c \<Rightarrow>
       (let len = sge_len (cas_src c) in
        if \<not> cdma_check_atomic_len len (ucast (wr_opcode wr)) then Some (- EINVAL, t)
        else do {
          t1 \<leftarrow> put_dws (unat SQE_NORMAL_CTL_LEN div 4) (sge_dws (cas_src c)) t;
          let t2 = set_rmt (cas_dst c) (ctl_set F_sge_num CDMA_ATOMIC_SGE_NUM t1);
          t3 \<leftarrow> put_dws (SQE_ATOMIC_DATA_FIELD div 4) (operand_dws m (cas_swap c) len) t2;
          t4 \<leftarrow> put_dws ((SQE_ATOMIC_DATA_FIELD + unat len) div 4) (operand_dws m (cas_cmp c) len) t3;
          Some (0, t4)
        })
   | _ \<Rightarrow> None)"

definition cdma_u_fill_faa_sqe ::
  "(ptr \<Rightarrow> u8) \<Rightarrow> u32 list \<Rightarrow> dma_jfs_wr \<Rightarrow> (int \<times> u32 list) option" where
  "cdma_u_fill_faa_sqe m t wr = (case wr_body wr of
     Wr_faa f \<Rightarrow>
       (let len = sge_len (faa_src f) in
        if \<not> cdma_check_atomic_len len (ucast (wr_opcode wr)) then Some (- EINVAL, t)
        else do {
          t1 \<leftarrow> put_dws (unat SQE_NORMAL_CTL_LEN div 4) (sge_dws (faa_src f)) t;
          let t2 = set_rmt (faa_dst f) (ctl_set F_sge_num CDMA_ATOMIC_SGE_NUM t1);
          t3 \<leftarrow> put_dws (SQE_ATOMIC_DATA_FIELD div 4) (operand_dws m (faa_operand f) len) t2;
          Some (0, t3)
        })
   | _ \<Rightarrow> None)"

definition cdma_fill_normal_sge ::
  "(ptr \<Rightarrow> u8) \<Rightarrow> u32 list \<Rightarrow> dma_jfs_wr \<Rightarrow> (int \<times> u32 list) option" where
  "cdma_fill_normal_sge m t wr =
     (let opcode = wr_opcode wr in
      if opcode = CDMA_WR_OPC_WRITE \<or> opcode = CDMA_WR_OPC_WRITE_NOTIFY then cdma_u_fill_write_sqe t wr
      else if opcode = CDMA_WR_OPC_READ then cdma_u_fill_read_sqe t wr
      else if opcode = CDMA_WR_OPC_CAS then cdma_u_fill_cas_sqe m t wr
      else if opcode = CDMA_WR_OPC_FADD then cdma_u_fill_faa_sqe m t wr
      else Some (- EINVAL, t))"

text \<open>The members every request sets before its SGEs.\<close>

definition sqe_common :: "cdma_u_jetty_queue \<Rightarrow> dma_jfs_wr \<Rightarrow> u8 \<Rightarrow> u32 list \<Rightarrow> u32 list" where
  "sqe_common sq wr opcode t =
     ctl_set F_rmt_eid0 (wr_rmt_eid wr) (ctl_set F_inline_en 0
       (ctl_set F_se (ucast (fl_solicited_enable (wr_flag wr)))
         (ctl_set F_comp_order (ucast (fl_comp_order (wr_flag wr)))
           (ctl_set F_fence (ucast (fl_fence (wr_flag wr)))
             (ctl_set F_place_odr (ucast (fl_place_order (wr_flag wr)))
               (ctl_set F_tpn (wr_tpn wr)
                 (ctl_set F_opcode (ucast opcode)
                   (ctl_set F_owner (if q_pi sq AND baseblk_cnt sq = 0 then 1 else 0)
                     (ctl_set F_cqe (ucast (fl_complete_enable (wr_flag wr))) t)))))))))"

definition cdma_set_sqe ::
  "(ptr \<Rightarrow> u8) \<Rightarrow> u32 list \<Rightarrow> cdma_u_jetty_queue \<Rightarrow> dma_jfs_wr \<Rightarrow> u8 \<Rightarrow> (int \<times> u32 list) option" where
  "cdma_set_sqe m t sq wr opcode = cdma_fill_normal_sge m (sqe_common sq wr opcode t) wr"

definition cdma_get_normal_sge_num :: "u8 \<Rightarrow> u32 list \<Rightarrow> u32" where
  "cdma_get_normal_sge_num opcode t =
     (if ucast opcode = CDMA_WR_OPC_CAS \<or> ucast opcode = CDMA_WR_OPC_FADD
      then CDMA_ATOMIC_SGE_NUM + 1 else ctl_get F_sge_num t)"

definition cdma_sq_cal_wqebb_num :: "u32 \<Rightarrow> u32 \<Rightarrow> u32 \<Rightarrow> u32" where
  "cdma_sq_cal_wqebb_num sqe_ctl_len sge_num wqebb_size =
     (sqe_ctl_len + (sge_num - 1) * CDMA_SGE_SIZE) div wqebb_size + 1"

definition cdma_get_wqebb_cnt :: "dma_jfs_wr \<Rightarrow> u32 list \<Rightarrow> u32" where
  "cdma_get_wqebb_cnt wr t =
     cdma_sq_cal_wqebb_num (cdma_get_ctl_len (ucast (wr_opcode wr)))
       (cdma_get_normal_sge_num (ucast (wr_opcode wr)) t) CDMA_JFS_WQEBB"

section \<open>What a finished element holds\<close>

definition dws :: "u32 list \<Rightarrow> nat \<Rightarrow> nat \<Rightarrow> u32 list" where
  "dws t p n = take n (drop p t)"

lemma put_dws_Some:
  "put_dws p ws t = Some t' \<longleftrightarrow> p + length ws \<le> length t \<and> t' = take p t @ ws @ drop (p + length ws) t"
  by (auto simp: put_dws_def)

lemma put_dws_props:
  assumes "put_dws p ws t = Some t'"
  shows "length t' = length t" and "12 \<le> p \<Longrightarrow> ctl_get f t' = ctl_get f t"
    and "dws t' p (length ws) = ws" and "q + n \<le> p \<Longrightarrow> dws t' q n = dws t q n"
    and "p + length ws \<le> q \<Longrightarrow> dws t' q n = dws t q n"
proof -
  have b: "p + length ws \<le> length t" "t' = take p t @ ws @ drop (p + length ws) t"
    using assms by (simp_all add: put_dws_Some)
  then show "length t' = length t" "dws t' p (length ws) = ws" by (simp_all add: dws_def)
  show "12 \<le> p \<Longrightarrow> ctl_get f t' = ctl_get f t"
    using b field_range [of f] by (simp add: ctl_get_def nth_append)
  show "q + n \<le> p \<Longrightarrow> dws t' q n = dws t q n"
    using b by (intro nth_equalityI) (auto simp: dws_def nth_append)
  show "p + length ws \<le> q \<Longrightarrow> dws t' q n = dws t q n"
    using b by (intro nth_equalityI) (auto simp: dws_def nth_append)
qed

lemma dws_ctl_set [simp]: "12 \<le> p \<Longrightarrow> dws (ctl_set f v t) p n = dws t p n"
  using field_range [of f] by (simp add: dws_def ctl_set_def)

text \<open>The SGEs of a list that reach the element: those of non-zero length.\<close>

definition sges :: "dma_sge list \<Rightarrow> dma_sge list" where
  "sges gs = filter (\<lambda>g. sge_len g \<noteq> 0) gs"

lemma sges_simps [simp]:
  "sges [] = []" "sge_len g = 0 \<Longrightarrow> sges (g # gs) = sges gs" "sge_len g \<noteq> 0 \<Longrightarrow> sges (g # gs) = g # sges gs"
  by (simp_all add: sges_def)

lemma length_sge_dws [simp]: "length (concat (map sge_dws gs)) = 4 * length gs"
  by (induction gs) (simp_all add: sge_dws_def)

lemma fill_sges_Some:
  assumes "p + 4 * length (sges gs) \<le> length t"
  shows "\<exists>t'. fill_sges gs p n t = Some (n + of_nat (length (sges gs)), t')
     \<and> put_dws p (concat (map sge_dws (sges gs))) t = Some t'"
  using assms
proof (induction gs arbitrary: p n t)
  case Nil
  then show ?case by (simp add: put_dws_def)
next
  case (Cons g gs)
  show ?case
  proof (cases "sge_len g = 0")
    case True
    then show ?thesis using Cons by simp
  next
    case False
    let ?fs = "sges gs"
    let ?t1 = "take p t @ sge_dws g @ drop (p + 4) t"
    have l: "length (sge_dws g) = 4" by (simp add: sge_dws_def)
    have p1: "put_dws p (sge_dws g) t = Some ?t1" and len: "length ?t1 = length t"
      using Cons.prems False l by (simp_all add: put_dws_def)
    obtain t' where t': "fill_sges gs (p + 4) (n + 1) ?t1 = Some (n + 1 + of_nat (length ?fs), t')"
      "put_dws (p + 4) (concat (map sge_dws ?fs)) ?t1 = Some t'"
      using Cons.IH [of "p + 4" ?t1 "n + 1"] Cons.prems False len by (auto simp del: length_append)
    have "put_dws p (concat (map sge_dws (g # ?fs))) t = Some t'"
      using t'(2) Cons.prems False l len by (auto simp: put_dws_Some ac_simps)
    then show ?thesis using t'(1) p1 False by (simp add: algebra_simps)
  qed
qed

lemma fill_sges_overflow:
  assumes "length t < p + 4 * length (sges gs)" and "p \<le> length t"
  shows "fill_sges gs p n t = None"
  using assms
proof (induction gs arbitrary: p n t)
  case (Cons g gs)
  show ?case
  proof (cases "put_dws p (sge_dws g) t")
    case None
    then show ?thesis using Cons by auto
  next
    case (Some t1)
    then have "length t1 = length t" "p + 4 \<le> length t"
      by (auto dest: put_dws_props(1)) (auto simp: put_dws_Some sge_dws_def)
    then show ?thesis using Cons Some by auto
  qed
qed simp

text \<open>The members of the control segment of a request with \<open>n\<close> SGEs and remote side \<open>g\<close>.\<close>

definition sqe_ctl_ok :: "cdma_u_jetty_queue \<Rightarrow> dma_jfs_wr \<Rightarrow> u8 \<Rightarrow> dma_sge \<Rightarrow> u32 \<Rightarrow> u32 list \<Rightarrow> bool" where
  "sqe_ctl_ok sq wr opcode g n t \<longleftrightarrow> length t = 64
     \<and> ctl_get F_cqe t = ucast (fl_complete_enable (wr_flag wr))
     \<and> ctl_get F_owner t = (if q_pi sq AND baseblk_cnt sq = 0 then 1 else 0)
     \<and> ctl_get F_opcode t = ucast opcode \<and> ctl_get F_tpn t = take_bit 24 (wr_tpn wr)
     \<and> ctl_get F_place_odr t = ucast (fl_place_order (wr_flag wr))
     \<and> ctl_get F_fence t = ucast (fl_fence (wr_flag wr))
     \<and> ctl_get F_comp_order t = ucast (fl_comp_order (wr_flag wr))
     \<and> ctl_get F_se t = ucast (fl_solicited_enable (wr_flag wr))
     \<and> ctl_get F_inline_en t = 0 \<and> ctl_get F_rmt_eid0 t = wr_rmt_eid wr
     \<and> ctl_get F_sge_num t = take_bit 8 n \<and> ctl_get F_toid t = take_bit 20 (seg_tid (sge_seg g))
     \<and> ctl_get F_token_en t = of_bool (seg_token_value_valid (sge_seg g))
     \<and> ctl_get F_rmt_token_value t = seg_token_value (sge_seg g)
     \<and> ctl_get F_rmt_addr_l t = lo32 (sge_addr g) \<and> ctl_get F_rmt_addr_h t = hi32 (sge_addr g)"

lemma ucast1_mod [simp]: "(ucast (x :: 1 word) :: u32) mod 2 = ucast x"
proof -
  have "unat x < 2 ^ LENGTH(1)" by (rule unsigned_less)
  then show ?thesis by (simp add: word_unat_eq_iff unat_mod_distrib unat_ucast)
qed

lemma of_bool_mod [simp]: "(of_bool b :: u32) mod 2 = of_bool b"
  by (cases b) simp_all

lemma take_bit_ucast2 [simp]: "take_bit 2 (ucast (x :: 2 word) :: u32) = ucast x"
  by (rule bit_word_eqI) (auto simp: bit_simps dest: bit_imp_le_length)

lemma take_bit_ucast8 [simp]: "take_bit 8 (ucast (x :: u8) :: u32) = ucast x"
  by (rule bit_word_eqI) (auto simp: bit_simps dest: bit_imp_le_length)

lemma take_bit_32 [simp]: "take_bit 32 (x :: u32) = x"
  by (rule bit_word_eqI) (auto simp: bit_simps dest: bit_imp_le_length)

lemma length_sqe [simp]:
  "length (sqe_common sq wr opcode t) = length t" "length (set_rmt g t) = length t"
  by (simp_all add: sqe_common_def set_rmt_def)

lemma dws_sqe [simp]:
  assumes "12 \<le> p"
  shows "dws (sqe_common sq wr opcode t) p n = dws t p n" and "dws (set_rmt g t) p n = dws t p n"
  using assms by (simp_all add: sqe_common_def set_rmt_def)

text \<open>
  Whatever the fill functions store above the control segment, its members are those
  of \<open>sqe_ctl_ok\<close>.
\<close>

lemma sqe_ctl_okI:
  assumes "length t = 64" and "length t1 = 64" and "length t2 = 64"
    and "\<And>f. ctl_get f t1 = ctl_get f (sqe_common sq wr opcode t)"
    and "t2 = set_rmt g (ctl_set F_sge_num n t1)" 
  shows "sqe_ctl_ok sq wr opcode g n t2"
  using assms(1-4)
  by (simp add: sqe_ctl_ok_def assms(5) set_rmt_def sqe_common_def ctl_get_set field_defs)


lemma sqe_ctl_ok_cong:
  assumes "sqe_ctl_ok sq wr opcode g n t" and "length t' = length t"
    and "\<And>f. f \<noteq> F_target_hint \<Longrightarrow> ctl_get f t' = ctl_get f t"
  shows "sqe_ctl_ok sq wr opcode g n t'"
  using assms by (simp add: sqe_ctl_ok_def)

lemma put_dws_ex:
  assumes "p + length ws \<le> length t"
  obtains t' where "put_dws p ws t = Some t'"
  using assms by (auto simp: put_dws_def)

definition sge_base :: "u32 \<Rightarrow> nat" where
  "sge_base opcode = (if opcode = CDMA_WR_OPC_WRITE_NOTIFY then 20 else 12)"

lemma ctl_len_base:
  assumes "opcode = CDMA_WR_OPC_WRITE \<or> opcode = CDMA_WR_OPC_WRITE_NOTIFY \<or> opcode = CDMA_WR_OPC_READ"
  shows "unat (cdma_get_ctl_len (ucast opcode)) div 4 = sge_base opcode"
  using assms by (auto simp: cdma_get_ctl_len_def sge_base_def)

lemma sqe_write:
  assumes body: "wr_body wr = Wr_rw rw" and op: "wr_opcode wr = CDMA_WR_OPC_WRITE \<or> wr_opcode wr = CDMA_WR_OPC_WRITE_NOTIFY"
    and gs: "sg_entries (rw_src rw) = Some gs" and g: "sg_first (rw_dst rw) = Some g"
    and fit: "sge_base (wr_opcode wr) + 4 * length (sges gs) \<le> 64"
  shows "\<exists>t. cdma_set_sqe m (replicate 64 0) sq wr opcode = Some (0, t)
     \<and> sqe_ctl_ok sq wr opcode g (of_nat (length (sges gs))) t
     \<and> ctl_get F_target_hint t = ucast (rw_target_hint rw)
     \<and> dws t (sge_base (wr_opcode wr)) (4 * length (sges gs)) = concat (map sge_dws (sges gs))
     \<and> (wr_opcode wr = CDMA_WR_OPC_WRITE_NOTIFY \<longrightarrow>
          dws t 12 2 = [take_bit 20 (rw_notify_tokenid rw), rw_notify_tokenvalue rw]
          \<and> dws t 14 2 = [lo32 (rw_notify_addr rw), hi32 (rw_notify_addr rw)]
          \<and> dws t 16 2 = [lo32 (rw_notify_data rw), hi32 (rw_notify_data rw)])"
proof -
  let ?b = "sge_base (wr_opcode wr)" and ?n = "length (sges gs)"
  let ?c = "sqe_common sq wr opcode (replicate 64 0)"
  have b12: "12 \<le> ?b" by (simp add: sge_base_def)
  obtain t1 where t1: "fill_sges gs ?b 0 ?c = Some (of_nat ?n, t1)"
    "put_dws ?b (concat (map sge_dws (sges gs))) ?c = Some t1"
    using fill_sges_Some [of ?b gs ?c 0] fit by auto
  note p1 = put_dws_props [OF t1(2)]
  let ?t2 = "ctl_set F_target_hint (ucast (rw_target_hint rw)) (set_rmt g (ctl_set F_sge_num (of_nat ?n) t1))"
  have base: "unat (cdma_get_ctl_len (ucast (wr_opcode wr))) div 4 = ?b"
    using op by (intro ctl_len_base) auto
  have ok2: "sqe_ctl_ok sq wr opcode g (of_nat ?n) (set_rmt g (ctl_set F_sge_num (of_nat ?n) t1))"
    using p1(1,2) b12 by (intro sqe_ctl_okI [of "replicate 64 0" t1]) simp_all
  have l1: "length t1 = 64" using p1(1) by simp
  have hint2: "ctl_get F_target_hint ?t2 = ucast (rw_target_hint rw)"
    using l1 by (simp add: ctl_get_set field_defs)
  have sg2: "dws ?t2 ?b (4 * ?n) = concat (map sge_dws (sges gs))"
    using p1(3) b12 by simp
  have ok2': "sqe_ctl_ok sq wr opcode g (of_nat ?n) ?t2"
    using l1 by (intro sqe_ctl_ok_cong [OF ok2]) (simp_all add: ctl_get_set)
  note run = cdma_set_sqe_def cdma_fill_normal_sge_def cdma_u_fill_write_sqe_def wr_rw_def body
    cdma_fill_multi_sge_def gs base t1(1) g
  show ?thesis
  proof (cases "wr_opcode wr = CDMA_WR_OPC_WRITE_NOTIFY")
    case False
    then have "cdma_set_sqe m (replicate 64 0) sq wr opcode = Some (0, ?t2)"
      unfolding cdma_set_sqe_def cdma_fill_normal_sge_def Let_def if_P [OF op] by (simp add: run)
    then show ?thesis using ok2' hint2 sg2 False by blast
  next
    case True
    let ?w1 = "[take_bit 20 (rw_notify_tokenid rw), rw_notify_tokenvalue rw]"
    let ?w2 = "[lo32 (rw_notify_addr rw), hi32 (rw_notify_addr rw)]"
    let ?w3 = "[lo32 (rw_notify_data rw), hi32 (rw_notify_data rw)]"
    obtain t3 where t3: "put_dws 12 ?w1 ?t2 = Some t3" using put_dws_ex [of 12 ?w1 ?t2] l1 by auto
    obtain t4 where t4: "put_dws 14 ?w2 t3 = Some t4"
      using put_dws_ex [of 14 ?w2 t3] l1 put_dws_props(1) [OF t3] by auto
    obtain t5 where t5: "put_dws 16 ?w3 t4 = Some t5"
      using put_dws_ex [of 16 ?w3 t4] l1 put_dws_props(1) [OF t3] put_dws_props(1) [OF t4] by auto
    note p3 = put_dws_props [OF t3] and p4 = put_dws_props [OF t4] and p5 = put_dws_props [OF t5]
    have "unat (cdma_get_ctl_len 2) div 4 = sge_base 2" by (simp add: cdma_get_ctl_len_def sge_base_def)
    then have run': "cdma_set_sqe m (replicate 64 0) sq wr opcode = Some (0, t5)"
      using t3 t4 t5 True by (simp add: run t1(1) [unfolded True])
    have "ctl_get f t5 = ctl_get f ?t2" for f using p3(2) p4(2) p5(2) by simp
    moreover have "length t5 = length ?t2" using p3(1) p4(1) p5(1) by simp
    ultimately have "sqe_ctl_ok sq wr opcode g (of_nat ?n) t5"
      "ctl_get F_target_hint t5 = ucast (rw_target_hint rw)"
      using sqe_ctl_ok_cong [OF ok2', of t5] hint2 by simp_all
    moreover have "dws t5 ?b (4 * ?n) = concat (map sge_dws (sges gs))"
      using p3(5) [of 20] p4(5) [of 20] p5(5) [of 20] sg2 True by (simp add: sge_base_def)
    moreover have "dws t5 12 2 = ?w1" "dws t5 14 2 = ?w2" "dws t5 16 2 = ?w3"
      using p3(3) p4(3,4) p5(3,4) by (simp_all add: numeral_2_eq_2)
    ultimately show ?thesis using run' by blast
  qed
qed

lemma sqe_read:
  assumes body: "wr_body wr = Wr_rw rw" and op: "wr_opcode wr = CDMA_WR_OPC_READ"
    and gs: "sg_entries (rw_dst rw) = Some gs" and g: "sg_first (rw_src rw) = Some g"
    and fit: "12 + 4 * length (sges gs) \<le> 64"
  shows "\<exists>t. cdma_set_sqe m (replicate 64 0) sq wr opcode = Some (0, t)
     \<and> sqe_ctl_ok sq wr opcode g (of_nat (length (sges gs))) t
     \<and> dws t 12 (4 * length (sges gs)) = concat (map sge_dws (sges gs))"
proof -
  let ?n = "length (sges gs)"
  let ?c = "sqe_common sq wr opcode (replicate 64 0)"
  obtain t1 where t1: "fill_sges gs 12 0 ?c = Some (of_nat ?n, t1)"
    "put_dws 12 (concat (map sge_dws (sges gs))) ?c = Some t1"
    using fill_sges_Some [of 12 gs ?c 0] fit by auto
  note p1 = put_dws_props [OF t1(2)]
  let ?t2 = "set_rmt g (ctl_set F_sge_num (of_nat ?n) t1)"
  have "cdma_set_sqe m (replicate 64 0) sq wr opcode = Some (0, ?t2)"
    using op t1 by (simp add: cdma_set_sqe_def cdma_fill_normal_sge_def cdma_u_fill_read_sqe_def wr_rw_def body gs g)
  moreover have "sqe_ctl_ok sq wr opcode g (of_nat ?n) ?t2"
    using p1(1,2) by (intro sqe_ctl_okI [of "replicate 64 0" t1]) simp_all
  moreover have "dws ?t2 12 (4 * ?n) = concat (map sge_dws (sges gs))" using p1(3) by simp
  ultimately show ?thesis by blast
qed

lemma length_operand_dws:
  assumes "len = 4 \<or> len = 8 \<or> len = 16"
  shows "length (operand_dws m v len) = unat len div 4"
  using assms by (auto simp: operand_dws_def)

lemma sqe_cas:
  assumes body: "wr_body wr = Wr_cas c" and op: "wr_opcode wr = CDMA_WR_OPC_CAS"
  shows "if sge_len (cas_src c) \<in> {4, 8, 16}
     then \<exists>t. cdma_set_sqe m (replicate 64 0) sq wr opcode = Some (0, t)
       \<and> sqe_ctl_ok sq wr opcode (cas_dst c) 1 t \<and> dws t 12 4 = sge_dws (cas_src c)
       \<and> dws t 16 (unat (sge_len (cas_src c)) div 4) = operand_dws m (cas_swap c) (sge_len (cas_src c))
       \<and> dws t (16 + unat (sge_len (cas_src c)) div 4) (unat (sge_len (cas_src c)) div 4)
           = operand_dws m (cas_cmp c) (sge_len (cas_src c))
     else \<exists>t. cdma_set_sqe m (replicate 64 0) sq wr opcode = Some (- EINVAL, t)"
proof (cases "sge_len (cas_src c) \<in> {4, 8, 16}")
  case False
  then show ?thesis
    using body op by (auto simp: cdma_set_sqe_def cdma_fill_normal_sge_def cdma_u_fill_cas_sqe_def
        cdma_check_atomic_len_def Let_def)
next
  case True
  let ?len = "sge_len (cas_src c)" let ?k = "unat ?len div 4"
  let ?c = "sqe_common sq wr opcode (replicate 64 0)"
  let ?w1 = "operand_dws m (cas_swap c) ?len" and ?w2 = "operand_dws m (cas_cmp c) ?len"
  have k: "?k \<le> 4" "(64 + unat ?len) div 4 = 16 + ?k" using True by auto
  have lw: "length ?w1 = ?k" "length ?w2 = ?k" using True by (simp_all add: length_operand_dws)
  have ls: "length (sge_dws (cas_src c)) = 4" by (simp add: sge_dws_def)
  obtain t1 where t1: "put_dws 12 (sge_dws (cas_src c)) ?c = Some t1"
    using put_dws_ex [of 12 "sge_dws (cas_src c)" ?c] ls by auto
  note p1 = put_dws_props [OF t1]
  let ?t2 = "set_rmt (cas_dst c) (ctl_set F_sge_num 1 t1)"
  have l2: "length ?t2 = 64" using p1(1) by simp
  obtain t3 where t3: "put_dws 16 ?w1 ?t2 = Some t3"
    using put_dws_ex [of 16 ?w1 ?t2] l2 lw k by auto
  note p3 = put_dws_props [OF t3]
  obtain t4 where t4: "put_dws (16 + ?k) ?w2 t3 = Some t4"
    using put_dws_ex [of "16 + ?k" ?w2 t3] l2 lw k p3(1) by auto
  note p4 = put_dws_props [OF t4]
  have run: "cdma_set_sqe m (replicate 64 0) sq wr opcode = Some (0, t4)"
    using True op t1 t3 t4 k(2)
    by (auto simp: cdma_set_sqe_def cdma_fill_normal_sge_def cdma_u_fill_cas_sqe_def body
        cdma_check_atomic_len_def Let_def)
  have ok2: "sqe_ctl_ok sq wr opcode (cas_dst c) 1 ?t2"
    using p1(1,2) by (intro sqe_ctl_okI [of "replicate 64 0" t1]) simp_all
  have "sqe_ctl_ok sq wr opcode (cas_dst c) 1 t4"
    using p3(1,2) p4(1,2) by (intro sqe_ctl_ok_cong [OF ok2]) simp_all
  moreover have "dws t4 12 4 = sge_dws (cas_src c)"
    using p1(3) p3(4) [of 12 4] p4(4) [of 12 4] ls by simp
  moreover have "dws t4 16 ?k = ?w1" using p3(3) p4(4) [of 16 ?k] lw by simp
  moreover have "dws t4 (16 + ?k) ?k = ?w2" using p4(3) lw by simp
  ultimately show ?thesis using True run by auto
qed

lemma sqe_faa:
  assumes body: "wr_body wr = Wr_faa c" and op: "wr_opcode wr = CDMA_WR_OPC_FADD"
  shows "if sge_len (faa_src c) \<in> {4, 8}
     then \<exists>t. cdma_set_sqe m (replicate 64 0) sq wr opcode = Some (0, t)
       \<and> sqe_ctl_ok sq wr opcode (faa_dst c) 1 t \<and> dws t 12 4 = sge_dws (faa_src c)
       \<and> dws t 16 (unat (sge_len (faa_src c)) div 4) = operand_dws m (faa_operand c) (sge_len (faa_src c))
     else \<exists>t. cdma_set_sqe m (replicate 64 0) sq wr opcode = Some (- EINVAL, t)"
proof (cases "sge_len (faa_src c) \<in> {4, 8}")
  case False
  then show ?thesis
    using body op by (auto simp: cdma_set_sqe_def cdma_fill_normal_sge_def cdma_u_fill_faa_sqe_def
        cdma_check_atomic_len_def Let_def)
next
  case True
  let ?len = "sge_len (faa_src c)" let ?k = "unat ?len div 4"
  let ?c = "sqe_common sq wr opcode (replicate 64 0)"
  let ?w1 = "operand_dws m (faa_operand c) ?len"
  have k: "?k \<le> 4" using True by auto
  have lw: "length ?w1 = ?k" using True by (auto intro: length_operand_dws)
  have ls: "length (sge_dws (faa_src c)) = 4" by (simp add: sge_dws_def)
  obtain t1 where t1: "put_dws 12 (sge_dws (faa_src c)) ?c = Some t1"
    using put_dws_ex [of 12 "sge_dws (faa_src c)" ?c] ls by auto
  note p1 = put_dws_props [OF t1]
  let ?t2 = "set_rmt (faa_dst c) (ctl_set F_sge_num 1 t1)"
  have l2: "length ?t2 = 64" using p1(1) by simp
  obtain t3 where t3: "put_dws 16 ?w1 ?t2 = Some t3"
    using put_dws_ex [of 16 ?w1 ?t2] l2 lw k by auto
  note p3 = put_dws_props [OF t3]
  have run: "cdma_set_sqe m (replicate 64 0) sq wr opcode = Some (0, t3)"
    using True op t1 t3
    by (auto simp: cdma_set_sqe_def cdma_fill_normal_sge_def cdma_u_fill_faa_sqe_def body
        cdma_check_atomic_len_def Let_def)
  have ok2: "sqe_ctl_ok sq wr opcode (faa_dst c) 1 ?t2"
    using p1(1,2) by (intro sqe_ctl_okI [of "replicate 64 0" t1]) simp_all
  have "sqe_ctl_ok sq wr opcode (faa_dst c) 1 t3"
    using p3(1,2) by (intro sqe_ctl_ok_cong [OF ok2]) simp_all
  moreover have "dws t3 12 4 = sge_dws (faa_src c)" using p1(3) p3(4) [of 12 4] ls by simp
  moreover have "dws t3 16 ?k = ?w1" using p3(3) lw by simp
  ultimately show ?thesis using True run by auto
qed


section \<open>Size and room\<close>

lemma cal_wqebb_num:
  assumes "unat n \<le> 255" and "L = 48 \<or> L = 80"
  shows "unat (cdma_sq_cal_wqebb_num L n 64) = (unat L + 16 * unat n - 16) div 64 + 1"
proof -
  have n16: "unat (n * 16) = 16 * unat n" using assms(1) by (simp add: unat_word_ariths)
  have e: "L + (n - 1) * 16 = (L - 16) + n * 16" by (simp add: algebra_simps)
  have "unat (L + (n - 1) * 16) = unat L + 16 * unat n - 16"
    unfolding e using assms by (auto simp: unat_add_u32_le n16)
  then have "unat ((L + (n - 1) * 16) div 64) = (unat L + 16 * unat n - 16) div 64"
    by (simp add: unat_div_distrib)
  moreover have "(unat L + 16 * unat n - 16) div 64 + 1 < 4294967296" using assms by auto
  ultimately show ?thesis by (simp add: cdma_sq_cal_wqebb_num_def unat_add_u32_le)
qed

lemma sge_num_le: "unat (ctl_get F_sge_num t) \<le> 255"
proof -
  have "ctl_get F_sge_num t = take_bit 8 (drop_bit 24 (t ! 2))" by (simp add: ctl_get_def field_defs)
  then have "unat (ctl_get F_sge_num t) = take_bit 8 (unat (drop_bit 24 (t ! 2)))"
    by (simp only: unsigned_take_bit_eq)
  moreover have "take_bit 8 (unat (drop_bit 24 (t ! 2))) < 2 ^ 8" by (rule take_bit_nat_less_exp)
  ultimately show ?thesis by simp
qed

lemma div64_bounds:
  fixes x :: nat
  assumes "16 dvd x" and "16 \<le> x"
  shows "64 * ((x - 16) div 64) < x" and "x \<le> 64 * ((x - 16) div 64 + 1)"
proof -
  obtain y where y: "x = 16 * y" using assms(1) by (rule dvdE)
  then obtain z where z: "x = 16 * z + 16" using assms(2) by (cases y) auto
  define w m where "w = z div 4" and "m = z mod 4"
  have zwm: "z = 4 * w + m" by (simp add: w_def m_def)
  have m: "m < 4" by (simp add: m_def)
  have d: "(x - 16) div 64 = w" using z by (simp add: w_def)
  show "64 * ((x - 16) div 64) < x" unfolding d z zwm by simp
  show "x \<le> 64 * ((x - 16) div 64 + 1)" unfolding d z zwm using m by simp
qed


section \<open>Properties\<close>

text \<open>
  C24: the element built for a WRITE or a WRITE WITH NOTIFY whose non-empty SGEs fit in the
  four WQEBBs: the members of the control segment (owner bit, opcode, flags, remote token and
  address, number of SGEs) come from the request, the SGEs of non-zero length follow in order
  at byte 48, or at byte 80 behind the notification's token, address and data.
\<close>

theorem sqe_write_layout:
  assumes "wr_body wr = Wr_rw rw" and "wr_opcode wr = CDMA_WR_OPC_WRITE \<or> wr_opcode wr = CDMA_WR_OPC_WRITE_NOTIFY"
    and "sg_entries (rw_src rw) = Some gs" and "sg_first (rw_dst rw) = Some g"
    and "sge_base (wr_opcode wr) + 4 * length (sges gs) \<le> 64"
  shows "\<exists>t. cdma_set_sqe m (replicate 64 0) sq wr opcode = Some (0, t)
     \<and> sqe_ctl_ok sq wr opcode g (of_nat (length (sges gs))) t
     \<and> ctl_get F_target_hint t = ucast (rw_target_hint rw)
     \<and> dws t (sge_base (wr_opcode wr)) (4 * length (sges gs)) = concat (map sge_dws (sges gs))
     \<and> (wr_opcode wr = CDMA_WR_OPC_WRITE_NOTIFY \<longrightarrow>
          dws t 12 2 = [take_bit 20 (rw_notify_tokenid rw), rw_notify_tokenvalue rw]
          \<and> dws t 14 2 = [lo32 (rw_notify_addr rw), hi32 (rw_notify_addr rw)]
          \<and> dws t 16 2 = [lo32 (rw_notify_data rw), hi32 (rw_notify_data rw)])"
  by (rule sqe_write [OF assms])

text \<open>Example requests.\<close>

definition demo_sge :: "u64 \<Rightarrow> u32 \<Rightarrow> dma_sge" where
  "demo_sge a n = \<lparr>sge_addr = a, sge_len = n, sge_seg = zero_seg\<lparr>seg_sva := a, seg_tid := 0x12345\<rparr>\<rparr>"

definition demo_flag :: dma_jfs_wr_flag where
  "demo_flag = \<lparr>fl_place_order = 0, fl_comp_order = 0, fl_fence = 0, fl_solicited_enable = 0,
     fl_complete_enable = 1, fl_inline_flag = 0\<rparr>"

definition demo_rw :: "u32 \<Rightarrow> dma_sge list \<Rightarrow> dma_sge list \<Rightarrow> dma_jfs_wr" where
  "demo_rw opcode src dst = \<lparr>wr_opcode = opcode, wr_flag = demo_flag, wr_user_ctx = 0x77, wr_tpn = 5, wr_rmt_eid = 6,
     wr_body = Wr_rw \<lparr>rw_src = \<lparr>sg_sge = src, sg_num_sge = of_nat (length src)\<rparr>,
       rw_dst = \<lparr>sg_sge = dst, sg_num_sge = of_nat (length dst)\<rparr>, rw_target_hint = 0,
       rw_notify_data = 0x1122334455667788, rw_notify_addr = 0x4000, rw_notify_tokenid = 9,
       rw_notify_tokenvalue = 10\<rparr>\<rparr>"

definition demo_cas :: "u32 \<Rightarrow> dma_jfs_wr" where
  "demo_cas len = \<lparr>wr_opcode = CDMA_WR_OPC_CAS, wr_flag = demo_flag, wr_user_ctx = 0x78, wr_tpn = 5, wr_rmt_eid = 6,
     wr_body = Wr_cas \<lparr>cas_dst = demo_sge 0x9000 len, cas_src = demo_sge 0x1000 len,
       cas_cmp = 0x1111111122222222, cas_swap = 0x3333333344444444\<rparr>\<rparr>"

definition demo_faa :: "u32 \<Rightarrow> dma_jfs_wr" where
  "demo_faa len = \<lparr>wr_opcode = CDMA_WR_OPC_FADD, wr_flag = demo_flag, wr_user_ctx = 0x79, wr_tpn = 5, wr_rmt_eid = 6,
     wr_body = Wr_faa \<lparr>faa_dst = demo_sge 0x9000 len, faa_src = demo_sge 0x1000 len, faa_operand = 3\<rparr>\<rparr>"

lemmas demo_wr_defs = demo_sge_def demo_rw_def demo_cas_def demo_faa_def sg_entries_def sg_first_def

lemma sqe_write_layout_witness:
  "\<exists>t. cdma_set_sqe (\<lambda>_. 0) (replicate 64 0) zero_jetty_queue
      (demo_rw CDMA_WR_OPC_WRITE_NOTIFY [demo_sge 0x1000 0, demo_sge 0x100002000 4] [demo_sge 0x9000 4])
      CDMA_OPCODE_WRITE_WITH_NOTIFY = Some (0, t)
    \<and> dws t 20 4 = [4, 0x12345, 0x2000, 1] \<and> dws t 16 2 = [0x55667788, 0x11223344]
    \<and> ctl_get F_sge_num t = 1 \<and> ctl_get F_opcode t = 5"
proof -
  let ?wr = "demo_rw CDMA_WR_OPC_WRITE_NOTIFY [demo_sge 0x1000 0, demo_sge 0x100002000 4] [demo_sge 0x9000 4]"
  have "\<exists>rw. wr_body ?wr = Wr_rw rw \<and> sg_entries (rw_src rw) = Some [demo_sge 0x1000 0, demo_sge 0x100002000 4]
      \<and> sg_first (rw_dst rw) = Some (demo_sge 0x9000 4) \<and> rw_notify_data rw = 0x1122334455667788"
    by (simp add: demo_wr_defs)
  moreover have "sges [demo_sge 0x1000 0, demo_sge 0x100002000 4] = [demo_sge 0x100002000 4]"
    by (simp add: demo_sge_def)
  moreover have "wr_opcode ?wr = CDMA_WR_OPC_WRITE_NOTIFY" by (simp add: demo_rw_def)
  moreover have "sge_dws (demo_sge 0x100002000 4) = [4, 0x12345, 0x2000, 1]" by code_simp
  moreover have "lo32 0x1122334455667788 = 0x55667788" "hi32 0x1122334455667788 = 0x11223344" by code_simp+
  ultimately show ?thesis
    using sqe_write_layout [of ?wr _ "[demo_sge 0x1000 0, demo_sge 0x100002000 4]" "demo_sge 0x9000 4"
        "\<lambda>_. 0" zero_jetty_queue CDMA_OPCODE_WRITE_WITH_NOTIFY]
    by (fastforce simp: sge_base_def sqe_ctl_ok_def)
qed

text \<open>
  C25: the element built for a READ whose non-empty local SGEs fit: the control segment with
  the remote side taken from the source, the local SGEs of non-zero length at byte 48.
\<close>

theorem sqe_read_layout:
  assumes "wr_body wr = Wr_rw rw" and "wr_opcode wr = CDMA_WR_OPC_READ"
    and "sg_entries (rw_dst rw) = Some gs" and "sg_first (rw_src rw) = Some g"
    and "12 + 4 * length (sges gs) \<le> 64"
  shows "\<exists>t. cdma_set_sqe m (replicate 64 0) sq wr opcode = Some (0, t)
     \<and> sqe_ctl_ok sq wr opcode g (of_nat (length (sges gs))) t
     \<and> dws t 12 (4 * length (sges gs)) = concat (map sge_dws (sges gs))"
  by (rule sqe_read [OF assms])

lemma sqe_read_layout_witness:
  "\<exists>t. cdma_set_sqe (\<lambda>_. 0) (replicate 64 0) zero_jetty_queue
      (demo_rw CDMA_WR_OPC_READ [demo_sge 0x9000 4] [demo_sge 0x100002000 4]) CDMA_OPCODE_READ = Some (0, t)
    \<and> dws t 12 4 = sge_dws (demo_sge 0x100002000 4)"
  using sqe_read_layout [of "demo_rw CDMA_WR_OPC_READ [demo_sge 0x9000 4] [demo_sge 0x100002000 4]" _
      "[demo_sge 0x100002000 4]" "demo_sge 0x9000 4" "\<lambda>_. 0" zero_jetty_queue CDMA_OPCODE_READ]
  by (fastforce simp: demo_wr_defs)

text \<open>
  C26: a compare-and-swap is refused with \<open>-EINVAL\<close> unless its local SGE is 4, 8 or 16 bytes
  long; otherwise the element has the SGE at byte 48, the swap operand at byte 64 and the
  compare operand right behind it, up to 8 bytes the operands themselves, for 16 bytes
  what they point to.
\<close>

theorem sqe_cas_layout:
  assumes "wr_body wr = Wr_cas c" and "wr_opcode wr = CDMA_WR_OPC_CAS"
  shows "if sge_len (cas_src c) \<in> {4, 8, 16}
     then \<exists>t. cdma_set_sqe m (replicate 64 0) sq wr opcode = Some (0, t)
       \<and> sqe_ctl_ok sq wr opcode (cas_dst c) 1 t \<and> dws t 12 4 = sge_dws (cas_src c)
       \<and> dws t 16 (unat (sge_len (cas_src c)) div 4) = operand_dws m (cas_swap c) (sge_len (cas_src c))
       \<and> dws t (16 + unat (sge_len (cas_src c)) div 4) (unat (sge_len (cas_src c)) div 4)
           = operand_dws m (cas_cmp c) (sge_len (cas_src c))
     else \<exists>t. cdma_set_sqe m (replicate 64 0) sq wr opcode = Some (- EINVAL, t)"
  by (rule sqe_cas [OF assms])

lemma sqe_cas_layout_witness:
  "(\<exists>t. cdma_set_sqe (\<lambda>_. 0) (replicate 64 0) zero_jetty_queue (demo_cas 8) CDMA_OPCODE_CAS = Some (0, t)
      \<and> dws t 16 2 = [0x44444444, 0x33333333] \<and> dws t 18 2 = [0x22222222, 0x11111111])
   \<and> (\<exists>t. cdma_set_sqe (\<lambda>_. 0) (replicate 64 0) zero_jetty_queue (demo_cas 12) CDMA_OPCODE_CAS = Some (- EINVAL, t))"
proof -
  have "operand_dws (\<lambda>_. 0) 0x3333333344444444 8 = [0x44444444, 0x33333333]"
    "operand_dws (\<lambda>_. 0) 0x1111111122222222 8 = [0x22222222, 0x11111111]" by code_simp+
  then show ?thesis
    using sqe_cas_layout [of "demo_cas 8" _ "\<lambda>_. 0" zero_jetty_queue CDMA_OPCODE_CAS]
      sqe_cas_layout [of "demo_cas 12" _ "\<lambda>_. 0" zero_jetty_queue CDMA_OPCODE_CAS]
    by (fastforce simp: demo_wr_defs)
qed

text \<open>
  C27: a fetch-and-add is refused with \<open>-EINVAL\<close> unless its local SGE is 4 or 8 bytes long;
  otherwise the element has the SGE at byte 48 and the operand at byte 64.
\<close>

theorem sqe_faa_layout:
  assumes "wr_body wr = Wr_faa c" and "wr_opcode wr = CDMA_WR_OPC_FADD"
  shows "if sge_len (faa_src c) \<in> {4, 8}
     then \<exists>t. cdma_set_sqe m (replicate 64 0) sq wr opcode = Some (0, t)
       \<and> sqe_ctl_ok sq wr opcode (faa_dst c) 1 t \<and> dws t 12 4 = sge_dws (faa_src c)
       \<and> dws t 16 (unat (sge_len (faa_src c)) div 4) = operand_dws m (faa_operand c) (sge_len (faa_src c))
     else \<exists>t. cdma_set_sqe m (replicate 64 0) sq wr opcode = Some (- EINVAL, t)"
  by (rule sqe_faa [OF assms])

lemma sqe_faa_layout_witness:
  "\<exists>t. cdma_set_sqe (\<lambda>_. 0) (replicate 64 0) zero_jetty_queue (demo_faa 8) CDMA_OPCODE_FAA = Some (0, t)
      \<and> dws t 16 2 = [3, 0]"
proof -
  have "operand_dws (\<lambda>_. 0) 3 8 = [3, 0]" by code_simp
  then show ?thesis
    using sqe_faa_layout [of "demo_faa 8" _ "\<lambda>_. 0" zero_jetty_queue CDMA_OPCODE_FAA]
    by (fastforce simp: demo_wr_defs)
qed

text \<open>
  C28: the number of WQEBBs posted is the element's length in 64-byte blocks, rounded up: the
  control segment (48 bytes, 80 with a notification) and 16 bytes per SGE, and for an atomic
  request 2 blocks.
\<close>

theorem sqe_wqebb_cnt:
  "if wr_opcode wr \<in> {CDMA_WR_OPC_WRITE, CDMA_WR_OPC_WRITE_NOTIFY, CDMA_WR_OPC_READ}
   then let len = 4 * sge_base (wr_opcode wr) + 16 * unat (ctl_get F_sge_num t) in
     64 * (unat (cdma_get_wqebb_cnt wr t) - 1) < len \<and> len \<le> 64 * unat (cdma_get_wqebb_cnt wr t)
   else wr_opcode wr \<in> {CDMA_WR_OPC_CAS, CDMA_WR_OPC_FADD} \<longrightarrow> cdma_get_wqebb_cnt wr t = 2"
proof (cases "wr_opcode wr \<in> {CDMA_WR_OPC_WRITE, CDMA_WR_OPC_WRITE_NOTIFY, CDMA_WR_OPC_READ}")
  case True
  let ?n = "ctl_get F_sge_num t" let ?L = "cdma_get_ctl_len (ucast (wr_opcode wr))"
  let ?len = "unat ?L + 16 * unat ?n"
  have L: "?L = 48 \<or> ?L = 80" by (simp add: cdma_get_ctl_len_def)
  have b: "4 * sge_base (wr_opcode wr) = unat ?L"
    using True by (auto simp: sge_base_def cdma_get_ctl_len_def)
  have "cdma_get_normal_sge_num (ucast (wr_opcode wr)) t = ?n"
    using True by (auto simp: cdma_get_normal_sge_num_def)
  then have "unat (cdma_get_wqebb_cnt wr t) = (?len - 16) div 64 + 1"
    using cal_wqebb_num [OF sge_num_le L] by (simp add: cdma_get_wqebb_cnt_def)
  moreover have "16 dvd ?len" "16 \<le> ?len" using L by auto
  ultimately show ?thesis using div64_bounds [of ?len] True b by (simp add: Let_def)
next
  case False
  have "cdma_sq_cal_wqebb_num 48 2 64 = 2" by code_simp
  then show ?thesis using False
    by (auto simp: cdma_get_wqebb_cnt_def cdma_get_ctl_len_def cdma_get_normal_sge_num_def)
qed

lemma sqe_wqebb_cnt_witness:
  "64 * (unat (cdma_get_wqebb_cnt (demo_rw CDMA_WR_OPC_READ [] []) (ctl_set F_sge_num 6 (replicate 64 0))) - 1) < 144
   \<and> 144 \<le> 64 * unat (cdma_get_wqebb_cnt (demo_rw CDMA_WR_OPC_READ [] []) (ctl_set F_sge_num 6 (replicate 64 0)))"
  using sqe_wqebb_cnt [of "demo_rw CDMA_WR_OPC_READ [] []" "ctl_set F_sge_num 6 (replicate 64 0)"]
  by (simp add: demo_rw_def sge_base_def ctl_get_set field_defs Let_def)

text \<open>
  A request whose pointers are good: the counts do not exceed the arrays and the remote side
  has an SGE.
\<close>

definition wr_wf :: "dma_jfs_wr \<Rightarrow> bool" where
  "wr_wf wr = (case wr_body wr of
     Wr_rw rw \<Rightarrow> wr_opcode wr \<in> {CDMA_WR_OPC_WRITE, CDMA_WR_OPC_WRITE_NOTIFY, CDMA_WR_OPC_READ}
       \<and> unat (sg_num_sge (rw_src rw)) \<le> length (sg_sge (rw_src rw))
       \<and> unat (sg_num_sge (rw_dst rw)) \<le> length (sg_sge (rw_dst rw))
       \<and> sg_sge (rw_src rw) \<noteq> [] \<and> sg_sge (rw_dst rw) \<noteq> []
   | Wr_cas _ \<Rightarrow> wr_opcode wr = CDMA_WR_OPC_CAS
   | Wr_faa _ \<Rightarrow> wr_opcode wr = CDMA_WR_OPC_FADD)"

lemma sges_entries:
  assumes "unat (sg_num_sge sg) \<le> length (sg_sge sg)"
  shows "\<exists>gs. sg_entries sg = Some gs \<and> length (sges gs) \<le> unat (sg_num_sge sg)"
proof -
  have "length (sges (take n xs)) \<le> n" for n xs
    unfolding sges_def by (rule order_trans [OF length_filter_le]) simp
  then show ?thesis using assms by (simp add: sg_entries_def)
qed

text \<open>
  C29: when the check of the number of SGEs passes and the queue allows at most 13 SGEs, a good
  request is built (or refused with \<open>-EINVAL\<close>) without a store outside the four WQEBBs.
\<close>

theorem sqe_no_overflow:
  assumes wf: "wr_wf wr" and max: "q_max_sge_num sq \<le> 13"
    and chk: "cdma_check_sge_num (cdma_parse_jfs_opcode (wr_opcode wr)) sq wr = Some False"
  shows "\<exists>r t. cdma_set_sqe m (replicate 64 0) sq wr (cdma_parse_jfs_opcode (wr_opcode wr)) = Some (r, t)"
proof (cases "wr_body wr")
  case (Wr_rw rw)
  let ?op = "cdma_parse_jfs_opcode (wr_opcode wr)"
  have op: "wr_opcode wr = CDMA_WR_OPC_WRITE \<or> wr_opcode wr = CDMA_WR_OPC_WRITE_NOTIFY \<or> wr_opcode wr = CDMA_WR_OPC_READ"
    and src: "unat (sg_num_sge (rw_src rw)) \<le> length (sg_sge (rw_src rw))"
    and dst: "unat (sg_num_sge (rw_dst rw)) \<le> length (sg_sge (rw_dst rw))"
    and ne: "sg_sge (rw_src rw) \<noteq> []" "sg_sge (rw_dst rw) \<noteq> []"
    using wf by (auto simp: wr_wf_def Wr_rw)
  have first: "sg_first (rw_src rw) = Some (hd (sg_sge (rw_src rw)))" "sg_first (rw_dst rw) = Some (hd (sg_sge (rw_dst rw)))"
    using ne by (simp_all add: sg_first_def)
  obtain gs where gs: "sg_entries (rw_src rw) = Some gs" "length (sges gs) \<le> unat (sg_num_sge (rw_src rw))"
    using sges_entries [OF src] by blast
  obtain gd where gd: "sg_entries (rw_dst rw) = Some gd" "length (sges gd) \<le> unat (sg_num_sge (rw_dst rw))"
    using sges_entries [OF dst] by blast
  have max': "unat (q_max_sge_num sq) \<le> 13" using max by (simp add: word_le_nat_alt)
  consider "wr_opcode wr = CDMA_WR_OPC_READ" | "wr_opcode wr = CDMA_WR_OPC_WRITE" | "wr_opcode wr = CDMA_WR_OPC_WRITE_NOTIFY"
    using op by blast
  then show ?thesis
  proof cases
    case 1
    then have "unat (sg_num_sge (rw_dst rw)) \<le> 6"
      using chk by (simp add: cdma_check_sge_num_def cdma_parse_jfs_opcode_def wr_rw_def Wr_rw not_less word_le_nat_alt)
    then show ?thesis using sqe_read [OF Wr_rw 1 gd(1) first(1), of m sq ?op] gd(2) by auto
  next
    case 2
    then have "unat (sg_num_sge (rw_src rw)) \<le> 13"
      using chk max' by (simp add: cdma_check_sge_num_def cdma_parse_jfs_opcode_def wr_rw_def Wr_rw not_less word_le_nat_alt)
    then show ?thesis
      using sqe_write [OF Wr_rw disjI1 [OF 2] gs(1) first(2), of m sq ?op] gs(2) 2 by (auto simp: sge_base_def)
  next
    case 3
    then have "unat (sg_num_sge (rw_src rw)) \<le> 11"
      using chk by (simp add: cdma_check_sge_num_def cdma_parse_jfs_opcode_def wr_rw_def Wr_rw not_less word_le_nat_alt)
    then show ?thesis
      using sqe_write [OF Wr_rw disjI2 [OF 3] gs(1) first(2), of m sq ?op] gs(2) 3 by (auto simp: sge_base_def)
  qed
next
  case (Wr_cas c)
  then have "wr_opcode wr = CDMA_WR_OPC_CAS" using wf by (simp add: wr_wf_def)
  from sqe_cas [OF Wr_cas this, of m sq "cdma_parse_jfs_opcode (wr_opcode wr)"] show ?thesis by (cases "sge_len (cas_src c) \<in> {4, 8, 16}") auto
next
  case (Wr_faa c)
  then have "wr_opcode wr = CDMA_WR_OPC_FADD" using wf by (simp add: wr_wf_def)
  from sqe_faa [OF Wr_faa this, of m sq "cdma_parse_jfs_opcode (wr_opcode wr)"] show ?thesis by (cases "sge_len (faa_src c) \<in> {4, 8}") auto
qed

lemma sqe_no_overflow_witness:
  "\<exists>r t. cdma_set_sqe (\<lambda>_. 0) (replicate 64 0) (zero_jetty_queue\<lparr>q_max_sge_num := 13\<rparr>)
     (demo_rw CDMA_WR_OPC_WRITE (replicate 13 (demo_sge 0x1000 4)) [demo_sge 0x9000 4]) 3 = Some (r, t)"
  using sqe_no_overflow [of "demo_rw CDMA_WR_OPC_WRITE (replicate 13 (demo_sge 0x1000 4)) [demo_sge 0x9000 4]"
      "zero_jetty_queue\<lparr>q_max_sge_num := 13\<rparr>" "\<lambda>_. 0"]
  by (simp add: demo_rw_def wr_wf_def cdma_parse_jfs_opcode_def cdma_check_sge_num_def wr_rw_def)

text \<open>
  C30: there is no such bound for a plain WRITE on a queue that allows more: a request with more
  than 13 non-empty SGEs, up to the queue's maximum, passes the check and its fourteenth SGE is
  stored behind the end of the four WQEBBs.
\<close>

theorem sqe_write_overflow:
  assumes body: "wr_body wr = Wr_rw rw" and op: "wr_opcode wr = CDMA_WR_OPC_WRITE"
    and gs: "sg_entries (rw_src rw) = Some gs" and many: "13 < length (sges gs)"
    and max: "sg_num_sge (rw_src rw) \<le> q_max_sge_num sq"
  shows "cdma_check_sge_num (cdma_parse_jfs_opcode (wr_opcode wr)) sq wr = Some False
     \<and> cdma_set_sqe m (replicate 64 0) sq wr (cdma_parse_jfs_opcode (wr_opcode wr)) = None"
proof
  show "cdma_check_sge_num (cdma_parse_jfs_opcode (wr_opcode wr)) sq wr = Some False"
    using op max by (simp add: cdma_check_sge_num_def cdma_parse_jfs_opcode_def wr_rw_def body not_less)
  have "fill_sges gs 12 0 (sqe_common sq wr 3 (replicate 64 0)) = None"
    using many by (intro fill_sges_overflow) simp_all
  then show "cdma_set_sqe m (replicate 64 0) sq wr (cdma_parse_jfs_opcode (wr_opcode wr)) = None"
    using op by (simp add: cdma_parse_jfs_opcode_def cdma_set_sqe_def cdma_fill_normal_sge_def
        cdma_u_fill_write_sqe_def wr_rw_def body cdma_fill_multi_sge_def gs cdma_get_ctl_len_def)
qed

lemma sqe_write_overflow_witness:
  "cdma_set_sqe (\<lambda>_. 0) (replicate 64 0) (zero_jetty_queue\<lparr>q_max_sge_num := 14\<rparr>)
     (demo_rw CDMA_WR_OPC_WRITE (replicate 14 (demo_sge 0x1000 4)) [demo_sge 0x9000 4]) 3 = None"
proof -
  let ?wr = "demo_rw CDMA_WR_OPC_WRITE (replicate 14 (demo_sge 0x1000 4)) [demo_sge 0x9000 4]"
  have "\<exists>rw. wr_body ?wr = Wr_rw rw \<and> sg_entries (rw_src rw) = Some (replicate 14 (demo_sge 0x1000 4))
      \<and> sg_num_sge (rw_src rw) = 14"
    by (simp add: demo_rw_def sg_entries_def)
  moreover have "length (sges (replicate 14 (demo_sge 0x1000 4))) = 14" by (simp add: sges_def demo_sge_def)
  moreover have "wr_opcode ?wr = CDMA_WR_OPC_WRITE" by (simp add: demo_rw_def)
  moreover have "cdma_parse_jfs_opcode 0 = 3" by code_simp
  ultimately show ?thesis
    using sqe_write_overflow [of ?wr _ "replicate 14 (demo_sge 0x1000 4)" "zero_jetty_queue\<lparr>q_max_sge_num := 14\<rparr>" "\<lambda>_. 0"]
    by auto
qed

end
