(* ===== verification/Cdma_Common.thy ===== *)
theory Cdma_Common
  imports Cdma_Types
begin

text \<open>
  The pure helpers of \<open>cdma_u_common.h\<close> (rounding to powers of two, alignment, the
  \<open>mmap\<close> offset that tells the kernel which page to map, the wrap-around of a ring
  pointer) and the ring geometry that \<open>cdma_u_alloc_queue_buf\<close> of
  \<open>cdma_u_common.c\<close> derives from a depth and an entry size. \<open>__builtin_clzl\<close>,
  which gcc provides, counts the zero bits above the highest set bit.
\<close>

unbundle bit_operations_syntax

definition clz64 :: "u64 \<Rightarrow> nat" where
  "clz64 v = length (takeWhile (\<lambda>i. \<not> bit v i) (rev [0..<64]))"

definition ilog64 :: "u64 \<Rightarrow> nat" where
  "ilog64 v = (if v = 0 then 0 else 64 - clz64 v)"

definition roundup_pow_of_two :: "u64 \<Rightarrow> u64 option" where
  "roundup_pow_of_two n =
     (if n = 1 then Some 1
      else (let k = ilog64 (n - 1) in if k < 64 then Some (push_bit k 1) else None))"

definition align :: "u64 \<Rightarrow> u64 \<Rightarrow> u64" where
  "align val a = (val + a - 1) AND NOT (a - 1)"

function align_power2_loop :: "u32 \<Rightarrow> nat \<Rightarrow> nat option" where
  "align_power2_loop n res =
     (if 32 \<le> res then None
      else if push_bit res 1 < n then align_power2_loop n (Suc res)
      else Some res)"
  by pat_completeness auto
termination
  by (relation "measure (\<lambda>(n, res). 32 - res)") auto

declare align_power2_loop.simps [simp del]

definition align_power2 :: "u32 \<Rightarrow> nat option" where
  "align_power2 n = align_power2_loop n 0"


lemma highest_bit:
  fixes v :: "'a::len word"
  assumes "v \<noteq> 0"
  obtains h where "h < LENGTH('a)" and "bit v h" and "\<forall>i>h. \<not> bit v i"
proof -
  let ?S = "{i. bit v i}"
  have sub: "?S \<subseteq> {..<LENGTH('a)}" by (auto dest: bit_imp_le_length)
  then have fin: "finite ?S" by (rule finite_subset) simp
  have ne: "?S \<noteq> {}" using assms by (auto simp: bit_eq_iff)
  have "Max ?S \<in> ?S" using fin ne by (rule Max_in)
  moreover have "\<forall>i>Max ?S. \<not> bit v i"
    using fin by (metis Max_ge mem_Collect_eq linorder_not_less)
  ultimately show ?thesis using that sub by blast
qed

lemma unat_between_bit:
  fixes v :: "'a::len word"
  assumes h: "bit v h" and top: "\<forall>i>h. \<not> bit v i"
  shows "2 ^ h \<le> unat v" and "unat v < 2 ^ Suc h"
proof -
  have eq: "take_bit (Suc h) v = v"
    using top by (auto simp: bit_eq_iff bit_take_bit_iff not_less_eq)
  have "unat v = take_bit (Suc h) (unat v)"
    by (metis eq unsigned_take_bit_eq)
  then show "unat v < 2 ^ Suc h"
    by (metis take_bit_nat_less_exp)
  have "bit (unat v) h" using h by (simp add: bit_unsigned_iff)
  then show "2 ^ h \<le> unat v"
    by (metis bit_iff_odd div_less even_zero not_le)
qed

lemma clz64_highest:
  assumes h: "bit v h" and top: "\<forall>i>h. \<not> bit v i"
  shows "clz64 v = 63 - h"
proof -
  have hl: "h < 64" using h bit_imp_le_length by fastforce
  have split: "rev [0..<64] = rev [Suc h..<64] @ h # rev [0..<h]"
  proof -
    have "[0..<64] = [0..<h] @ h # [Suc h..<64]"
      using hl by (metis upt_conv_Cons less_imp_le_nat upt_add_eq_append le_add_diff_inverse zero_le)
    then show ?thesis by simp
  qed
  have "takeWhile (\<lambda>i. \<not> bit v i) (rev [0..<64]) = rev [Suc h..<64]"
    unfolding split using h top by (simp add: takeWhile_append2 takeWhile_tail)
  then show ?thesis using hl by (simp add: clz64_def)
qed

lemma ilog64_bounds:
  assumes "v \<noteq> 0"
  shows "0 < ilog64 v" and "ilog64 v \<le> 64" and "2 ^ (ilog64 v - 1) \<le> unat v"
    and "unat v < 2 ^ ilog64 v"
proof -
  obtain h where h: "h < 64" "bit v h" "\<forall>i>h. \<not> bit v i"
    using highest_bit [OF assms] by auto
  then have eq: "ilog64 v = Suc h"
    using assms by (simp add: ilog64_def clz64_highest)
  show "0 < ilog64 v" "ilog64 v \<le> 64" "2 ^ (ilog64 v - 1) \<le> unat v" "unat v < 2 ^ ilog64 v"
    using eq h unat_between_bit [OF h(2,3)] by simp_all
qed


lemma roundup_pow_of_two_spec:
  assumes "n \<noteq> 0" and "unat n \<le> 2 ^ 63"
  shows "\<exists>k<64. roundup_pow_of_two n = Some (2 ^ k) \<and> unat n \<le> 2 ^ k \<and> 2 ^ k < 2 * unat n"
proof (cases "n = 1")
  case True
  then show ?thesis by (intro exI [of _ 0]) (simp add: roundup_pow_of_two_def)
next
  case False
  then have nz: "n - 1 \<noteq> 0" by simp
  have un: "unat (n - 1) = unat n - 1"
    using assms(1) by (simp add: unat_minus_one)
  let ?k = "ilog64 (n - 1)"
  note b = ilog64_bounds [OF nz]
  have "(2 :: nat) ^ (?k - 1) < 2 ^ 63"
    using b(3) un assms by simp
  then have "?k - 1 < 63" by (rule power_less_imp_less_exp [rotated]) simp
  then have k: "?k < 64" using b(1) by simp
  have "unat n \<le> 2 ^ ?k" using b(4) un by simp
  moreover have "2 ^ ?k < 2 * unat n"
  proof -
    have "(2 :: nat) ^ ?k = 2 * 2 ^ (?k - 1)"
      using b(1) by (metis Suc_diff_1 power_Suc)
    moreover have "2 ^ (?k - 1) < unat n"
      using b(3) un assms(1) unat_gt_0 [of n] by linarith
    ultimately show ?thesis by simp
  qed
  moreover have "roundup_pow_of_two n = Some (2 ^ ?k)"
    using False k by (simp add: roundup_pow_of_two_def Let_def push_bit_eq_mult)
  ultimately show ?thesis using k by blast
qed

lemma align_power2_loop_spec:
  assumes "unat n \<le> 2 ^ 31" and "r \<le> 31" and "\<forall>j<r. 2 ^ j < unat n"
  shows "\<exists>k\<le>31. align_power2_loop n r = Some k \<and> unat n \<le> 2 ^ k \<and> (\<forall>j<k. 2 ^ j < unat n)"
  using assms
proof (induction n r rule: align_power2_loop.induct)
  case (1 n r)
  show ?case
  proof (cases "push_bit r 1 < n")
    case True
    then have lt: "2 ^ r < unat n"
      using 1(3) by (simp add: word_less_nat_alt)
    then have "(2 :: nat) ^ r < 2 ^ 31" using 1(2) by linarith
    then have "r < 31" by (rule power_less_imp_less_exp [rotated]) simp
    moreover have "\<forall>j<Suc r. 2 ^ j < unat n"
      using 1(4) lt less_Suc_eq by auto
    ultimately have "\<exists>k\<le>31. align_power2_loop n (Suc r) = Some k \<and> unat n \<le> 2 ^ k \<and> (\<forall>j<k. 2 ^ j < unat n)"
      using 1(1) [of ] True 1(2) by simp
    then show ?thesis
      using True \<open>r < 31\<close> by (simp add: align_power2_loop.simps [of n r])
  next
    case False
    then have "unat n \<le> 2 ^ r"
      using 1(3) by (simp add: word_less_nat_alt)
    then show ?thesis
      using False 1(3,4) by (simp add: align_power2_loop.simps [of n r])
  qed
qed

lemma align_power2_spec:
  assumes "unat n \<le> 2 ^ 31"
  shows "\<exists>k\<le>31. align_power2 n = Some k \<and> unat n \<le> 2 ^ k \<and> (\<forall>j<k. 2 ^ j < unat n)"
  unfolding align_power2_def using align_power2_loop_spec [OF assms, of 0] by simp

lemma align_power2_pow2:
  assumes "k \<le> 31"
  shows "align_power2 (2 ^ k) = Some k"
proof -
  have un: "unat (2 ^ k :: u32) = 2 ^ k" using assms by simp
  then have "unat (2 ^ k :: u32) \<le> 2 ^ 31" using pow2_le_31 [OF assms] by simp
  from align_power2_spec [OF this] obtain r where
    r: "align_power2 (2 ^ k) = Some r" "(2::nat) ^ k \<le> 2 ^ r" "\<forall>j<r. (2::nat) ^ j < 2 ^ k"
    using un by auto
  have "k \<le> r" using r(2) by (simp add: power_increasing_iff)
  moreover have "\<not> k < r" using r(3) by blast
  ultimately show ?thesis using r(1) by simp
qed

lemma align_power2_loop_undefined:
  assumes "2 ^ 31 < unat n"
  shows "align_power2_loop n r = None"
  using assms
proof (induction n r rule: align_power2_loop.induct)
  case (1 n r)
  show ?case
  proof (cases "32 \<le> r")
    case True
    then show ?thesis by (simp add: align_power2_loop.simps [of n r])
  next
    case False
    then have "(2 :: nat) ^ r < unat n"
      by (intro le_less_trans [OF pow2_le_31]) (use 1(2) in auto)
    then have lt: "push_bit r 1 < n" using False by (simp add: word_less_nat_alt)
    then have "align_power2_loop n (Suc r) = None" using 1 False by simp
    then show ?thesis using False lt by (simp add: align_power2_loop.simps [of n r])
  qed
qed

lemma align_spec:
  assumes k: "k < 64" and v: "unat v + 2 ^ k \<le> 2 ^ 64"
  shows "unat (align v (2 ^ k)) = (unat v + 2 ^ k - 1) div 2 ^ k * 2 ^ k"
proof -
  have m: "(2 ^ k :: u64) - 1 = mask k" by (simp add: mask_eq_exp_minus_1)
  have u: "unat (mask k :: u64) = 2 ^ k - 1"
    using k by (simp add: m [symmetric] unat_minus_one)
  have "unat v + unat (mask k :: u64) < 18446744073709551616"
    using v u by simp
  then have "unat (v + mask k) = unat v + (2 ^ k - 1)"
    using u unat_add_u64_le [of v "mask k"] by simp
  moreover have "v + 2 ^ k - 1 = v + mask k" using m by (metis add_diff_eq)
  ultimately have "unat (v + 2 ^ k - 1) = unat v + (2 ^ k - 1)"
    by (simp only:)
  then show ?thesis by (simp add: align_def m unat_and_not_mask)
qed


definition cdma_u_queue_geometry ::
  "cdma_u_jetty_queue \<Rightarrow> u32 \<Rightarrow> u32 \<Rightarrow> u32 \<Rightarrow> cdma_u_jetty_queue option" where
  "cdma_u_queue_geometry q max_cnt entry_size page_size = do {
     r_cnt \<leftarrow> roundup_pow_of_two (ucast max_cnt);
     let entry_cnt = (ucast r_cnt :: u32);
     r_buf \<leftarrow> roundup_pow_of_two (ucast (entry_cnt * entry_size));
     buf_shift \<leftarrow> align_power2 (ucast r_buf);
     r_entry \<leftarrow> roundup_pow_of_two (ucast entry_size);
     blk_shift \<leftarrow> align_power2 (ucast r_entry);
     let size = (ucast (align (ucast (push_bit buf_shift (1 :: u32))) (ucast page_size)) :: u32);
     let cnt = drop_bit blk_shift size;
     Some (q\<lparr>baseblk_shift := of_nat blk_shift, qbuf_size := size, baseblk_cnt := cnt,
             baseblk_mask := cnt - 1\<rparr>)
   }"

lemma roundup_align_pow2:
  assumes "n \<noteq> 0" and "unat n \<le> 2 ^ 31"
  shows "\<exists>k\<le>31. roundup_pow_of_two n = Some (2 ^ k) \<and> align_power2 (ucast (2 ^ k :: u64)) = Some k
           \<and> unat n \<le> 2 ^ k \<and> 2 ^ k < 2 * unat n"
proof -
  have "unat n \<le> 2 ^ 63" using assms(2) by simp
  from roundup_pow_of_two_spec [OF assms(1) this] obtain k where
    k: "k < 64" "roundup_pow_of_two n = Some (2 ^ k)" "unat n \<le> 2 ^ k" "2 ^ k < 2 * unat n"
    by blast
  have "(2 :: nat) ^ k < 2 ^ 32" using k(4) assms(2) by simp
  then have k31: "k \<le> 31"
    using power_less_imp_less_exp [of "2 :: nat" k 32] by simp
  have "unat (ucast (2 ^ k :: u64) :: u32) = 2 ^ k"
    using k31 pow2_le_31 [OF k31] by (simp add: unat_ucast)
  then have "(ucast (2 ^ k :: u64) :: u32) = 2 ^ k"
    using k31 by (simp add: word_unat_eq_iff)
  then show ?thesis using k k31 align_power2_pow2 [OF k31] by auto
qed

lemma div_pow2_mult_eq:
  assumes "b \<le> p"
  shows "(2 ^ b + 2 ^ p - 1) div 2 ^ p * 2 ^ p = (2 ^ p :: nat)"
proof -
  have "2 ^ b \<le> (2 ^ p :: nat)" using assms by (simp add: power_increasing)
  then have "(2 ^ b - 1) div 2 ^ p = (0 :: nat)"
    by (intro div_less) (simp add: less_eq_Suc_le)
  moreover have "2 ^ b + 2 ^ p - 1 = 2 ^ p + (2 ^ b - 1 :: nat)" by simp
  moreover have "(2 ^ p + (2 ^ b - 1)) div 2 ^ p = (2 ^ b - 1) div 2 ^ p + (1 :: nat)"
    by (rule div_add_self1) simp
  ultimately show ?thesis by (simp only: add_0 mult_1)
qed


lemma ucast_pow2: "k \<le> 31 \<Longrightarrow> (ucast (2 ^ k :: u32) :: u64) = 2 ^ k"
  by (simp add: word_unat_eq_iff)

lemma align_pow2_pow2:
  assumes b: "b \<le> 31" and p: "p \<le> 31"
  shows "align (2 ^ b) (2 ^ p) = 2 ^ max b p"
proof -
  have "(2 :: nat) ^ b + 2 ^ p \<le> 2 ^ 64"
    using pow2_le_31 [OF b] pow2_le_31 [OF p] by simp
  then have eq: "unat (align (2 ^ b) (2 ^ p)) = (2 ^ b + 2 ^ p - 1) div 2 ^ p * 2 ^ p"
    using align_spec [of p "2 ^ b"] b p by simp
  have "(2 ^ b + 2 ^ p - 1) div 2 ^ p * 2 ^ p = (2 ^ max b p :: nat)"
  proof (cases "b \<le> p")
    case True
    then show ?thesis using div_pow2_mult_eq [OF True] by (simp add: max_def)
  next
    case False
    then have pb: "p \<le> b" by simp
    then have "2 ^ b = 2 ^ (b - p) * (2 ^ p :: nat)"
      by (simp add: power_add [symmetric])
    moreover have "2 ^ b + 2 ^ p - 1 = (2 ^ p - 1) + (2 ^ b :: nat)" by simp
    moreover have "((2 ^ p - 1) + 2 ^ (b - p) * 2 ^ p) div 2 ^ p
        = 2 ^ (b - p) + (2 ^ p - 1) div (2 ^ p :: nat)"
      by (rule div_mult_self1) simp
    ultimately have "(2 ^ b + 2 ^ p - 1) div 2 ^ p = (2 ^ (b - p) :: nat)"
      by simp
    then show ?thesis using pb False by (simp add: max_def power_add [symmetric])
  qed
  then have "unat (align (2 ^ b) (2 ^ p)) = unat (2 ^ max b p :: u64)"
    using eq b p by simp
  then show ?thesis by (simp add: word_unat_eq_iff)
qed

definition pow2_geometry ::
  "nat \<Rightarrow> nat \<Rightarrow> cdma_u_jetty_queue \<Rightarrow> cdma_u_jetty_queue" where
  "pow2_geometry c sh q = q\<lparr>baseblk_shift := of_nat sh, qbuf_size := 2 ^ (c + sh),
     baseblk_cnt := 2 ^ c, baseblk_mask := 2 ^ c - 1\<rparr>"

lemma queue_geometry_spec:
  assumes max: "max_cnt \<noteq> 0" and entry: "entry_size \<noteq> 0"
    and fits: "2 * unat max_cnt * unat entry_size \<le> 2 ^ 31" and p: "p \<le> 31"
  shows "\<exists>c sh. cdma_u_queue_geometry q max_cnt entry_size (2 ^ p) = Some (pow2_geometry c sh q)
           \<and> unat max_cnt \<le> 2 ^ c \<and> unat entry_size \<le> 2 ^ sh \<and> 2 ^ sh < 2 * unat entry_size
           \<and> p \<le> c + sh \<and> c + sh \<le> 31 \<and> (max p (c + sh) = p \<or> 2 ^ c < 2 * unat max_cnt)"
proof -
  have ne: "0 < unat max_cnt" "0 < unat entry_size"
    using max entry by (simp_all add: unat_gt_0)
  have me: "unat max_cnt * 1 \<le> unat max_cnt * unat entry_size"
    using ne(2) by (intro mult_le_mono) auto
  have em: "1 * unat entry_size \<le> unat max_cnt * unat entry_size"
    using ne(1) by (intro mult_le_mono) auto
  have "(ucast max_cnt :: u64) \<noteq> 0" "(ucast entry_size :: u64) \<noteq> 0"
    using ne by (simp_all add: unat_gt_0 [symmetric])
  moreover have "unat max_cnt \<le> 2 ^ 31" "unat entry_size \<le> 2 ^ 31" using me em fits by linarith+
  ultimately obtain m s where
    m: "m \<le> 31" "roundup_pow_of_two (ucast max_cnt) = Some (2 ^ m)" "unat max_cnt \<le> 2 ^ m"
       "2 ^ m < 2 * unat max_cnt" and
    s: "s \<le> 31" "roundup_pow_of_two (ucast entry_size) = Some (2 ^ s)"
       "align_power2 (ucast (2 ^ s :: u64)) = Some s" "unat entry_size \<le> 2 ^ s"
       "2 ^ s < 2 * unat entry_size"
    using roundup_align_pow2 [of "ucast max_cnt"] roundup_align_pow2 [of "ucast entry_size"]
    by auto
  have prod: "2 ^ m * unat entry_size \<le> 2 ^ 31"
    by (rule order_trans [OF mult_le_mono1 [OF less_imp_le [OF m(4)]] fits])
  let ?ec = "ucast (2 ^ m :: u64) :: u32"
  have ec: "unat ?ec = 2 ^ m" using m(1) pow2_le_31 [OF m(1)] by (simp add: unat_ucast)
  have ece: "unat (?ec * entry_size) = 2 ^ m * unat entry_size"
    using prod ec by (simp add: unat_word_ariths)
  then have "(ucast (?ec * entry_size) :: u64) \<noteq> 0"
    using ne(2) by (simp add: unat_gt_0 [symmetric])
  then obtain b where
    b: "b \<le> 31" "roundup_pow_of_two (ucast (?ec * entry_size)) = Some (2 ^ b)"
       "align_power2 (ucast (2 ^ b :: u64)) = Some b" "2 ^ m * unat entry_size \<le> 2 ^ b"
       "2 ^ b < 2 * (2 ^ m * unat entry_size)"
    using roundup_align_pow2 [of "ucast (?ec * entry_size)"] ece prod by auto
  have ms: "2 ^ (m + s) < 2 * (2 ^ m * unat entry_size)" "2 ^ m * unat entry_size \<le> 2 ^ (m + s)"
    using s(4,5) by (simp_all add: power_add)
  have "(2 :: nat) ^ b < 2 ^ Suc (m + s)" "(2 :: nat) ^ (m + s) < 2 ^ Suc b"
    using ms b(4,5) by simp_all
  then have "b < Suc (m + s)" "m + s < Suc b"
    using power_less_imp_less_exp [of "2 :: nat" b "Suc (m + s)"]
      power_less_imp_less_exp [of "2 :: nat" "m + s" "Suc b"] by (simp_all del: power_Suc)
  then have bms: "b = m + s" by simp
  let ?k = "max b p"
  have k: "?k \<le> 31" "s \<le> ?k" using b(1) p bms by auto
  have size: "(ucast (align (ucast (push_bit b (1 :: u32))) (ucast (2 ^ p :: u32))) :: u32) = 2 ^ ?k"
    using align_pow2_pow2 [OF b(1) p] b(1) p k(1) pow2_le_31 [OF k(1)]
    by (simp add: ucast_pow2 word_unat_eq_iff [of "ucast _"] unat_ucast)
  have cnt: "drop_bit s (2 ^ ?k :: u32) = 2 ^ (?k - s)"
    using k by (simp only: word_unat_eq_iff unat_drop_bit unat_pow2_u32) (simp add: power_diff)
  have "cdma_u_queue_geometry q max_cnt entry_size (2 ^ p) = Some (pow2_geometry (?k - s) s q)"
    using m(2) b(2,3) s(2,3) size cnt k(2)
    by (simp add: cdma_u_queue_geometry_def pow2_geometry_def Let_def)
  moreover have "unat max_cnt \<le> 2 ^ (?k - s)"
  proof -
    have "m \<le> ?k - s" using bms by (auto simp: max_def)
    then have "(2 :: nat) ^ m \<le> 2 ^ (?k - s)" by (simp add: power_increasing)
    then show ?thesis using m(3) by linarith
  qed
  ultimately show ?thesis
    using s(4,5) k bms m(4) by (intro exI [of _ "?k - s"] exI [of _ s]) (auto simp: max_def)
qed


definition cdma_mmap_set_command :: "u32 \<Rightarrow> u64 \<Rightarrow> u64" where
  "cdma_mmap_set_command command offset =
     (let offset_u = (ucast offset :: u32) OR (command AND MAP_COMMAND_MASK) in ucast offset_u)"

definition cdma_mmap_set_index :: "u64 \<Rightarrow> u64 \<Rightarrow> u64" where
  "cdma_mmap_set_index index offset = offset OR push_bit MAP_INDEX_SHIFT (index AND MAP_INDEX_MASK)"

definition get_mmap_offset :: "u32 \<Rightarrow> u32 \<Rightarrow> u32 \<Rightarrow> u64" where
  "get_mmap_offset idx page_size cmd =
     cdma_mmap_set_index (ucast idx) (cdma_mmap_set_command cmd 0) * scast page_size"

definition cdma_update_ptr :: "ptr \<Rightarrow> u32 \<Rightarrow> ptr \<Rightarrow> ptr \<Rightarrow> ptr" where
  "cdma_update_ptr p inc buf buf_end =
     (if p + ucast inc < buf_end then p + ucast inc else buf + (p + ucast inc - buf_end))"


lemma mmap_page_offset:
  "cdma_mmap_set_index (ucast (idx :: u32)) (cdma_mmap_set_command cmd 0)
     = ucast (cmd AND MAP_COMMAND_MASK) OR push_bit 8 (ucast idx AND mask 24)"
  by (simp add: cdma_mmap_set_index_def cdma_mmap_set_command_def Let_def mask_numeral)

lemma mmap_page_offset_fields:
  fixes idx cmd :: u32
  defines "off \<equiv> cdma_mmap_set_index (ucast idx) (cdma_mmap_set_command cmd 0)"
  shows "take_bit 8 off = take_bit 8 (ucast cmd)" and "drop_bit 8 off = take_bit 24 (ucast idx)"
    and "unat off < 2 ^ 32"
proof -
  have m: "(MAP_COMMAND_MASK :: u32) = mask 8" by (simp add: mask_numeral)
  show "take_bit 8 off = take_bit 8 (ucast cmd)"
    unfolding off_def mmap_page_offset m
    by (rule bit_word_eqI) (auto simp: bit_simps)
  show "drop_bit 8 off = take_bit 24 (ucast idx)"
    unfolding off_def mmap_page_offset m
    by (rule bit_word_eqI) (auto simp: bit_simps)
  have "off = take_bit 32 off"
    unfolding off_def mmap_page_offset m
    by (rule bit_word_eqI) (auto simp: bit_simps)
  then have "unat off = take_bit 32 (unat off)"
    by (metis unsigned_take_bit_eq)
  then show "unat off < 2 ^ 32" by (metis take_bit_nat_less_exp)
qed


lemma mmap_offset_roundtrip:
  assumes p: "p \<le> 30"
  shows "drop_bit p (get_mmap_offset idx (2 ^ p) cmd)
           = cdma_mmap_set_index (ucast idx) (cdma_mmap_set_command cmd 0)"
proof -
  let ?off = "cdma_mmap_set_index (ucast idx) (cdma_mmap_set_command cmd 0)"
  have "(scast (2 ^ p :: u32) :: u64) = 2 ^ p"
    using p by (intro bit_word_eqI) (auto simp: bit_simps bit_exp_iff)
  then have "get_mmap_offset idx (2 ^ p) cmd = push_bit p ?off"
    by (simp add: get_mmap_offset_def push_bit_eq_mult)
  moreover have "unat ?off * 2 ^ p < 2 ^ LENGTH(64)"
  proof -
    have "unat ?off * 2 ^ p < 2 ^ 32 * 2 ^ p"
      using mmap_page_offset_fields(3) by simp
    also have "\<dots> \<le> 2 ^ 32 * (2 ^ 30 :: nat)"
      using p by (intro mult_le_mono power_increasing) auto
    finally show ?thesis by simp
  qed
  then have "unat (push_bit p ?off) = unat ?off * 2 ^ p" by (rule unat_push_bit)
  ultimately have "unat (drop_bit p (get_mmap_offset idx (2 ^ p) cmd)) = unat ?off"
    by (simp only: unat_drop_bit) simp
  then show ?thesis by (simp add: word_unat_eq_iff)
qed


section \<open>Properties\<close>

text \<open>
  C35: for a depth and an entry size whose product fits (twice over) in 2^31 bytes, the ring
  geometry is defined (no shift by 32 or more, the \<open>align_power2\<close> loops end): the ring has
  \<open>2 ^ c\<close> slots of \<open>2 ^ sh\<close> bytes, at least the depth asked for and less than twice as many
  unless the page size forces more, a slot holds an entry and less than two, the mask is one
  less than the number of slots, and the buffer is the slots' size, at least a page, below
  2^32.
\<close>

theorem ring_geometry:
  assumes "max_cnt \<noteq> 0" and "entry_size \<noteq> 0"
    and "2 * unat max_cnt * unat entry_size \<le> 2 ^ 31" and "p \<le> 31"
  shows "\<exists>c sh q'. cdma_u_queue_geometry q max_cnt entry_size (2 ^ p) = Some q'
     \<and> unat (baseblk_cnt q') = 2 ^ c \<and> unat (baseblk_shift q') = sh
     \<and> unat (baseblk_mask q') = 2 ^ c - 1 \<and> unat (qbuf_size q') = 2 ^ c * 2 ^ sh
     \<and> 2 ^ p \<le> unat (qbuf_size q') \<and> unat max_cnt \<le> 2 ^ c
     \<and> unat entry_size \<le> 2 ^ sh \<and> 2 ^ sh < 2 * unat entry_size
     \<and> (unat (qbuf_size q') = 2 ^ p \<or> 2 ^ c < 2 * unat max_cnt)"
proof -
  obtain c sh where g: "cdma_u_queue_geometry q max_cnt entry_size (2 ^ p) = Some (pow2_geometry c sh q)"
    and b: "unat max_cnt \<le> 2 ^ c" "unat entry_size \<le> 2 ^ sh" "2 ^ sh < 2 * unat entry_size"
      "p \<le> c + sh" "c + sh \<le> 31" "max p (c + sh) = p \<or> 2 ^ c < 2 * unat max_cnt"
    using queue_geometry_spec [OF assms, of q] by blast
  let ?q = "pow2_geometry c sh q"
  have nz: "(2 :: u32) ^ c \<noteq> 0" using b(5) by (simp add: word_unat_eq_iff)
  have "sh \<le> 31" "c \<le> 31" using b(5) by simp_all
  then have "unat (of_nat sh :: u32) = sh" using unat_of_nat [of sh, where 'a = 32] by simp
  moreover have "unat (2 ^ c - 1 :: u32) = 2 ^ c - 1"
    using nz \<open>c \<le> 31\<close> by (simp add: unat_minus_one)
  moreover have "unat (2 ^ (c + sh) :: u32) = 2 ^ c * 2 ^ sh"
    using b(5) by (simp only: unat_pow2_u32 power_add [symmetric])
  moreover have "(2 :: nat) ^ p \<le> 2 ^ c * 2 ^ sh"
    using b(4) by (simp add: power_add [symmetric] power_increasing)
  moreover have "2 ^ c * 2 ^ sh = (2 :: nat) ^ p \<or> 2 ^ c < 2 * unat max_cnt"
    using b(4,6) by (auto simp: power_add [symmetric] max_def split: if_splits)
  ultimately show ?thesis
    using g b(1-3) \<open>c \<le> 31\<close>
    by (intro exI [of _ c] exI [of _ sh] exI [of _ ?q]) (simp add: pow2_geometry_def)
qed

lemma ring_geometry_witness:
  "\<exists>c sh q'. cdma_u_queue_geometry zero_jetty_queue 100 64 (2 ^ 12) = Some q'
     \<and> unat (baseblk_cnt q') = 2 ^ c \<and> 100 \<le> (2 :: nat) ^ c \<and> unat (baseblk_shift q') = sh"
  using ring_geometry [of 100 64 12 zero_jetty_queue] by auto

text \<open>
  The kernel recovers what the library asked for from an \<open>mmap\<close> offset: for a page size
  \<open>2 ^ p\<close> up to 1G the page number of the offset (the offset divided by the page size) has
  the command in its low 8 bits and the low 24 bits of the index above them.
\<close>

lemma mmap_offset_decodes:
  assumes "p \<le> 30"
  shows "take_bit 8 (drop_bit p (get_mmap_offset idx (2 ^ p) cmd)) = take_bit 8 (ucast cmd)
    \<and> drop_bit 8 (drop_bit p (get_mmap_offset idx (2 ^ p) cmd)) = take_bit 24 (ucast idx)"
  unfolding mmap_offset_roundtrip [OF assms]
  by (rule conjI [OF mmap_page_offset_fields(1,2)])

end
