(* ===== verification/Cdma_Queue_Buf.thy ===== *)
theory Cdma_Queue_Buf
  imports Cdma_Common Cdma_Env
begin

text \<open>
  \<open>cdma_u_common.c\<close>: the buffers of a ring. \<open>queue_buf_res\<close> names what a ring owns; the
  lemmas say that allocation acquires exactly that or, on failure, nothing, and that
  freeing gives it back.
\<close>

definition cdma_u_alloc_buf :: "env \<Rightarrow> u32 \<Rightarrow> st \<Rightarrow> ptr \<times> st" where
  "cdma_u_alloc_buf E buf_size s =
     (let (buf, s1) = sys_mmap_anon E buf_size s in
      if buf = MAP_FAILED then (NULL, s1)
      else (let (ret, s2) = sys_madvise E buf buf_size s1 in
            if ret \<noteq> 0 then (NULL, sys_munmap buf buf_size s2)
            else (buf, s2)))"

definition cdma_u_free_buf :: "ptr \<Rightarrow> u32 \<Rightarrow> st \<Rightarrow> st" where
  "cdma_u_free_buf buf buf_size s = sys_munmap buf buf_size s"

definition cdma_u_alloc_queue_buf ::
  "env \<Rightarrow> cdma_u_jetty_queue \<Rightarrow> u32 \<Rightarrow> u32 \<Rightarrow> u32 \<Rightarrow> bool \<Rightarrow> st
     \<Rightarrow> (int \<times> cdma_u_jetty_queue \<times> st) option" where
  "cdma_u_alloc_queue_buf E q max_cnt entry_size page_size wrid_en s = do {
     q1 \<leftarrow> cdma_u_queue_geometry q max_cnt entry_size page_size;
     let (wrid, s1) = (if wrid_en then sys_alloc E ObjWrid s else (q_wrid q1, s));
     let q2 = q1\<lparr>q_wrid := wrid\<rparr>;
     if wrid_en \<and> wrid = NULL then Some (- ENOMEM, q2, s1)
     else do {
       let (buf, s2) = cdma_u_alloc_buf E (qbuf_size q2) s1;
       let q3 = q2\<lparr>qbuf := buf\<rparr>;
       if buf = NULL
       then (if wrid_en then Some (- ENOMEM, q3\<lparr>q_wrid := NULL\<rparr>, sys_free wrid s2)
             else Some (- ENOMEM, q3, s2))
       else Some (0, q3\<lparr>qbuf_curr := buf\<rparr>, s2)
     }
   }"

definition cdma_u_free_queue_buf ::
  "cdma_u_jetty_queue \<Rightarrow> st \<Rightarrow> cdma_u_jetty_queue \<times> st" where
  "cdma_u_free_queue_buf q s =
     (let (q1, s1) = (if qbuf q \<noteq> NULL
                      then (q\<lparr>qbuf := NULL\<rparr>, cdma_u_free_buf (qbuf q) (qbuf_size q) s) else (q, s))
      in if q_wrid q1 \<noteq> NULL then (q1\<lparr>q_wrid := NULL\<rparr>, sys_free (q_wrid q1) s1) else (q1, s1))"

lemma cdma_u_alloc_buf_live:
  assumes "cdma_u_alloc_buf E n s = (p, s')" and "mmap_ok E"
  shows "live s' = live s + (if p = NULL then {#} else {#RMap p n#})"
  using assms by (auto simp: cdma_u_alloc_buf_def sys_defs mmap_ok_def Let_def live_simps split: if_splits)

definition queue_buf_res :: "cdma_u_jetty_queue \<Rightarrow> resource multiset" where
  "queue_buf_res q = (if qbuf q = NULL then {#} else {#RMap (qbuf q) (qbuf_size q)#})
     + (if q_wrid q = NULL then {#} else {#RMem (q_wrid q)#})"

lemma cdma_u_alloc_queue_buf_live:
  assumes "cdma_u_alloc_queue_buf E q n es ps en s = Some (r, q', s')" and "mmap_ok E"
    and "q_wrid q = NULL"
  shows "if r = 0 then live s' = live s + queue_buf_res q' \<and> qbuf q' \<noteq> NULL \<and> qbuf_curr q' = qbuf q'
         else live s' = live s"
proof -
  obtain q1 where q1: "cdma_u_queue_geometry q n es ps = Some q1"
    using assms(1) by (auto simp: cdma_u_alloc_queue_buf_def bind_eq_Some_conv)
  have w1: "q_wrid q1 = q_wrid q"
    using q1 by (auto simp: cdma_u_queue_geometry_def Let_def bind_eq_Some_conv)
  show ?thesis
  proof (cases "cdma_u_alloc_buf E (qbuf_size q1) (if en then snd (sys_alloc E ObjWrid s) else s)")
    case (Pair p s2)
    note live2 = cdma_u_alloc_buf_live [OF Pair assms(2)]
    show ?thesis
      using assms(1,3) q1 w1 Pair live2
      by (auto simp: cdma_u_alloc_queue_buf_def sys_alloc_def sys_free_def live_simps Let_def queue_buf_res_def split: if_splits prod.splits)
  qed
qed

lemma cdma_u_free_queue_buf_live:
  "live (snd (cdma_u_free_queue_buf q s)) = live s - queue_buf_res q"
  by (auto simp: cdma_u_free_queue_buf_def cdma_u_free_buf_def sys_defs live_simps queue_buf_res_def Let_def)

lemma alloc_queue_buf_cases:
  assumes "cdma_u_alloc_queue_buf E q n es ps en s = Some (0, q', s')"
  obtains g wrid buf where "cdma_u_queue_geometry q n es ps = Some g" and "q' = g\<lparr>q_wrid := wrid, qbuf := buf, qbuf_curr := buf\<rparr>"
    and "buf \<noteq> NULL" and "buf = e_mmap_anon E (if en then EvAlloc ObjWrid wrid # tr s else tr s) (qbuf_size g)" and "buf \<noteq> MAP_FAILED"
    and "wrid = (if en then e_alloc E (tr s) ObjWrid else q_wrid q)" and "en \<Longrightarrow> wrid \<noteq> NULL"
proof -
  obtain g where g: "cdma_u_queue_geometry q n es ps = Some g"
    using assms by (auto simp: cdma_u_alloc_queue_buf_def bind_eq_Some_conv)
  then have w: "q_wrid g = q_wrid q" by (auto simp: cdma_u_queue_geometry_def Let_def bind_eq_Some_conv)
  let ?w = "if en then e_alloc E (tr s) ObjWrid else q_wrid q"
  let ?b = "e_mmap_anon E (if en then EvAlloc ObjWrid ?w # tr s else tr s) (qbuf_size g)"
  have "q' = g\<lparr>q_wrid := ?w, qbuf := ?b, qbuf_curr := ?b\<rparr> \<and> ?b \<noteq> NULL \<and> ?b \<noteq> MAP_FAILED \<and> (en \<longrightarrow> ?w \<noteq> NULL)"
    using assms g w
    by (cases en; auto simp: cdma_u_alloc_queue_buf_def cdma_u_alloc_buf_def sys_alloc_def sys_mmap_anon_def sys_madvise_def
        Let_def split: if_splits)
  with g show ?thesis using that by blast
qed

end
