(* ===== verification/Cdma_Interfaces.thy ===== *)
theory Cdma_Interfaces
  imports Cdma_Prelude
begin

text \<open>
  The interfaces several components share. \<open>slot_pool\<close>: a component that hands out slots and
  takes them back; its clients rely on a slot in use never being handed out again.
  \<open>pool_run\<close> is any interleaving of the two operations, \<open>exclusive\<close> says that no step of it
  hands out a slot somebody holds.

  \<open>ring\<close>: an array of slots addressed by free-running 32-bit indices, as the send queue, the
  table of user contexts beside it and the completion queue are. \<open>window\<close> reads the slots of
  consecutive indices, \<open>ring_put\<close> fills them; clients rely on a window growing at its end
  without a change of what it holds.

  \<open>lifecycle\<close>: a kind of object that is created, owns resources and is deleted. \<open>bal\<close> is the balance
  of resources, \<open>creates s (Some x) s'\<close> a successful creation and \<open>creates s None s'\<close> a failed one.
  Clients rely on the balance being that of the objects they hold, over any sequence of steps.
\<close>

unbundle bit_operations_syntax

section \<open>Pools of slots\<close>

datatype 'a pool_op = Take 'a | Give 'a

inductive pool_run ::
  "('s \<Rightarrow> 'a \<Rightarrow> 's \<Rightarrow> bool) \<Rightarrow> ('s \<Rightarrow> 'a \<Rightarrow> 's \<Rightarrow> bool) \<Rightarrow> 's \<Rightarrow> 'a pool_op list \<Rightarrow> 's \<Rightarrow> bool"
  for takes gives where
  run_nil: "pool_run takes gives s [] s"
| run_take: "takes s x s1 \<Longrightarrow> pool_run takes gives s1 ops s2 \<Longrightarrow> pool_run takes gives s (Take x # ops) s2"
| run_give: "gives s x s1 \<Longrightarrow> pool_run takes gives s1 ops s2 \<Longrightarrow> pool_run takes gives s (Give x # ops) s2"

inductive_cases pool_run_nilE: "pool_run takes gives s [] s'"
inductive_cases pool_run_takeE: "pool_run takes gives s (Take x # ops) s'"
inductive_cases pool_run_giveE: "pool_run takes gives s (Give x # ops) s'"

fun held_after :: "'a set \<Rightarrow> 'a pool_op list \<Rightarrow> 'a set" where
  "held_after H [] = H"
| "held_after H (Take x # ops) = held_after (insert x H) ops"
| "held_after H (Give x # ops) = held_after (H - {x}) ops"

text \<open>The callers give back only what they hold.\<close>

fun gives_held :: "'a set \<Rightarrow> 'a pool_op list \<Rightarrow> bool" where
  "gives_held H [] \<longleftrightarrow> True"
| "gives_held H (Take x # ops) \<longleftrightarrow> gives_held (insert x H) ops"
| "gives_held H (Give x # ops) \<longleftrightarrow> x \<in> H \<and> gives_held (H - {x}) ops"

fun exclusive :: "'a set \<Rightarrow> 'a pool_op list \<Rightarrow> bool" where
  "exclusive H [] \<longleftrightarrow> True"
| "exclusive H (Take x # ops) \<longleftrightarrow> x \<notin> H \<and> exclusive (insert x H) ops"
| "exclusive H (Give x # ops) \<longleftrightarrow> exclusive (H - {x}) ops"

locale slot_pool =
  fixes inv :: "'s \<Rightarrow> bool" and used :: "'s \<Rightarrow> 'a set"
    and takes :: "'s \<Rightarrow> 'a \<Rightarrow> 's \<Rightarrow> bool" and gives :: "'s \<Rightarrow> 'a \<Rightarrow> 's \<Rightarrow> bool"
  assumes take_inv: "inv s \<Longrightarrow> takes s x s' \<Longrightarrow> inv s'"
    and take_fresh: "inv s \<Longrightarrow> takes s x s' \<Longrightarrow> x \<notin> used s"
    and take_used: "inv s \<Longrightarrow> takes s x s' \<Longrightarrow> used s' = insert x (used s)"
    and give_inv: "inv s \<Longrightarrow> x \<in> used s \<Longrightarrow> gives s x s' \<Longrightarrow> inv s'"
    and give_used: "inv s \<Longrightarrow> x \<in> used s \<Longrightarrow> gives s x s' \<Longrightarrow> used s' = used s - {x}"
begin

lemma run_exclusive:
  assumes "pool_run takes gives s ops s'" and "inv s" and "gives_held (used s) ops"
  shows "exclusive (used s) ops \<and> inv s' \<and> used s' = held_after (used s) ops"
  using assms
proof (induction rule: pool_run.induct)
  case (run_nil s)
  then show ?case by simp
next
  case (run_take s x s1 ops s2)
  have u: "used s1 = insert x (used s)" by (rule take_used [OF run_take.prems(1) run_take.hyps(1)])
  have "exclusive (used s1) ops \<and> inv s2 \<and> used s2 = held_after (used s1) ops"
    using run_take.IH take_inv [OF run_take.prems(1) run_take.hyps(1)] run_take.prems(2) by (simp add: u)
  then show ?case using take_fresh [OF run_take.prems(1) run_take.hyps(1)] by (simp add: u)
next
  case (run_give s x s1 ops s2)
  have x: "x \<in> used s" using run_give.prems(2) by simp
  have u: "used s1 = used s - {x}" by (rule give_used [OF run_give.prems(1) x run_give.hyps(1)])
  have "exclusive (used s1) ops \<and> inv s2 \<and> used s2 = held_after (used s1) ops"
    using run_give.IH give_inv [OF run_give.prems(1) x run_give.hyps(1)] run_give.prems(2) by (simp add: u)
  then show ?case by (simp add: u)
qed

lemma take_give:
  assumes "inv s" and "takes s x s1" and "gives s1 x s2"
  shows "inv s2 \<and> used s2 = used s"
proof -
  have "pool_run takes gives s [Take x, Give x] s2"
    using assms(2,3) by (rule run_take [OF _ run_give [OF _ run_nil]])
  moreover have "gives_held (used s) [Take x, Give x]" by simp
  moreover have "x \<notin> used s" by (rule take_fresh [OF assms(1,2)])
  ultimately show ?thesis using run_exclusive [of s "[Take x, Give x]" s2] assms(1) by simp
qed

end


section \<open>Rings\<close>

definition window :: "('q \<Rightarrow> u32 \<Rightarrow> ptr) \<Rightarrow> (ptr \<Rightarrow> 'v) \<Rightarrow> 'q \<Rightarrow> u32 \<Rightarrow> nat \<Rightarrow> 'v list" where
  "window slot m q n k = map (\<lambda>i. m (slot q (n + of_nat i))) [0..<k]"

fun ring_put :: "('q \<Rightarrow> u32 \<Rightarrow> ptr) \<Rightarrow> 'q \<Rightarrow> u32 \<Rightarrow> 'v list \<Rightarrow> (ptr \<Rightarrow> 'v) \<Rightarrow> ptr \<Rightarrow> 'v" where
  "ring_put slot q n [] m = m"
| "ring_put slot q n (x # xs) m = ring_put slot q (n + 1) xs (m(slot q n := x))"

lemma length_window [simp]: "length (window slot m q n k) = k"
  by (simp add: window_def)

lemma window_split: "window slot m q n (j + k) = window slot m q n j @ window slot m q (n + of_nat j) k"
proof -
  have "[0..<j + k] = [0..<j] @ [j..<j + k]" by (rule upt_add_eq_append) simp
  moreover have "[j..<j + k] = map (\<lambda>i. i + j) [0..<k]"
    by (simp add: map_add_upt add.commute)
  ultimately show ?thesis by (simp add: window_def o_def ac_simps)
qed

lemma window_Suc: "window slot m q n (Suc k) = m (slot q n) # window slot m q (n + 1) k"
  using window_split [of slot m q n 1 k] by (simp add: window_def)

lemma ring_put_other:
  assumes "\<And>i. i < length xs \<Longrightarrow> slot q (n + of_nat i) \<noteq> a"
  shows "ring_put slot q n xs m a = m a"
  using assms
proof (induction xs arbitrary: n m)
  case (Cons x xs)
  have "slot q n \<noteq> a" using Cons.prems [of 0] by simp
  moreover have "slot q (n + 1 + of_nat i) \<noteq> a" if "i < length xs" for i
    using Cons.prems [of "Suc i"] that by (simp add: add.assoc)
  ultimately show ?case using Cons.IH [of "n + 1"] by simp
qed simp

lemma unat_add_of_nat_mod:
  assumes "N dvd 2 ^ 32"
  shows "unat ((n :: u32) + of_nat i) mod N = (unat n + i) mod N"
proof -
  have "unat (n + of_nat i) = (unat n + i) mod 2 ^ 32"
    by (simp add: unat_word_ariths unat_of_nat mod_add_right_eq)
  then show ?thesis using assms by (simp only: mod_mod_cancel)
qed

locale ring =
  fixes wf :: "'q \<Rightarrow> bool" and cap :: "'q \<Rightarrow> nat" and slot :: "'q \<Rightarrow> u32 \<Rightarrow> ptr"
  assumes slot_eq: "wf q \<Longrightarrow> slot q n = slot q m \<longleftrightarrow> unat n mod cap q = unat m mod cap q"
    and cap_dvd: "wf q \<Longrightarrow> cap q dvd 2 ^ 32"
begin

lemma slot_distinct:
  assumes "wf q" and "i < cap q" and "j < cap q"
  shows "slot q (n + of_nat i) = slot q (n + of_nat j) \<longleftrightarrow> i = j"
  using slot_eq [OF assms(1)] unat_add_of_nat_mod [OF cap_dvd [OF assms(1)]]
    mod_add_distinct [OF assms(2,3)] by auto

lemma slot_period:
  assumes "wf q"
  shows "slot q (n + of_nat (cap q)) = slot q n"
  using slot_eq [OF assms] unat_add_of_nat_mod [OF cap_dvd [OF assms]] by simp

lemma ring_put_nth:
  assumes "wf q" and "length xs \<le> cap q" and "i < length xs"
  shows "ring_put slot q n xs m (slot q (n + of_nat i)) = xs ! i"
  using assms(2,3)
proof (induction xs arbitrary: n m i)
  case (Cons x xs)
  show ?case
  proof (cases i)
    case 0
    have "slot q (n + 1 + of_nat j) \<noteq> slot q n" if "j < length xs" for j
      using slot_distinct [OF assms(1), of "Suc j" 0 n] Cons.prems that by (simp add: add.assoc)
    then show ?thesis using 0 by (simp add: ring_put_other)
  next
    case (Suc j)
    then show ?thesis using Cons.IH [of j "n + 1"] Cons.prems by (simp add: add.assoc)
  qed
qed simp

lemma window_put:
  assumes "wf q" and "length xs \<le> cap q"
  shows "window slot (ring_put slot q n xs m) q n (length xs) = xs"
  using ring_put_nth [OF assms] by (intro nth_equalityI) (simp_all add: window_def)

lemma window_put_before:
  assumes "wf q" and "k + length xs \<le> cap q"
  shows "window slot (ring_put slot q (n + of_nat k) xs m) q n k = window slot m q n k"
proof -
  have "ring_put slot q (n + of_nat k) xs m (slot q (n + of_nat i)) = m (slot q (n + of_nat i))" if "i < k" for i
  proof (rule ring_put_other)
    fix j assume "j < length xs"
    then show "slot q (n + of_nat k + of_nat j) \<noteq> slot q (n + of_nat i)"
      using slot_distinct [OF assms(1), of "k + j" i n] assms(2) that by (simp add: add.assoc)
  qed
  then show ?thesis by (simp add: window_def)
qed

lemma window_append:
  assumes "wf q" and "k + length xs \<le> cap q"
  shows "window slot (ring_put slot q (n + of_nat k) xs m) q n (k + length xs) = window slot m q n k @ xs"
  using window_put_before [OF assms] window_put [OF assms(1), of xs "n + of_nat k" m] assms(2)
  by (simp add: window_split)

end


section \<open>Objects with a lifecycle\<close>

datatype 'x life_op = Created 'x | Failed | Deleted 'x

inductive life_run ::
  "('s \<Rightarrow> 'x option \<Rightarrow> 's \<Rightarrow> bool) \<Rightarrow> ('s \<Rightarrow> 'x \<Rightarrow> 's \<Rightarrow> bool) \<Rightarrow> 's \<Rightarrow> 'x life_op list \<Rightarrow> 's \<Rightarrow> bool"
  for creates deletes where
  life_nil: "life_run creates deletes s [] s"
| life_created: "creates s (Some x) s1 \<Longrightarrow> life_run creates deletes s1 ops s2
     \<Longrightarrow> life_run creates deletes s (Created x # ops) s2"
| life_failed: "creates s None s1 \<Longrightarrow> life_run creates deletes s1 ops s2
     \<Longrightarrow> life_run creates deletes s (Failed # ops) s2"
| life_deleted: "deletes s x s1 \<Longrightarrow> life_run creates deletes s1 ops s2
     \<Longrightarrow> life_run creates deletes s (Deleted x # ops) s2"

fun held_objs :: "'x list \<Rightarrow> 'x life_op list \<Rightarrow> 'x list" where
  "held_objs H [] = H"
| "held_objs H (Created x # ops) = held_objs (x # H) ops"
| "held_objs H (Failed # ops) = held_objs H ops"
| "held_objs H (Deleted x # ops) = held_objs (remove1 x H) ops"

text \<open>The callers delete only what they hold.\<close>

fun deletes_held :: "'x list \<Rightarrow> 'x life_op list \<Rightarrow> bool" where
  "deletes_held H [] \<longleftrightarrow> True"
| "deletes_held H (Created x # ops) \<longleftrightarrow> deletes_held (x # H) ops"
| "deletes_held H (Failed # ops) \<longleftrightarrow> deletes_held H ops"
| "deletes_held H (Deleted x # ops) \<longleftrightarrow> x \<in> set H \<and> deletes_held (remove1 x H) ops"

definition holdings :: "('s \<Rightarrow> 'x \<Rightarrow> 'r multiset) \<Rightarrow> 's \<Rightarrow> 'x list \<Rightarrow> 'r multiset" where
  "holdings res s H = sum_list (List.map (res s) H)"

lemma holdings_simps [simp]:
  "holdings res s [] = {#}" "holdings res s (x # H) = res s x + holdings res s H"
  by (simp_all add: holdings_def)

lemma holdings_remove1:
  assumes "x \<in> set H"
  shows "holdings res s H = res s x + holdings res s (remove1 x H)"
  using assms by (induction H) (auto simp: ac_simps)

lemma holdings_cong: "(\<And>x. x \<in> set H \<Longrightarrow> res s x = res s' x) \<Longrightarrow> holdings res s H = holdings res s' H"
  unfolding holdings_def by (metis map_eq_conv)

locale lifecycle =
  fixes inv :: "'s \<Rightarrow> bool" and bal :: "'s \<Rightarrow> 'r multiset"
    and valid :: "'s \<Rightarrow> 'x \<Rightarrow> bool" and res :: "'s \<Rightarrow> 'x \<Rightarrow> 'r multiset"
    and creates :: "'s \<Rightarrow> 'x option \<Rightarrow> 's \<Rightarrow> bool" and deletes :: "'s \<Rightarrow> 'x \<Rightarrow> 's \<Rightarrow> bool"
  assumes created: "inv s \<Longrightarrow> creates s (Some x) s' \<Longrightarrow> inv s' \<and> valid s' x \<and> bal s' = bal s + res s' x"
    and failed: "inv s \<Longrightarrow> creates s None s' \<Longrightarrow> inv s' \<and> bal s' = bal s"
    and create_keeps: "inv s \<Longrightarrow> creates s r s' \<Longrightarrow> valid s y \<Longrightarrow> res s y \<subseteq># bal s
       \<Longrightarrow> r \<noteq> Some y \<and> valid s' y \<and> res s' y = res s y"
    and deleted: "inv s \<Longrightarrow> valid s x \<Longrightarrow> res s x \<subseteq># bal s \<Longrightarrow> deletes s x s'
       \<Longrightarrow> inv s' \<and> bal s = bal s' + res s x"
    and delete_keeps: "inv s \<Longrightarrow> valid s x \<Longrightarrow> valid s y \<Longrightarrow> x \<noteq> y \<Longrightarrow> res s x + res s y \<subseteq># bal s
       \<Longrightarrow> deletes s x s' \<Longrightarrow> valid s' y \<and> res s' y = res s y"
begin

lemma create_delete:
  assumes "inv s" and "creates s (Some x) s1" and "deletes s1 x s2"
  shows "inv s2 \<and> bal s2 = bal s"
proof -
  have c: "inv s1 \<and> valid s1 x \<and> bal s1 = bal s + res s1 x" using created assms(1,2) by blast
  then have "res s1 x \<subseteq># bal s1" by simp
  with c have "inv s2 \<and> bal s1 = bal s2 + res s1 x" using deleted assms(3) by blast
  with c show ?thesis by simp
qed

lemma keeps_holdings:
  assumes "\<And>y. y \<in> set H \<Longrightarrow> valid s y \<Longrightarrow> res s y \<subseteq># holdings res s H \<Longrightarrow> valid s' y \<and> res s' y = res s y"
    and "\<forall>y\<in>set H. valid s y"
  shows "(\<forall>y\<in>set H. valid s' y) \<and> holdings res s' H = holdings res s H"
proof -
  have "res s y \<subseteq># holdings res s H" if "y \<in> set H" for y
    unfolding holdings_remove1 [OF that, of res s] by simp
  then have "valid s' y \<and> res s' y = res s y" if "y \<in> set H" for y using assms that by blast
  then show ?thesis by (auto intro: holdings_cong)
qed

lemma creates_holdings:
  assumes "inv s" and "creates s r s'" and "\<forall>y\<in>set H. valid s y" and "bal s = B + holdings res s H"
  shows "(\<forall>y\<in>set H. valid s' y) \<and> holdings res s' H = holdings res s H \<and> (\<forall>y\<in>set H. r \<noteq> Some y)"
proof -
  have k: "r \<noteq> Some y \<and> valid s' y \<and> res s' y = res s y" if "valid s y" "res s y \<subseteq># holdings res s H" for y
    using create_keeps [OF assms(1,2) that(1)] that(2) assms(4)
    by (metis mset_subset_eq_add_right subset_mset.order_trans)
  have "res s y \<subseteq># holdings res s H" if "y \<in> set H" for y
    unfolding holdings_remove1 [OF that, of res s] by simp
  with k assms(3) have "\<forall>y\<in>set H. r \<noteq> Some y" by blast
  moreover have "(\<forall>y\<in>set H. valid s' y) \<and> holdings res s' H = holdings res s H"
    using k assms(3) by (intro keeps_holdings) blast+
  ultimately show ?thesis by blast
qed

lemma run_balance:
  assumes "life_run creates deletes s ops s'" and "inv s" and "deletes_held H ops" and "distinct H"
    and "\<forall>y\<in>set H. valid s y" and "bal s = B + holdings res s H"
  shows "inv s' \<and> (\<forall>y\<in>set (held_objs H ops). valid s' y) \<and> bal s' = B + holdings res s' (held_objs H ops)"
  using assms
proof (induction arbitrary: H rule: life_run.induct)
  case (life_nil s)
  then show ?case by simp
next
  case (life_created s x s1 ops s2)
  note c = created [OF life_created.prems(1) life_created.hyps(1)]
  note k = creates_holdings [OF life_created.prems(1) life_created.hyps(1) life_created.prems(4,5)]
  have "bal s1 = B + holdings res s1 (x # H)" using c k life_created.prems(5) by (simp add: ac_simps)
  then show ?case using life_created.IH [of "x # H"] c k life_created.prems(2,3) by auto
next
  case (life_failed s s1 ops s2)
  note c = failed [OF life_failed.prems(1) life_failed.hyps(1)]
  note k = creates_holdings [OF life_failed.prems(1) life_failed.hyps(1) life_failed.prems(4,5)]
  then show ?case using life_failed.IH [of H] c life_failed.prems(2,3,5) by simp
next
  case (life_deleted s x s1 ops s2)
  have x: "x \<in> set H" "valid s x" using life_deleted.prems(2,4) by simp_all
  note h = holdings_remove1 [OF x(1), of res s]
  have "res s x \<subseteq># bal s" using life_deleted.prems(5) h by simp
  note d = deleted [OF life_deleted.prems(1) x(2) this life_deleted.hyps(1)]
  have k: "(\<forall>y\<in>set (remove1 x H). valid s1 y) \<and> holdings res s1 (remove1 x H) = holdings res s (remove1 x H)"
  proof (rule keeps_holdings)
    fix y assume y: "y \<in> set (remove1 x H)" "valid s y" "res s y \<subseteq># holdings res s (remove1 x H)"
    have "res s x + res s y \<subseteq># bal s" using y(3) life_deleted.prems(5) h
      by (simp add: subset_mset.add_increasing)
    moreover have "x \<noteq> y" using y(1) life_deleted.prems(3) by auto
    ultimately show "valid s1 y \<and> res s1 y = res s y"
      using delete_keeps [OF life_deleted.prems(1) x(2) y(2) _ _ life_deleted.hyps(1)] by blast
  qed (use life_deleted.prems(4) set_remove1_subset [of x H] in blast)
  have "bal s1 = B + holdings res s1 (remove1 x H)"
    using d k h life_deleted.prems(5) by (simp add: ac_simps)
  then show ?case using life_deleted.IH [of "remove1 x H"] d k life_deleted.prems(2,3) by simp
qed

lemma run_no_leak:
  assumes "life_run creates deletes s ops s'" and "inv s" and "deletes_held [] ops" and "held_objs [] ops = []"
  shows "inv s' \<and> bal s' = bal s"
  using run_balance [OF assms(1-3), of "bal s"] assms(4) by simp

end

end
