(* ===== verification/Cdma_Ring.thy ===== *)
theory Cdma_Ring
  imports Cdma_Queue_Buf Cdma_Interfaces
begin

text \<open>
  The memory of a ring: the address of the slot of a free-running index
  (\<open>cdma_u_get_buf_entry\<close> of \<open>cdma_u_jfc.c\<close>; the send queue of \<open>cdma_u_jfs.c\<close> keeps the same
  address in \<open>qbuf_curr\<close>) and of its entry in the table of user contexts. \<open>ring_wf\<close> is what
  \<open>cdma_u_alloc_queue_buf\<close> establishes; it makes both instances of the interface \<open>ring\<close>.
\<close>

unbundle bit_operations_syntax

definition cdma_u_get_buf_entry :: "cdma_u_jetty_queue \<Rightarrow> u32 \<Rightarrow> ptr" where
  "cdma_u_get_buf_entry cq n =
     (let cqe_index = n AND baseblk_mask cq; cqe_size = push_bit (unat (baseblk_shift cq)) 1 in
      qbuf cq + ucast (cqe_index * cqe_size :: u32))"

text \<open>The address of \<open>wrid[n & baseblk_mask]\<close>.\<close>

definition wrid_slot :: "cdma_u_jetty_queue \<Rightarrow> u32 \<Rightarrow> ptr" where
  "wrid_slot q n = q_wrid q + 8 * ucast (n AND baseblk_mask q)"

definition ring_geometry_is :: "nat \<Rightarrow> nat \<Rightarrow> cdma_u_jetty_queue \<Rightarrow> bool" where
  "ring_geometry_is c sh q \<longleftrightarrow> c + sh \<le> 31 \<and> baseblk_cnt q = 2 ^ c \<and> baseblk_mask q = 2 ^ c - 1
     \<and> baseblk_shift q = of_nat sh \<and> qbuf_size q = 2 ^ (c + sh)"

definition ring_wf :: "cdma_u_jetty_queue \<Rightarrow> bool" where
  "ring_wf q \<longleftrightarrow> (\<exists>c sh. ring_geometry_is c sh q)"

definition ring_cap :: "cdma_u_jetty_queue \<Rightarrow> nat" where
  "ring_cap q = unat (baseblk_cnt q)"

lemma ring_wfE:
  assumes "ring_wf q"
  obtains c sh where "ring_geometry_is c sh q" and "c \<le> 31" and "sh \<le> 31"
  using assms by (auto simp: ring_wf_def ring_geometry_is_def)

lemma ring_geometry_facts:
  assumes "ring_geometry_is c sh q"
  shows "baseblk_mask q = mask c" and "unat (baseblk_shift q) = sh" and "unat (baseblk_cnt q) = 2 ^ c"
    and "unat (qbuf_size q) = 2 ^ (c + sh)" and "c \<le> 31" and "ring_cap q = 2 ^ c"
    and "unat (n AND baseblk_mask q) = unat n mod 2 ^ c"
proof -
  have cs: "c \<le> 31" "sh \<le> 31" "c + sh \<le> 31" using assms by (auto simp: ring_geometry_is_def)
  then show "c \<le> 31" by simp
  show m: "baseblk_mask q = mask c" using assms by (simp add: ring_geometry_is_def mask_eq_exp_minus_1)
  show "unat (n AND baseblk_mask q) = unat n mod 2 ^ c" unfolding m by (rule unat_and_mask)
  show "unat (baseblk_cnt q) = 2 ^ c" "ring_cap q = 2 ^ c"
    using assms cs by (simp_all add: ring_geometry_is_def ring_cap_def)
  show "unat (qbuf_size q) = 2 ^ (c + sh)" using assms cs by (simp add: ring_geometry_is_def del: power_add)
  have "sh < 2 ^ 32" using cs by simp
  then show "unat (baseblk_shift q) = sh"
    using assms unat_of_nat [of sh, where 'a = 32] by (simp add: ring_geometry_is_def)
qed

lemma get_buf_entry_eq:
  assumes g: "ring_geometry_is c sh q"
  shows "cdma_u_get_buf_entry q n = qbuf q + of_nat (unat n mod 2 ^ c * 2 ^ sh)"
    and "unat n mod 2 ^ c * 2 ^ sh + 2 ^ sh \<le> (2 :: nat) ^ (c + sh)"
    and "(2 :: nat) ^ (c + sh) \<le> 2147483648"
proof -
  have cs: "c + sh \<le> 31" using g by (simp add: ring_geometry_is_def)
  let ?i = "unat n mod 2 ^ c"
  have "Suc ?i * 2 ^ sh \<le> 2 ^ c * (2 :: nat) ^ sh" by (intro mult_le_mono) (simp_all add: Suc_leI)
  then show room: "?i * 2 ^ sh + 2 ^ sh \<le> (2 :: nat) ^ (c + sh)" by (simp add: power_add)
  show le: "(2 :: nat) ^ (c + sh) \<le> 2147483648" by (rule pow2_le_31 [OF cs])
  have "(0 :: nat) < 2 ^ sh" by simp
  then have lt: "?i * 2 ^ sh < 2147483648" using room le by linarith
  have "unat (n AND baseblk_mask q) = ?i" "unat (baseblk_shift q) = sh"
    using ring_geometry_facts [OF g] by simp_all
  moreover have "unat (push_bit sh 1 :: u32) = 2 ^ sh" using cs by simp
  ultimately have "unat ((n AND baseblk_mask q) * push_bit (unat (baseblk_shift q)) 1) = ?i * 2 ^ sh"
    using lt by (simp add: unat_word_ariths del: push_bit_of_1)
  moreover have "unat (of_nat (?i * 2 ^ sh) :: u64) = ?i * 2 ^ sh"
    using lt unat_of_nat [of "?i * 2 ^ sh", where 'a = 64] by (simp del: of_nat_mult of_nat_power)
  ultimately have "(ucast ((n AND baseblk_mask q) * push_bit (unat (baseblk_shift q)) 1) :: u64)
      = of_nat (?i * 2 ^ sh)"
    by (simp only: word_unat_eq_iff unat_ucast_u64)
  then show "cdma_u_get_buf_entry q n = qbuf q + of_nat (?i * 2 ^ sh)"
    by (simp only: cdma_u_get_buf_entry_def Let_def)
qed

lemma of_nat_u64_inj:
  assumes "i < 2 ^ 64" and "j < 2 ^ 64"
  shows "(of_nat i :: u64) = of_nat j \<longleftrightarrow> i = j"
  using assms unat_of_nat [of i, where 'a = 64] unat_of_nat [of j, where 'a = 64]
  by (auto simp: word_unat_eq_iff)

interpretation blocks: ring ring_wf ring_cap cdma_u_get_buf_entry
proof
  fix q n m
  assume "ring_wf q"
  then obtain c sh where g: "ring_geometry_is c sh q" and cs: "c \<le> 31" by (rule ring_wfE)
  have lt: "unat x mod 2 ^ c * 2 ^ sh < 2 ^ 64" for x :: u32
  proof -
    have "(0 :: nat) < 2 ^ sh" by simp
    then have "unat x mod 2 ^ c * 2 ^ sh < 2147483648"
      using get_buf_entry_eq(2) [OF g, of x] get_buf_entry_eq(3) [OF g] by linarith
    then show ?thesis by simp
  qed
  show "cdma_u_get_buf_entry q n = cdma_u_get_buf_entry q m \<longleftrightarrow> unat n mod ring_cap q = unat m mod ring_cap q"
    using of_nat_u64_inj [OF lt lt, of n m] get_buf_entry_eq(1) [OF g] ring_geometry_facts(6) [OF g]
    by (simp del: of_nat_mult of_nat_power)
  show "ring_cap q dvd 2 ^ 32"
    using ring_geometry_facts(6) [OF g] cs by (simp only: le_imp_power_dvd)
qed

interpretation wrid: ring ring_wf ring_cap wrid_slot
proof
  fix q n m
  assume "ring_wf q"
  then obtain c sh where g: "ring_geometry_is c sh q" and cs: "c \<le> 31" by (rule ring_wfE)
  have "wrid_slot q x = q_wrid q + of_nat (8 * (unat x mod 2 ^ c))" for x
  proof -
    have "(ucast (x AND baseblk_mask q) :: u64) = of_nat (unat (x AND baseblk_mask q))"
      by simp
    then show ?thesis using ring_geometry_facts(7) [OF g] by (simp add: wrid_slot_def)
  qed
  moreover have "8 * (unat x mod 2 ^ c) < 2 ^ 64" for x :: u32
  proof -
    have "unat x mod 2 ^ c \<le> unat x" by simp
    then have "8 * (unat x mod 2 ^ c) < 34359738368" using unat_u32_less [of x] by linarith
    then show ?thesis by simp
  qed
  ultimately show "wrid_slot q n = wrid_slot q m \<longleftrightarrow> unat n mod ring_cap q = unat m mod ring_cap q"
    using of_nat_u64_inj [of "8 * (unat n mod 2 ^ c)" "8 * (unat m mod 2 ^ c)"] ring_geometry_facts(6) [OF g]
    by (simp del: of_nat_mult of_nat_mod)
  show "ring_cap q dvd 2 ^ 32"
    using ring_geometry_facts(6) [OF g] cs by (simp only: le_imp_power_dvd)
qed

text \<open>What the geometry computation yields is such a ring.\<close>

lemma pow2_geometry_wf:
  assumes "c + sh \<le> 31"
  shows "ring_geometry_is c sh (pow2_geometry c sh q)"
  using assms by (simp add: ring_geometry_is_def pow2_geometry_def)

end
