(* ===== verification/Cdma_Post.thy ===== *)
theory Cdma_Post
  imports Cdma_Sqe Cdma_Ring
begin

text \<open>
  Posting work requests to the send queue (\<open>cdma_u_jfs.c\<close>): the element built by
  \<open>Cdma_Sqe\<close> is copied into the ring of WQEBBs, the user's context is noted for each of its
  blocks, and the device is told by its doorbell or, for a lone one-block element on an empty
  queue, by writing the element itself to the doorbell page. \<open>sq_wf\<close> is the invariant;
  \<open>sq_blocks\<close> and \<open>sq_user_ctxs\<close> are the abstract state: what has been posted and not yet
  completed.
\<close>

unbundle bit_operations_syntax

definition check_sq_overflow :: "cdma_u_jetty_queue \<Rightarrow> u32 \<Rightarrow> bool" where
  "check_sq_overflow sq wqebb_cnt \<longleftrightarrow> q_pi sq - q_ci sq + wqebb_cnt > baseblk_cnt sq"

text \<open>\<open>memcpy\<close> of whole WQEBBs to consecutive addresses.\<close>

fun store_blocks :: "ptr \<Rightarrow> u32 list list \<Rightarrow> (ptr \<Rightarrow> u32 list) \<Rightarrow> ptr \<Rightarrow> u32 list" where
  "store_blocks p [] m = m"
| "store_blocks p (b # bs) m = store_blocks (p + 64) bs (m(p := b))"

definition tmp_blocks :: "u32 list \<Rightarrow> u32 list list" where
  "tmp_blocks t = map (\<lambda>i. take 16 (drop (16 * i) t)) [0..<4]"

definition cdma_copy_to_sq :: "cdma_u_jetty_queue \<Rightarrow> u32 \<Rightarrow> u32 list \<Rightarrow> st \<Rightarrow> int \<times> st" where
  "cdma_copy_to_sq sq wqebb_cnt tmp_sq s =
     (let remain = baseblk_cnt sq - (q_pi sq AND baseblk_mask sq) in
      if check_sq_overflow sq wqebb_cnt then (- ENOMEM, s)
      else
        (let tail_cnt = (if remain > wqebb_cnt then wqebb_cnt else remain);
             head_cnt = wqebb_cnt - tail_cnt;
             bs = tmp_blocks tmp_sq;
             m1 = store_blocks (qbuf_curr sq) (take (unat tail_cnt) bs) (wqebbs s);
             m2 = (if head_cnt \<noteq> 0
                   then store_blocks (qbuf sq) (take (unat head_cnt) (drop (unat tail_cnt) bs)) m1
                   else m1)
         in (0, s\<lparr>wqebbs := m2\<rparr>)))"

text \<open>
  The results are the return value, the queue, \<open>*dwqe_addr\<close>, \<open>*dwqe_enable\<close> and the state.
\<close>

definition cdma_post_one_wr ::
  "ptr \<Rightarrow> cdma_u_jetty_queue \<Rightarrow> dma_jfs_wr \<Rightarrow> ptr \<Rightarrow> bool \<Rightarrow> st
     \<Rightarrow> (int \<times> cdma_u_jetty_queue \<times> ptr \<times> bool \<times> st) option" where
  "cdma_post_one_wr cdma_ctx sq wr dwqe_addr dwqe_enable s = do {
     let opcode = cdma_parse_jfs_opcode (wr_opcode wr);
     if opcode = CDMA_OPCODE_INVALID then Some (- EINVAL, sq, dwqe_addr, dwqe_enable, s)
     else do {
       bad_sge \<leftarrow> cdma_check_sge_num opcode sq wr;
       if bad_sge then Some (- EINVAL, sq, dwqe_addr, dwqe_enable, s)
       else do {
         (ret, tmp_sq) \<leftarrow> cdma_set_sqe (umem s) (replicate 64 0) sq wr opcode;
         if ret \<noteq> 0 then Some (ret, sq, dwqe_addr, dwqe_enable, s)
         else do {
           let cnt = cdma_get_wqebb_cnt wr tmp_sq;
           let enable = (if cnt = 1 \<and> ctx_dwqe_enable (ctxs s cdma_ctx) \<noteq> 0 then True else dwqe_enable);
           let wqebb_cnt = (if cnt > MAX_SQE_BB_NUM then MAX_SQE_BB_NUM else cnt);
           let (ret, s1) = cdma_copy_to_sq sq wqebb_cnt tmp_sq s;
           if ret \<noteq> 0 then Some (ret, sq, dwqe_addr, enable, s1)
           else do {
             let curr = cdma_update_ptr (qbuf_curr sq) (push_bit (unat (baseblk_shift sq)) wqebb_cnt)
                          (qbuf sq) (qbuf sq + ucast (qbuf_size sq));
             let s2 = s1\<lparr>wrids := ring_put wrid_slot sq (q_pi sq)
                        (replicate (unat wqebb_cnt) (wr_user_ctx wr)) (wrids s1)\<rparr>;
             Some (0, sq\<lparr>qbuf_curr := curr, q_pi := q_pi sq + wqebb_cnt\<rparr>, qbuf_curr sq, enable, s2)
           }
         }
       }
     }
   }"

text \<open>The two ways of storing a 64-byte block to device memory: one instruction or vector stores.\<close>

definition cdma_st64b :: "u32 list \<Rightarrow> ptr \<Rightarrow> st \<Rightarrow> st" where
  "cdma_st64b src dst s = emit (EvMmioBlock dst src) s"

definition mmio_memcpy_x64 :: "ptr \<Rightarrow> u32 list \<Rightarrow> st \<Rightarrow> st" where
  "mmio_memcpy_x64 dest val s = emit (EvMmioBlock dest val) s"

definition cdma_write_dsqe :: "ptr \<Rightarrow> cdma_u_jetty_queue \<Rightarrow> ptr \<Rightarrow> st \<Rightarrow> st" where
  "cdma_write_dsqe cdma_ctx sq ctrl s =
     (let b = ctl_set F_sqe_bb_idx (q_pi sq) (wqebbs s ctrl);
          s1 = s\<lparr>wqebbs := (wqebbs s)(ctrl := b)\<rparr> in
      if ctx_st64b_en (ctxs s1 cdma_ctx) then cdma_st64b b (q_dwqe_addr sq) s1
      else mmio_memcpy_x64 (q_dwqe_addr sq) b s1)"

definition cdma_update_sq_db :: "cdma_u_jetty_queue \<Rightarrow> st \<Rightarrow> st" where
  "cdma_update_sq_db sq s = emit (EvMmio32 (db_addr (q_db sq) + CDMA_DOORBELL_OFFSET) (q_pi sq)) s"

text \<open>The loop over the chain: the last two results are \<open>*bad_wr\<close> and \<open>wr_cnt\<close>.\<close>

fun post_wrs ::
  "ptr \<Rightarrow> cdma_u_jetty_queue \<Rightarrow> dma_jfs_wr list \<Rightarrow> ptr \<Rightarrow> bool \<Rightarrow> nat \<Rightarrow> st
     \<Rightarrow> (int \<times> cdma_u_jetty_queue \<times> ptr \<times> bool \<times> st \<times> dma_jfs_wr option \<times> nat) option" where
  "post_wrs cdma_ctx sq [] dwqe_addr dwqe_enable wr_cnt s =
     Some (0, sq, dwqe_addr, dwqe_enable, s, None, wr_cnt)"
| "post_wrs cdma_ctx sq (it # wrs) dwqe_addr dwqe_enable wr_cnt s = do {
     (ret, sq', addr', enable', s') \<leftarrow> cdma_post_one_wr cdma_ctx sq it dwqe_addr dwqe_enable s;
     if ret \<noteq> 0 then Some (ret, sq', addr', enable', s', Some it, wr_cnt)
     else post_wrs cdma_ctx sq' wrs addr' enable' (wr_cnt + 1) s'
   }"

text \<open>
  The lock of the queue is named by its JFS. \<open>dwqe_addr\<close> is uninitialised before the first
  element is posted and only used after one: NULL stands for it.
\<close>

definition cdma_post_sq_wr ::
  "ptr \<Rightarrow> ptr \<Rightarrow> cdma_u_jetty_queue \<Rightarrow> dma_jfs_wr list \<Rightarrow> st
     \<Rightarrow> (int \<times> cdma_u_jetty_queue \<times> dma_jfs_wr option \<times> st) option" where
  "cdma_post_sq_wr jfs cdma_ctx sq wr s = do {
     (ret, sq', dwqe_addr, dwqe_enable, s1, bad_wr, wr_cnt) \<leftarrow>
       post_wrs cdma_ctx sq wr NULL False 0 (emit (EvLock jfs) s);
     let s2 = (if wr_cnt = 0 then s1
               else (let s1' = emit EvBarrierSt s1 in
                     if wr_cnt = 1 \<and> dwqe_enable \<and> q_pi sq' - q_ci sq' = 1
                     then cdma_write_dsqe cdma_ctx sq' dwqe_addr s1'
                     else cdma_update_sq_db sq' s1'));
     Some (ret, sq', bad_wr, emit (EvUnlock jfs) s2)
   }"

definition cdma_u_post_jfs_wr ::
  "ptr \<Rightarrow> dma_jfs_wr list \<Rightarrow> st \<Rightarrow> (int \<times> dma_jfs_wr option \<times> st) option" where
  "cdma_u_post_jfs_wr jfs wr s = do {
     let j = jfss s jfs;
     (ret, sq, bad_wr, s') \<leftarrow> cdma_post_sq_wr jfs (jfs_dma_ctx j) (jfs_sq j) wr s;
     Some (ret, bad_wr, s'\<lparr>jfss := (jfss s')(jfs := (jfss s' jfs)\<lparr>jfs_sq := sq\<rparr>)\<rparr>)
   }"


section \<open>The send queue as a ring\<close>

definition sq_wf :: "cdma_u_jetty_queue \<Rightarrow> bool" where
  "sq_wf sq \<longleftrightarrow> (\<exists>c. ring_geometry_is c 6 sq \<and> qbuf_curr sq = cdma_u_get_buf_entry sq (q_pi sq)
     \<and> unat (q_pi sq - q_ci sq) \<le> 2 ^ c \<and> unat (qbuf sq) + 2 ^ (c + 6) + 256 \<le> 2 ^ 64)"

definition sq_blocks :: "st \<Rightarrow> cdma_u_jetty_queue \<Rightarrow> u32 list list" where
  "sq_blocks s sq = window cdma_u_get_buf_entry (wqebbs s) sq (q_ci sq) (unat (q_pi sq - q_ci sq))"

definition sq_user_ctxs :: "st \<Rightarrow> cdma_u_jetty_queue \<Rightarrow> u64 list" where
  "sq_user_ctxs s sq = window wrid_slot (wrids s) sq (q_ci sq) (unat (q_pi sq - q_ci sq))"

lemma sq_wfE:
  assumes "sq_wf sq"
  obtains c where "ring_geometry_is c 6 sq" and "qbuf_curr sq = cdma_u_get_buf_entry sq (q_pi sq)"
    and "unat (q_pi sq - q_ci sq) \<le> 2 ^ c" and "unat (qbuf sq) + 2 ^ (c + 6) + 256 \<le> 2 ^ 64"
    and "c \<le> 25" and "(2 :: nat) ^ c \<le> 33554432"
proof -
  obtain c where c: "ring_geometry_is c 6 sq" "qbuf_curr sq = cdma_u_get_buf_entry sq (q_pi sq)"
    "unat (q_pi sq - q_ci sq) \<le> 2 ^ c" "unat (qbuf sq) + 2 ^ (c + 6) + 256 \<le> 2 ^ 64"
    using assms by (auto simp: sq_wf_def)
  then have c25: "c \<le> 25" by (simp add: ring_geometry_is_def)
  then have "(2 :: nat) ^ c \<le> 2 ^ 25" by (intro power_increasing) auto
  then show thesis using that [OF c c25] by simp
qed

lemma window_cong: "slot q = slot q' \<Longrightarrow> window slot m q n k = window slot m q' n k"
  by (simp add: window_def)

lemma ring_put_cong: "slot q = slot q' \<Longrightarrow> ring_put slot q n xs m = ring_put slot q' n xs m"
  by (induction xs arbitrary: n m) simp_all

lemma slots_pi_curr [simp]:
  "cdma_u_get_buf_entry (sq\<lparr>qbuf_curr := p, q_pi := i\<rparr>) = cdma_u_get_buf_entry sq"
  "wrid_slot (sq\<lparr>qbuf_curr := p, q_pi := i\<rparr>) = wrid_slot sq"
  "ring_geometry_is c sh (sq\<lparr>qbuf_curr := p, q_pi := i\<rparr>) = ring_geometry_is c sh sq"
  by (simp_all add: fun_eq_iff cdma_u_get_buf_entry_def wrid_slot_def ring_geometry_is_def)

lemma ring_put_append:
  "ring_put slot q n (xs @ ys) m = ring_put slot q (n + of_nat (length xs)) ys (ring_put slot q n xs m)"
  by (induction xs arbitrary: n m) (simp_all add: add.assoc)

lemma index_add:
  fixes n :: u32
  assumes g: "ring_geometry_is c sh q" and j: "unat n mod 2 ^ c + j < 2 ^ c"
  shows "unat (n + of_nat j) mod 2 ^ c = unat n mod 2 ^ c + j"
proof -
  have c31: "c \<le> 31" using ring_geometry_facts(5) [OF g] .
  have "(2 :: nat) ^ c dvd 2 ^ 32" by (rule le_imp_power_dvd) (use c31 in simp)
  then have "unat (n + of_nat j) mod 2 ^ c = (unat n + j) mod 2 ^ c" by (rule unat_add_of_nat_mod)
  also have "\<dots> = (unat n mod 2 ^ c + j) mod 2 ^ c" by (simp add: mod_add_left_eq)
  finally show ?thesis using j by simp
qed

lemma index_wrap:
  fixes n :: u32
  assumes g: "ring_geometry_is c sh q" and j: "unat n mod 2 ^ c + j = 2 ^ c + i" and i: "i < 2 ^ c"
  shows "unat (n + of_nat j) mod 2 ^ c = i"
proof -
  have c31: "c \<le> 31" using ring_geometry_facts(5) [OF g] .
  have "(2 :: nat) ^ c dvd 2 ^ 32" by (rule le_imp_power_dvd) (use c31 in simp)
  then have "unat (n + of_nat j) mod 2 ^ c = (unat n + j) mod 2 ^ c" by (rule unat_add_of_nat_mod)
  also have "\<dots> = (unat n mod 2 ^ c + j) mod 2 ^ c" by (simp add: mod_add_left_eq)
  finally show ?thesis using j i by simp
qed

lemma store_blocks_ring:
  assumes g: "ring_geometry_is c 6 sq" and room: "unat n mod 2 ^ c + length bs \<le> 2 ^ c"
  shows "store_blocks (cdma_u_get_buf_entry sq n) bs m = ring_put cdma_u_get_buf_entry sq n bs m"
  using room
proof (induction bs arbitrary: n m)
  case (Cons b bs)
  show ?case
  proof (cases bs)
    case Nil
    then show ?thesis by simp
  next
    case (Cons b' bs')
    then have i: "unat n mod 2 ^ c + 1 < 2 ^ c" using \<open>unat n mod 2 ^ c + length (b # bs) \<le> 2 ^ c\<close> by simp
    then have i': "unat (n + 1) mod 2 ^ c = unat n mod 2 ^ c + 1" using index_add [OF g, of n 1] by simp
    then have "cdma_u_get_buf_entry sq (n + 1) = cdma_u_get_buf_entry sq n + 64"
      unfolding get_buf_entry_eq(1) [OF g] by simp
    then show ?thesis using Cons.IH [of "n + 1"] Cons.prems i' by simp
  qed
qed simp

lemma entry_index0:
  assumes "ring_geometry_is c sh q" and "unat n mod 2 ^ c = 0"
  shows "cdma_u_get_buf_entry q n = qbuf q"
  using get_buf_entry_eq(1) [OF assms(1), of n] assms(2) by simp

lemma room_left:
  assumes wf: "sq_wf sq" and no: "\<not> check_sq_overflow sq n" and n: "unat n \<le> 4"
  shows "unat (q_pi sq - q_ci sq) + unat n \<le> ring_cap sq"
    and "unat (q_pi sq + n - q_ci sq) = unat (q_pi sq - q_ci sq) + unat n"
proof -
  obtain c where c: "ring_geometry_is c 6 sq" "unat (q_pi sq - q_ci sq) \<le> 2 ^ c" "(2 :: nat) ^ c \<le> 33554432"
    using wf by (rule sq_wfE)
  have u: "unat (q_pi sq - q_ci sq + n) = unat (q_pi sq - q_ci sq) + unat n"
    using c(2,3) n by (intro unat_add_u32_le) simp
  then show "unat (q_pi sq + n - q_ci sq) = unat (q_pi sq - q_ci sq) + unat n"
    by (simp add: algebra_simps)
  show "unat (q_pi sq - q_ci sq) + unat n \<le> ring_cap sq"
    using no u by (simp add: check_sq_overflow_def ring_cap_def not_less word_le_nat_alt)
qed

lemma cdma_copy_to_sq_ring:
  assumes wf: "sq_wf sq" and no: "\<not> check_sq_overflow sq n" and n: "unat n \<le> 4"
  shows "cdma_copy_to_sq sq n t s = (0, s\<lparr>wqebbs :=
           ring_put cdma_u_get_buf_entry sq (q_pi sq) (take (unat n) (tmp_blocks t)) (wqebbs s)\<rparr>)"
proof -
  obtain c where g: "ring_geometry_is c 6 sq" and curr: "qbuf_curr sq = cdma_u_get_buf_entry sq (q_pi sq)"
    using wf by (rule sq_wfE)
  note f = ring_geometry_facts [OF g]
  let ?i = "unat (q_pi sq) mod 2 ^ c"
  let ?bs = "tmp_blocks t"
  have lbs: "length ?bs = 4" by (simp add: tmp_blocks_def)
  have i: "?i < 2 ^ c" by simp
  have cap: "unat n \<le> 2 ^ c" using room_left(1) [OF wf no n] f(6) by simp
  have rem: "unat (baseblk_cnt sq - (q_pi sq AND baseblk_mask sq)) = 2 ^ c - ?i"
    using f(3,7) i by (subst unat_sub) (simp_all add: word_le_nat_alt)
  let ?rem = "baseblk_cnt sq - (q_pi sq AND baseblk_mask sq)"
  show ?thesis
  proof (cases "?rem > n")
    case True
    then have "?i + unat n \<le> 2 ^ c" using rem by (simp add: word_less_nat_alt)
    then have "store_blocks (qbuf_curr sq) (take (unat n) ?bs) (wqebbs s)
        = ring_put cdma_u_get_buf_entry sq (q_pi sq) (take (unat n) ?bs) (wqebbs s)"
      unfolding curr by (intro store_blocks_ring [OF g]) (simp add: lbs)
    then show ?thesis using True no by (simp add: cdma_copy_to_sq_def Let_def)
  next
    case False
    let ?tl = "2 ^ c - ?i" let ?hd = "unat n - ?tl"
    have le: "?tl \<le> unat n" using False rem by (simp add: word_less_nat_alt)
    then have hd: "unat (n - ?rem) = ?hd" using rem by (subst unat_sub) (simp_all add: word_le_nat_alt)
    have t1: "store_blocks (qbuf_curr sq) (take ?tl ?bs) (wqebbs s)
        = ring_put cdma_u_get_buf_entry sq (q_pi sq) (take ?tl ?bs) (wqebbs s)"
    proof -
      have "length (take ?tl ?bs) \<le> ?tl" "?i + ?tl = 2 ^ c" using i by simp_all
      then show ?thesis unfolding curr by (intro store_blocks_ring [OF g]) linarith
    qed
    have w: "unat (q_pi sq + of_nat ?tl) mod 2 ^ c = 0" using index_wrap [OF g, of "q_pi sq" ?tl 0] i by simp
    have t2: "store_blocks (qbuf sq) (take ?hd (drop ?tl ?bs)) m
        = ring_put cdma_u_get_buf_entry sq (q_pi sq + of_nat ?tl) (take ?hd (drop ?tl ?bs)) m" for m
    proof -
      have "length (take ?hd (drop ?tl ?bs)) \<le> ?hd" by (simp only: length_take min.cobounded2)
      then have "unat (q_pi sq + of_nat ?tl) mod 2 ^ c + length (take ?hd (drop ?tl ?bs)) \<le> 2 ^ c"
        unfolding w using cap by linarith
      from store_blocks_ring [OF g this] show ?thesis unfolding entry_index0 [OF g w] .
    qed
    have sp: "take (unat n) ?bs = take ?tl ?bs @ take ?hd (drop ?tl ?bs)"
      using le by (metis add_diff_inverse_nat not_less take_add)
    have ltl: "length (take ?tl ?bs) = ?tl" using le n lbs by simp
    have t3: "(if n - ?rem \<noteq> 0 then store_blocks (qbuf sq) (take ?hd (drop ?tl ?bs)) m else m)
        = ring_put cdma_u_get_buf_entry sq (q_pi sq + of_nat ?tl) (take ?hd (drop ?tl ?bs)) m" for m
      using t2 [of m] hd by (auto simp: word_unat_eq_iff)
    have e: "ring_put cdma_u_get_buf_entry sq (q_pi sq) (take (unat n) ?bs) (wqebbs s)
        = (if n - ?rem \<noteq> 0 then store_blocks (qbuf sq) (take ?hd (drop ?tl ?bs))
             (store_blocks (qbuf_curr sq) (take ?tl ?bs) (wqebbs s))
           else store_blocks (qbuf_curr sq) (take ?tl ?bs) (wqebbs s))"
      unfolding sp ring_put_append ltl t1 t3 ..
    show ?thesis
      unfolding cdma_copy_to_sq_def Let_def e using False no rem hd by simp
  qed
qed

lemma cdma_update_ptr_ring:
  assumes wf: "sq_wf sq" and n: "unat n \<le> 4" "unat n \<le> ring_cap sq"
  shows "cdma_update_ptr (qbuf_curr sq) (push_bit (unat (baseblk_shift sq)) n) (qbuf sq) (qbuf sq + ucast (qbuf_size sq))
           = cdma_u_get_buf_entry sq (q_pi sq + n)"
proof -
  obtain c where g: "ring_geometry_is c 6 sq" and curr: "qbuf_curr sq = cdma_u_get_buf_entry sq (q_pi sq)"
    and room: "unat (qbuf sq) + 2 ^ (c + 6) + 256 \<le> 2 ^ 64"
    using wf by (rule sq_wfE)
  note f = ring_geometry_facts [OF g]
  let ?i = "unat (q_pi sq) mod 2 ^ c"
  have i: "?i < 2 ^ c" by simp
  have pw: "(2 :: nat) ^ (c + 6) = 2 ^ c * 64" by (simp add: power_add)
  have inc: "unat (push_bit (unat (baseblk_shift sq)) n) = unat n * 64"
    using f(2) n(1) unat_push_bit [of n 6] by simp
  have e: "x < 2 ^ 64 \<Longrightarrow> unat (of_nat x :: u64) = x" for x using unat_of_nat [of x, where 'a = 64] by simp
  have addr: "unat (qbuf sq + of_nat j) = unat (qbuf sq) + j" if "j < 2 ^ c * 64 + 256" for j
    using that room pw e [of j] by (subst unat_add_u64_le) simp_all
  have cur: "qbuf_curr sq = qbuf sq + of_nat (?i * 64)"
    using get_buf_entry_eq(1) [OF g, of "q_pi sq"] curr by simp
  have incw: "(ucast (push_bit (unat (baseblk_shift sq)) n) :: u64) = of_nat (unat n * 64)"
  proof -
    have "unat n * 64 < 2 ^ 64" using n(1) by simp
    then show ?thesis using inc e by (simp only: word_unat_eq_iff unat_ucast_u64)
  qed
  have p: "qbuf_curr sq + ucast (push_bit (unat (baseblk_shift sq)) n) = qbuf sq + of_nat ((?i + unat n) * 64)"
    unfolding cur incw by (simp add: algebra_simps)
  have endw: "(ucast (qbuf_size sq) :: u64) = of_nat (2 ^ c * 64)"
  proof -
    have "2 ^ c * 64 < (2 :: nat) ^ 64" using room pw by linarith
    then show ?thesis using f(4) pw e by (simp only: word_unat_eq_iff unat_ucast_u64)
  qed
  have u1: "unat (qbuf sq + of_nat ((?i + unat n) * 64)) = unat (qbuf sq) + (?i + unat n) * 64"
  proof (rule addr)
    have "?i * 64 < 2 ^ c * 64" using i by simp
    then show "(?i + unat n) * 64 < 2 ^ c * 64 + 256" unfolding add_mult_distrib using n(1) by linarith
  qed
  have u2: "unat (qbuf sq + of_nat (2 ^ c * 64)) = unat (qbuf sq) + 2 ^ c * 64"
    by (intro addr) simp
  show ?thesis
  proof (cases "?i + unat n < 2 ^ c")
    case True
    then have "unat (q_pi sq + n) mod 2 ^ c = ?i + unat n" using index_add [OF g True] by simp
    then have "cdma_u_get_buf_entry sq (q_pi sq + n) = qbuf sq + of_nat ((?i + unat n) * 64)"
      using get_buf_entry_eq(1) [OF g, of "q_pi sq + n"] by simp
    then show ?thesis using True u1 u2 unfolding cdma_update_ptr_def p endw
      by (simp add: word_less_nat_alt del: of_nat_mult of_nat_add)
  next
    case False
    let ?k = "?i + unat n - 2 ^ c"
    have k: "?k < 2 ^ c" using i n(2) f(6) by linarith
    have "?i + unat n = 2 ^ c + ?k" using False by simp
    then have "unat (q_pi sq + n) mod 2 ^ c = ?k"
      using index_wrap [OF g _ k, of "q_pi sq" "unat n"] by simp
    then have "cdma_u_get_buf_entry sq (q_pi sq + n) = qbuf sq + of_nat (?k * 64)"
      using get_buf_entry_eq(1) [OF g, of "q_pi sq + n"] by simp
    moreover have "(?i + unat n) * 64 = ?k * 64 + 2 ^ c * 64" using False by (simp add: algebra_simps)
    ultimately show ?thesis using False u1 u2 unfolding cdma_update_ptr_def p endw
      by (simp add: word_less_nat_alt del: of_nat_mult)
  qed
qed


section \<open>The abstract queue\<close>

text \<open>
  What posting means, without the ring: a request is refused, or becomes the blocks of its
  element; a chain appends the blocks of its elements, each with its user context, up to the
  first one that is refused or for which there is no room.
\<close>

definition wr_encode :: "(ptr \<Rightarrow> u8) \<Rightarrow> cdma_u_jetty_queue \<Rightarrow> dma_jfs_wr \<Rightarrow> (int + u32 list list) option" where
  "wr_encode m sq wr = do {
     let opcode = cdma_parse_jfs_opcode (wr_opcode wr);
     if opcode = CDMA_OPCODE_INVALID then Some (Inl (- EINVAL))
     else do {
       bad_sge \<leftarrow> cdma_check_sge_num opcode sq wr;
       if bad_sge then Some (Inl (- EINVAL))
       else do {
         (ret, t) \<leftarrow> cdma_set_sqe m (replicate 64 0) sq wr opcode;
         Some (if ret \<noteq> 0 then Inl ret
               else Inr (take (unat (min (cdma_get_wqebb_cnt wr t) MAX_SQE_BB_NUM)) (tmp_blocks t)))
       }
     }
   }"

fun wr_stream ::
  "(ptr \<Rightarrow> u8) \<Rightarrow> cdma_u_jetty_queue \<Rightarrow> dma_jfs_wr list
     \<Rightarrow> (u32 list list \<times> u64 list \<times> int \<times> dma_jfs_wr option \<times> nat) option" where
  "wr_stream m sq [] = Some ([], [], 0, None, 0)"
| "wr_stream m sq (wr # wrs) = do {
     e \<leftarrow> wr_encode m sq wr;
     case e of Inl err \<Rightarrow> Some ([], [], err, Some wr, 0)
     | Inr bs \<Rightarrow>
         (if check_sq_overflow sq (of_nat (length bs)) then Some ([], [], - ENOMEM, Some wr, 0)
          else do {
            (bss, cs, r, bad, k) \<leftarrow> wr_stream m (sq\<lparr>q_pi := q_pi sq + of_nat (length bs)\<rparr>) wrs;
            Some (bs @ bss, replicate (length bs) (wr_user_ctx wr) @ cs, r, bad, Suc k)
          })
   }"

lemma wqebb_cnt_range:
  "1 \<le> unat (min (cdma_get_wqebb_cnt wr t) 4)" "unat (min (cdma_get_wqebb_cnt wr t) 4) \<le> 4"
proof -
  have L: "cdma_get_ctl_len op = 48 \<or> cdma_get_ctl_len op = 80" for op by (simp add: cdma_get_ctl_len_def)
  have n: "unat (cdma_get_normal_sge_num op t) \<le> 255" for op
    using sge_num_le [of t] by (simp add: cdma_get_normal_sge_num_def)
  have "1 \<le> unat (cdma_get_wqebb_cnt wr t)"
    unfolding cdma_get_wqebb_cnt_def using cal_wqebb_num [OF n L] by simp
  then show "1 \<le> unat (min (cdma_get_wqebb_cnt wr t) 4)" by (simp add: min_def)
  show "unat (min (cdma_get_wqebb_cnt wr t) 4) \<le> 4" by (simp add: min_def word_le_nat_alt)
qed

lemma length_encoded:
  assumes "wr_encode m sq wr = Some (Inr bs)"
  shows "1 \<le> length bs \<and> length bs \<le> 4"
proof -
  obtain t where "bs = take (unat (min (cdma_get_wqebb_cnt wr t) MAX_SQE_BB_NUM)) (tmp_blocks t)"
    using assms by (auto simp: wr_encode_def Let_def bind_eq_Some_conv split: if_splits)
  moreover have "length (tmp_blocks t) = 4" by (simp add: tmp_blocks_def)
  ultimately show ?thesis using wqebb_cnt_range [of wr t] by simp
qed

lemma wr_encode_cong:
  assumes "q_pi sq' = q_pi sq" and "baseblk_cnt sq' = baseblk_cnt sq" and "q_max_sge_num sq' = q_max_sge_num sq"
  shows "wr_encode m sq' wr = wr_encode m sq wr"
proof -
  have "sqe_common sq' wr op t = sqe_common sq wr op t" for op t by (simp only: sqe_common_def assms(1,2))
  moreover have "cdma_check_sge_num op sq' wr = cdma_check_sge_num op sq wr" for op
    by (simp only: cdma_check_sge_num_def assms(3))
  ultimately show ?thesis by (simp only: wr_encode_def cdma_set_sqe_def)
qed

lemma wr_stream_cong:
  assumes "q_pi sq' = q_pi sq" and "q_ci sq' = q_ci sq" and "baseblk_cnt sq' = baseblk_cnt sq"
    and "q_max_sge_num sq' = q_max_sge_num sq"
  shows "wr_stream m sq' wrs = wr_stream m sq wrs"
  using assms
proof (induction wrs arbitrary: sq sq')
  case (Cons wr wrs)
  have e: "wr_encode m sq' wr = wr_encode m sq wr" by (rule wr_encode_cong) (use Cons.prems in auto)
  have o: "check_sq_overflow sq' n = check_sq_overflow sq n" for n
    using Cons.prems by (simp add: check_sq_overflow_def)
  have "wr_stream m (sq'\<lparr>q_pi := q_pi sq' + n\<rparr>) wrs = wr_stream m (sq\<lparr>q_pi := q_pi sq + n\<rparr>) wrs" for n
    by (rule Cons.IH) (use Cons.prems in auto)
  then show ?case by (simp add: e o cong: if_cong)
qed simp

definition post_result ::
  "ptr \<Rightarrow> cdma_u_jetty_queue \<Rightarrow> dma_jfs_wr \<Rightarrow> ptr \<Rightarrow> bool \<Rightarrow> st \<Rightarrow> u32 list list
     \<Rightarrow> int \<times> cdma_u_jetty_queue \<times> ptr \<times> bool \<times> st" where
  "post_result ctx sq wr a e s bs =
     (0, sq\<lparr>qbuf_curr := cdma_u_get_buf_entry sq (q_pi sq + of_nat (length bs)), q_pi := q_pi sq + of_nat (length bs)\<rparr>,
      qbuf_curr sq, e \<or> length bs = 1 \<and> ctx_dwqe_enable (ctxs s ctx) \<noteq> 0,
      s\<lparr>wqebbs := ring_put cdma_u_get_buf_entry sq (q_pi sq) bs (wqebbs s),
        wrids := ring_put wrid_slot sq (q_pi sq) (replicate (length bs) (wr_user_ctx wr)) (wrids s)\<rparr>)"

lemma post_one_encodes:
  assumes wf: "sq_wf sq"
  shows "cdma_post_one_wr ctx sq wr a e s = do {
     x \<leftarrow> wr_encode (umem s) sq wr;
     case x of Inl err \<Rightarrow> Some (err, sq, a, e, s)
     | Inr bs \<Rightarrow>
         Some (if check_sq_overflow sq (of_nat (length bs))
               then (- ENOMEM, sq, a, e \<or> length bs = 1 \<and> ctx_dwqe_enable (ctxs s ctx) \<noteq> 0, s)
               else post_result ctx sq wr a e s bs)
   }"
proof -
  show ?thesis
  proof (cases "cdma_parse_jfs_opcode (wr_opcode wr) = CDMA_OPCODE_INVALID")
    case True
    then show ?thesis by (simp add: cdma_post_one_wr_def wr_encode_def Let_def)
  next
    case op: False
    show ?thesis
    proof (cases "cdma_check_sge_num (cdma_parse_jfs_opcode (wr_opcode wr)) sq wr = Some False")
      case False
      then show ?thesis using op
        by (cases "cdma_check_sge_num (cdma_parse_jfs_opcode (wr_opcode wr)) sq wr")
           (auto simp: cdma_post_one_wr_def wr_encode_def Let_def)
    next
      case chk: True
      show ?thesis
      proof (cases "cdma_set_sqe (umem s) (replicate 64 0) sq wr (cdma_parse_jfs_opcode (wr_opcode wr))")
        case None
        then show ?thesis using op chk by (simp add: cdma_post_one_wr_def wr_encode_def Let_def)
      next
        case (Some rt)
        obtain r t where rt: "rt = (r, t)" by (cases rt)
        let ?n = "min (cdma_get_wqebb_cnt wr t) 4"
        have cap: "(if cdma_get_wqebb_cnt wr t > 4 then 4 else cdma_get_wqebb_cnt wr t) = ?n" by (auto simp: min_def)
        have len: "length (take (unat ?n) (tmp_blocks t)) = unat ?n"
          using wqebb_cnt_range(2) [of wr t] by (simp add: tmp_blocks_def)
        have c1: "cdma_get_wqebb_cnt wr t = 1 \<longleftrightarrow> unat ?n = 1"
          by (auto simp: min_def word_unat_eq_iff word_le_nat_alt)
        show ?thesis
        proof (cases "r = 0")
          case False
          then show ?thesis using op chk Some rt by (simp add: cdma_post_one_wr_def wr_encode_def Let_def)
        next
          case True
          have "cdma_post_one_wr ctx sq wr a e s
              = Some (if check_sq_overflow sq ?n then (- ENOMEM, sq, a, e \<or> unat ?n = 1 \<and> ctx_dwqe_enable (ctxs s ctx) \<noteq> 0, s)
                 else post_result ctx sq wr a e s (take (unat ?n) (tmp_blocks t)))"
          proof (cases "check_sq_overflow sq ?n")
            case ov: True
            then have "cdma_copy_to_sq sq ?n t s = (- ENOMEM, s)" by (simp add: cdma_copy_to_sq_def Let_def)
            then show ?thesis
              using op chk Some rt True c1 ov by (cases e) (simp_all add: cdma_post_one_wr_def Let_def cap)
          next
            case no: False
            note n4 = wqebb_cnt_range(2) [of wr t]
            have pr: "post_result ctx sq wr a e s (take (unat ?n) (tmp_blocks t)) =
                (0, sq\<lparr>qbuf_curr := cdma_u_get_buf_entry sq (q_pi sq + ?n), q_pi := q_pi sq + ?n\<rparr>,
                 qbuf_curr sq, e \<or> unat ?n = 1 \<and> ctx_dwqe_enable (ctxs s ctx) \<noteq> 0,
                 s\<lparr>wqebbs := ring_put cdma_u_get_buf_entry sq (q_pi sq) (take (unat ?n) (tmp_blocks t)) (wqebbs s),
                   wrids := ring_put wrid_slot sq (q_pi sq) (replicate (unat ?n) (wr_user_ctx wr)) (wrids s)\<rparr>)"
              unfolding post_result_def len by simp
            have "unat ?n \<le> ring_cap sq" using room_left(1) [OF wf no n4] by simp
            then show ?thesis
              using op chk Some rt True c1 no cdma_copy_to_sq_ring [OF wf no n4, of t s] cdma_update_ptr_ring [OF wf n4]
              by (simp add: cdma_post_one_wr_def Let_def cap pr disj_commute)
          qed
          moreover have "wr_encode (umem s) sq wr = Some (Inr (take (unat ?n) (tmp_blocks t)))"
            using op chk Some rt True by (simp add: wr_encode_def Let_def)
          ultimately show ?thesis using len by simp
        qed
      qed
    qed
  qed
qed


text \<open>
  \<open>posted ctx sq s e k bss cs sq' a' e' s'\<close>: \<open>k\<close> elements have been appended to the queue, whose
  blocks are \<open>bss\<close> and whose contexts are \<open>cs\<close>, and nothing else has changed.
\<close>

definition posted ::
  "ptr \<Rightarrow> cdma_u_jetty_queue \<Rightarrow> st \<Rightarrow> bool \<Rightarrow> nat \<Rightarrow> u32 list list \<Rightarrow> u64 list
     \<Rightarrow> cdma_u_jetty_queue \<Rightarrow> ptr \<Rightarrow> bool \<Rightarrow> st \<Rightarrow> bool" where
  "posted ctx sq s e k bss cs sq' a' e' s' \<longleftrightarrow> sq_wf sq'
     \<and> sq_blocks s' sq' = sq_blocks s sq @ bss \<and> sq_user_ctxs s' sq' = sq_user_ctxs s sq @ cs
     \<and> sq' = sq\<lparr>qbuf_curr := qbuf_curr sq', q_pi := q_pi sq'\<rparr>
     \<and> unat (q_pi sq' - q_ci sq) = unat (q_pi sq - q_ci sq) + length bss
     \<and> s' = s\<lparr>wqebbs := wqebbs s', wrids := wrids s'\<rparr>
     \<and> (k = 1 \<longrightarrow> a' = qbuf_curr sq) \<and> (e' \<longrightarrow> e \<or> ctx_dwqe_enable (ctxs s ctx) \<noteq> 0)
     \<and> (e \<longrightarrow> e') \<and> (length bss = 1 \<and> ctx_dwqe_enable (ctxs s ctx) \<noteq> 0 \<longrightarrow> e')
     \<and> k \<le> length bss \<and> (k = 0 \<longrightarrow> bss = [])"

lemma sq_pi_eq: "q_ci (sq :: cdma_u_jetty_queue) + of_nat (unat (q_pi sq - q_ci sq)) = q_pi sq"
  by (simp del: of_nat_add)

lemma sq_wf_advance:
  assumes wf: "sq_wf sq" and no: "\<not> check_sq_overflow sq n" and n: "unat n \<le> 4"
  shows "sq_wf (sq\<lparr>qbuf_curr := cdma_u_get_buf_entry sq (q_pi sq + n), q_pi := q_pi sq + n\<rparr>)"
proof -
  obtain c where c: "ring_geometry_is c 6 sq" "unat (qbuf sq) + 2 ^ (c + 6) + 256 \<le> 2 ^ 64"
    using wf by (rule sq_wfE)
  have "unat (q_pi sq + n - q_ci sq) \<le> 2 ^ c"
    using room_left [OF wf no n] ring_geometry_facts(6) [OF c(1)] by simp
  then show ?thesis using c unfolding sq_wf_def by (intro exI [of _ c]) simp
qed

lemma sq_wf_ring: "sq_wf sq \<Longrightarrow> ring_wf sq"
  by (auto simp: sq_wf_def ring_wf_def)

lemma post_result_posted:
  assumes wf: "sq_wf sq" and no: "\<not> check_sq_overflow sq (of_nat (length bs))"
    and len: "1 \<le> length bs" "length bs \<le> 4" and r: "post_result ctx sq wr a e s bs = (r, sq', a', e', s')"
  shows "r = 0 \<and> posted ctx sq s e 1 bs (replicate (length bs) (wr_user_ctx wr)) sq' a' e' s'
    \<and> q_pi sq' = q_pi sq + of_nat (length bs)"
proof -
  let ?n = "of_nat (length bs) :: u32" let ?k = "unat (q_pi sq - q_ci sq)"
  have un: "unat ?n = length bs" using len(2) unat_of_nat [of "length bs", where 'a = 32] by simp
  note room = room_left [OF wf no, unfolded un, OF len(2)]
  have sq': "sq' = sq\<lparr>qbuf_curr := cdma_u_get_buf_entry sq (q_pi sq + ?n), q_pi := q_pi sq + ?n\<rparr>"
    and s': "s' = s\<lparr>wqebbs := ring_put cdma_u_get_buf_entry sq (q_pi sq) bs (wqebbs s),
        wrids := ring_put wrid_slot sq (q_pi sq) (replicate (length bs) (wr_user_ctx wr)) (wrids s)\<rparr>"
    and r0: "r = 0" and a': "a' = qbuf_curr sq"
    and e': "e' \<longleftrightarrow> e \<or> length bs = 1 \<and> ctx_dwqe_enable (ctxs s ctx) \<noteq> 0"
    using r by (auto simp: post_result_def)
  have wf': "sq_wf sq'" unfolding sq' by (rule sq_wf_advance [OF wf no]) (simp add: un len)
  have w: "window slot m sq' n k = window slot m sq n k" if "slot = cdma_u_get_buf_entry \<or> slot = wrid_slot"
    for slot and m :: "ptr \<Rightarrow> 'v" and n k
    by (rule window_cong) (use that sq' in auto)
  have "sq_blocks s' sq' = window cdma_u_get_buf_entry (wqebbs s') sq (q_ci sq) (?k + length bs)"
    unfolding sq_blocks_def w [OF disjI1 [OF refl]] using room(2) by (simp add: sq')
  also have "\<dots> = sq_blocks s sq @ bs"
    using blocks.window_append [OF sq_wf_ring [OF wf] room(1), of "q_ci sq" "wqebbs s"]
    unfolding sq_pi_eq by (simp add: sq_blocks_def s')
  finally have b: "sq_blocks s' sq' = sq_blocks s sq @ bs" .
  have "sq_user_ctxs s' sq' = window wrid_slot (wrids s') sq (q_ci sq) (?k + length bs)"
    unfolding sq_user_ctxs_def w [OF disjI2 [OF refl]] using room(2) by (simp add: sq')
  also have "\<dots> = sq_user_ctxs s sq @ replicate (length bs) (wr_user_ctx wr)"
    using wrid.window_append [OF sq_wf_ring [OF wf], of ?k "replicate (length bs) (wr_user_ctx wr)" "q_ci sq" "wrids s"] room(1)
    unfolding sq_pi_eq by (simp add: sq_user_ctxs_def s')
  finally have c: "sq_user_ctxs s' sq' = sq_user_ctxs s sq @ replicate (length bs) (wr_user_ctx wr)" .
  show ?thesis
    using wf' b c room(2) r0 a' e' len(1) unfolding posted_def by (simp add: sq' s')
qed

lemma posted_refl:
  assumes "sq_wf sq" and "e' = (e \<or> e'')" and "e'' \<longrightarrow> ctx_dwqe_enable (ctxs s ctx) \<noteq> 0"
  shows "posted ctx sq s e 0 [] [] sq a e' s"
  using assms by (auto simp: posted_def)

lemma posted_frame:
  assumes "posted ctx sq s e k bs cs sq' a' e' s'"
  obtains x y m w where "sq' = sq\<lparr>qbuf_curr := x, q_pi := y\<rparr>" and "s' = s\<lparr>wqebbs := m, wrids := w\<rparr>"
  using assms unfolding posted_def by blast

lemma posted_trans:
  assumes p: "posted ctx sq s e 1 bs cs sq1 a1 e1 s1" and q: "posted ctx sq1 s1 e1 k bs' cs' sq2 a2 e2 s2"
    and a: "k = 0 \<Longrightarrow> a2 = a1"
  shows "posted ctx sq s e (Suc k) (bs @ bs') (cs @ cs') sq2 a2 e2 s2"
proof -
  obtain x y m w where 1: "sq1 = sq\<lparr>qbuf_curr := x, q_pi := y\<rparr>" "s1 = s\<lparr>wqebbs := m, wrids := w\<rparr>"
    using p by (rule posted_frame)
  obtain x' y' m' w' where 2: "sq2 = sq1\<lparr>qbuf_curr := x', q_pi := y'\<rparr>" "s2 = s1\<lparr>wqebbs := m', wrids := w'\<rparr>"
    using q by (rule posted_frame)
  have fr: "sq2 = sq\<lparr>qbuf_curr := qbuf_curr sq2, q_pi := q_pi sq2\<rparr>" "s2 = s\<lparr>wqebbs := wqebbs s2, wrids := wrids s2\<rparr>"
    and c: "q_ci sq1 = q_ci sq" "ctxs s1 = ctxs s"
    using 1 2 by simp_all
  show ?thesis
    using p q a fr unfolding posted_def c by auto
qed

lemma post_wrs_stream:
  assumes "sq_wf sq"
  shows "case wr_stream (umem s) sq wrs of
      None \<Rightarrow> post_wrs ctx sq wrs a e n s = None
    | Some (bss, cs, r, bad, k) \<Rightarrow>
        \<exists>sq' a' e' s'. post_wrs ctx sq wrs a e n s = Some (r, sq', a', e', s', bad, n + k)
          \<and> posted ctx sq s e k bss cs sq' a' e' s' \<and> (k = 0 \<longrightarrow> a' = a)"
  using assms
proof (induction wrs arbitrary: sq s a e n)
  case Nil
  then show ?case using posted_refl [OF Nil, of e e False s ctx] by simp
next
  case (Cons wr wrs)
  note step = post_one_encodes [OF Cons.prems, of ctx wr a e s]
  show ?case
  proof (cases "wr_encode (umem s) sq wr")
    case None
    then show ?thesis using step by simp
  next
    case enc: (Some z)
    show ?thesis
    proof (cases z)
      case (Inl err)
      then have "err \<noteq> 0" using enc by (auto simp: wr_encode_def Let_def bind_eq_Some_conv split: if_splits)
      then show ?thesis using step enc Inl posted_refl [OF Cons.prems, of e e False s ctx] by simp
    next
      case (Inr bs)
      note len = length_encoded [OF enc [unfolded Inr]]
      show ?thesis
      proof (cases "check_sq_overflow sq (of_nat (length bs))")
        case True
        then show ?thesis
          using step enc Inr
            posted_refl [OF Cons.prems, of _ e "length bs = 1 \<and> ctx_dwqe_enable (ctxs s ctx) \<noteq> 0" s ctx] by simp
      next
        case False
        obtain r1 sq1 a1 e1 s1 where pr: "post_result ctx sq wr a e s bs = (r1, sq1, a1, e1, s1)"
          by (cases "post_result ctx sq wr a e s bs")
        have p: "r1 = 0" "posted ctx sq s e 1 bs (replicate (length bs) (wr_user_ctx wr)) sq1 a1 e1 s1"
            "q_pi sq1 = q_pi sq + of_nat (length bs)"
          using post_result_posted [OF Cons.prems False _ _ pr] len by simp_all
        have one: "cdma_post_one_wr ctx sq wr a e s = Some (0, sq1, a1, e1, s1)"
          using step enc Inr False pr p(1) by simp
        have wf1: "sq_wf sq1" using p(2) by (simp add: posted_def)
        obtain x y m w where 1: "sq1 = sq\<lparr>qbuf_curr := x, q_pi := y\<rparr>" "s1 = s\<lparr>wqebbs := m, wrids := w\<rparr>"
          using p(2) by (rule posted_frame)
        have str: "wr_stream (umem s1) sq1 wrs = wr_stream (umem s) (sq\<lparr>q_pi := q_pi sq + of_nat (length bs)\<rparr>) wrs"
          using 1 p(3) wr_stream_cong [of sq1 "sq\<lparr>q_pi := q_pi sq + of_nat (length bs)\<rparr>"] by simp
        show ?thesis
        proof (cases "wr_stream (umem s1) sq1 wrs")
          case None
          then show ?thesis using Cons.IH [OF wf1, where s = s1 and a = a1 and e = e1 and n = "n + 1"] None one enc Inr False str by simp
        next
          case (Some y)
          obtain bss cs r bad k where y: "y = (bss, cs, r, bad, k)" by (cases y)
          obtain sq2 a2 e2 s2 where 2: "post_wrs ctx sq1 wrs a1 e1 (n + 1) s1 = Some (r, sq2, a2, e2, s2, bad, n + 1 + k)"
              "posted ctx sq1 s1 e1 k bss cs sq2 a2 e2 s2" "k = 0 \<longrightarrow> a2 = a1"
            using Cons.IH [OF wf1, where s = s1 and a = a1 and e = e1 and n = "n + 1"] Some y by auto
          have "posted ctx sq s e (Suc k) (bs @ bss) (replicate (length bs) (wr_user_ctx wr) @ cs) sq2 a2 e2 s2"
            using posted_trans [OF p(2) 2(2)] 2(3) by simp
          moreover have "wr_stream (umem s) (sq\<lparr>q_pi := q_pi sq + of_nat (length bs)\<rparr>) wrs = Some (bss, cs, r, bad, k)"
            using str Some y by simp
          ultimately show ?thesis using 2(1) one enc Inr False by simp
        qed
      qed
    qed
  qed
qed

text \<open>
  The device is told by one store: of the element itself when it is the only block of the
  queue and the context allows direct WQEs, of the producer index otherwise.
\<close>

definition post_direct :: "ptr \<Rightarrow> st \<Rightarrow> nat \<Rightarrow> u32 list list \<Rightarrow> bool" where
  "post_direct ctx s k blocks \<longleftrightarrow> k = 1 \<and> length blocks = 1 \<and> ctx_dwqe_enable (ctxs s ctx) \<noteq> 0"

definition post_store :: "ptr \<Rightarrow> st \<Rightarrow> cdma_u_jetty_queue \<Rightarrow> nat \<Rightarrow> u32 list list \<Rightarrow> u32 \<Rightarrow> event list" where
  "post_store ctx s sq k blocks pi =
     (if k = 0 then []
      else if post_direct ctx s k blocks
      then [EvMmioBlock (q_dwqe_addr sq) (ctl_set F_sqe_bb_idx pi (hd blocks)), EvBarrierSt]
      else [EvMmio32 (db_addr (q_db sq) + CDMA_DOORBELL_OFFSET) pi, EvBarrierSt])"

definition blocks_after :: "ptr \<Rightarrow> st \<Rightarrow> nat \<Rightarrow> u32 list list \<Rightarrow> u32 \<Rightarrow> u32 list list" where
  "blocks_after ctx s k blocks pi =
     (if post_direct ctx s k blocks then [ctl_set F_sqe_bb_idx pi (hd blocks)] else blocks)"

lemma unat_1_iff: "unat (x :: u32) = 1 \<longleftrightarrow> x = 1"
  by (simp add: word_unat_eq_iff)

lemma post_sq_spec:
  assumes wf: "sq_wf sq" and str: "wr_stream (umem s) sq wrs = Some (bss, cs, r, bad, k)"
  shows "\<exists>sq' s'. cdma_post_sq_wr jfs ctx sq wrs s = Some (r, sq', bad, s')
     \<and> sq_wf sq' \<and> q_ci sq' = q_ci sq \<and> unat (q_pi sq' - q_ci sq) = unat (q_pi sq - q_ci sq) + length bss
     \<and> sq_blocks s' sq' = blocks_after ctx s k (sq_blocks s sq @ bss) (q_pi sq')
     \<and> sq_user_ctxs s' sq' = sq_user_ctxs s sq @ cs
     \<and> tr s' = EvUnlock jfs # post_store ctx s sq k (sq_blocks s sq @ bss) (q_pi sq') @ EvLock jfs # tr s
     \<and> s' = s\<lparr>wqebbs := wqebbs s', wrids := wrids s', tr := tr s'\<rparr>"
proof -
  let ?s = "emit (EvLock jfs) s"
  have "wr_stream (umem ?s) sq wrs = Some (bss, cs, r, bad, k)" using str by simp
  with post_wrs_stream [OF wf, where s = ?s and wrs = wrs and ctx = ctx and a = NULL and e = False and n = 0] obtain sq' a' e' s1 where
    run: "post_wrs ctx sq wrs NULL False 0 ?s = Some (r, sq', a', e', s1, bad, k)"
    and p: "posted ctx sq ?s False k bss cs sq' a' e' s1" and k0: "k = 0 \<longrightarrow> a' = NULL"
    by auto
  obtain x y m w where 1: "sq' = sq\<lparr>qbuf_curr := x, q_pi := y\<rparr>" "s1 = ?s\<lparr>wqebbs := m, wrids := w\<rparr>"
    using p by (rule posted_frame)
  have wf': "sq_wf sq'" and bl: "sq_blocks s1 sq' = sq_blocks s sq @ bss"
    and cx: "sq_user_ctxs s1 sq' = sq_user_ctxs s sq @ cs"
    and un: "unat (q_pi sq' - q_ci sq) = unat (q_pi sq - q_ci sq) + length bss"
    using p by (simp_all add: posted_def sq_blocks_def sq_user_ctxs_def)
  have ci: "q_ci sq' = q_ci sq" using 1 by simp
  have lb: "length (sq_blocks s sq) = unat (q_pi sq - q_ci sq)" by (simp add: sq_blocks_def)
  have dir: "k = 1 \<and> e' \<and> q_pi sq' - q_ci sq' = 1 \<longleftrightarrow> post_direct ctx s k (sq_blocks s sq @ bss)"
  proof -
    have "q_pi sq' - q_ci sq' = 1 \<longleftrightarrow> unat (q_pi sq - q_ci sq) + length bss = 1"
      unfolding ci unat_1_iff [symmetric] un ..
    then show ?thesis using p lb unfolding post_direct_def posted_def by auto
  qed
  show ?thesis
  proof (cases "post_direct ctx s k (sq_blocks s sq @ bss)")
    case True
    then have k1: "k = 1" and one: "unat (q_pi sq' - q_ci sq) = 1" using lb un by (auto simp: post_direct_def)
    have ne: "length bss = 1" "unat (q_pi sq - q_ci sq) = 0"
      using True p lb by (auto simp: post_direct_def posted_def)
    then have pc: "q_pi sq = q_ci sq" by (simp only: unat_eq_0 right_minus_eq)
    then have a: "a' = cdma_u_get_buf_entry sq (q_ci sq)"
      using p k1 pc sq_wfE [OF wf] by (auto simp: posted_def)
    have slot: "cdma_u_get_buf_entry sq' = cdma_u_get_buf_entry sq" using 1 by simp
    have hd: "sq_blocks s sq @ bss = [m a']"
      using bl one unfolding sq_blocks_def ci one by (simp add: window_def slot a 1)
    let ?b = "ctl_set F_sqe_bb_idx (q_pi sq') (m a')"
    define s2 where "s2 = emit (EvUnlock jfs) (cdma_write_dsqe ctx sq' a' (emit EvBarrierSt s1))"
    have run2: "cdma_post_sq_wr jfs ctx sq wrs s = Some (r, sq', bad, s2)"
      using run k1 dir True by (simp add: cdma_post_sq_wr_def Let_def s2_def)
    have st2: "wqebbs s2 = m(a' := ?b)" "wrids s2 = wrids s1" "s2 = s\<lparr>wqebbs := m(a' := ?b), wrids := w, tr := tr s2\<rparr>"
        "tr s2 = EvUnlock jfs # EvMmioBlock (q_dwqe_addr sq) ?b # EvBarrierSt # EvLock jfs # tr s"
      using 1 by (simp_all add: s2_def cdma_write_dsqe_def Let_def cdma_st64b_def mmio_memcpy_x64_def emit_def)
    have b2: "sq_blocks s2 sq' = [?b]" by (simp add: sq_blocks_def ci one window_def slot a st2(1))
    have c2: "sq_user_ctxs s2 sq' = sq_user_ctxs s sq @ cs" using cx by (simp add: sq_user_ctxs_def st2(2))
    show ?thesis
      using run2 wf' ci un b2 c2 st2 True k1 unfolding hd blocks_after_def post_store_def by (intro exI [of _ sq'] exI [of _ s2]) simp
  next
    case False
    then show ?thesis
      using run dir wf' ci un cx bl 1 False
      by (auto simp: cdma_post_sq_wr_def Let_def cdma_update_sq_db_def
          blocks_after_def post_store_def sq_blocks_def sq_user_ctxs_def emit_def)
  qed
qed


section \<open>Properties\<close>

lemma post_jfs_spec:
  assumes wf: "sq_wf (jfs_sq (jfss s jfs))"
    and str: "wr_stream (umem s) (jfs_sq (jfss s jfs)) wrs = Some (bss, cs, r, bad, k)"
  shows "\<exists>s'. cdma_u_post_jfs_wr jfs wrs s = Some (r, bad, s') \<and>
     (let sq = jfs_sq (jfss s jfs); sq' = jfs_sq (jfss s' jfs); ctx = jfs_dma_ctx (jfss s jfs); all = sq_blocks s sq @ bss in
      sq_wf sq' \<and> q_ci sq' = q_ci sq \<and> unat (q_pi sq' - q_ci sq) = unat (q_pi sq - q_ci sq) + length bss
      \<and> sq_blocks s' sq' = blocks_after ctx s k all (q_pi sq') \<and> sq_user_ctxs s' sq' = sq_user_ctxs s sq @ cs
      \<and> tr s' = EvUnlock jfs # post_store ctx s sq k all (q_pi sq') @ EvLock jfs # tr s
      \<and> s' = s\<lparr>wqebbs := wqebbs s', wrids := wrids s', tr := tr s',
                jfss := (jfss s)(jfs := (jfss s jfs)\<lparr>jfs_sq := sq'\<rparr>)\<rparr>)"
proof -
  let ?sq = "jfs_sq (jfss s jfs)" let ?ctx = "jfs_dma_ctx (jfss s jfs)"
  from post_sq_spec [OF wf str, of jfs ?ctx] obtain sq' s1 where
    run: "cdma_post_sq_wr jfs ?ctx ?sq wrs s = Some (r, sq', bad, s1)"
    and p: "sq_wf sq'" "q_ci sq' = q_ci ?sq" "unat (q_pi sq' - q_ci ?sq) = unat (q_pi ?sq - q_ci ?sq) + length bss"
      "sq_blocks s1 sq' = blocks_after ?ctx s k (sq_blocks s ?sq @ bss) (q_pi sq')"
      "sq_user_ctxs s1 sq' = sq_user_ctxs s ?sq @ cs"
      "tr s1 = EvUnlock jfs # post_store ?ctx s ?sq k (sq_blocks s ?sq @ bss) (q_pi sq') @ EvLock jfs # tr s"
    and fr: "s1 = s\<lparr>wqebbs := wqebbs s1, wrids := wrids s1, tr := tr s1\<rparr>"
    by blast
  have js: "jfss s1 = jfss s" by (subst fr) simp
  let ?s' = "s1\<lparr>jfss := (jfss s)(jfs := (jfss s jfs)\<lparr>jfs_sq := sq'\<rparr>)\<rparr>"
  have "cdma_u_post_jfs_wr jfs wrs s = Some (r, bad, ?s')" using run by (simp add: cdma_u_post_jfs_wr_def Let_def js)
  moreover have "?s' = s\<lparr>wqebbs := wqebbs s1, wrids := wrids s1, tr := tr s1,
      jfss := (jfss s)(jfs := (jfss s jfs)\<lparr>jfs_sq := sq'\<rparr>)\<rparr>" by (subst fr) simp
  ultimately show ?thesis using p by (intro exI [of _ ?s']) (simp add: sq_blocks_def sq_user_ctxs_def)
qed

text \<open>
  C4: posting a chain of requests refines the abstract queue: the blocks of the elements that
  were accepted are appended to those in flight, with a user context for each block, the error
  and \<open>*bad_wr\<close> are those of the first request refused (for its form or for lack of room), the
  queue keeps its invariant (it is never over-filled), and nothing else in memory changes. Only
  \<open>sqe_bb_idx\<close> of a block that was written directly differs.
\<close>

theorem post_jfs_wr_refines:
  assumes "sq_wf (jfs_sq (jfss s jfs))"
    and "wr_stream (umem s) (jfs_sq (jfss s jfs)) wrs = Some (bss, cs, r, bad, k)"
  shows "\<exists>s'. cdma_u_post_jfs_wr jfs wrs s = Some (r, bad, s') \<and>
     (let sq = jfs_sq (jfss s jfs); sq' = jfs_sq (jfss s' jfs) in
      sq_wf sq' \<and> q_ci sq' = q_ci sq
      \<and> sq_blocks s' sq' = blocks_after (jfs_dma_ctx (jfss s jfs)) s k (sq_blocks s sq @ bss) (q_pi sq')
      \<and> sq_user_ctxs s' sq' = sq_user_ctxs s sq @ cs
      \<and> s' = s\<lparr>wqebbs := wqebbs s', wrids := wrids s', tr := tr s',
                jfss := (jfss s)(jfs := (jfss s jfs)\<lparr>jfs_sq := sq'\<rparr>)\<rparr>)"
  using post_jfs_spec [OF assms] unfolding Let_def by blast

text \<open>A queue of eight WQEBBs whose indices are about to wrap around.\<close>

definition demo_sq :: cdma_u_jetty_queue where
  "demo_sq = zero_jetty_queue\<lparr>qbuf := 0x100000, qbuf_size := 512, qbuf_curr := 0x100180, q_pi := 0xfffffffe,
     q_ci := 0xfffffffe, q_db := \<lparr>db_id = 7, db_type = CDMA_MMAP_JETTY_DSQE, db_addr = 0x500000\<rparr>,
     baseblk_shift := 6, baseblk_cnt := 8, baseblk_mask := 7, q_wrid := 0x300000, q_dwqe_addr := 0x500000,
     q_max_sge_num := 4\<rparr>"

definition demo_post_st :: st where
  "demo_post_st = init_st\<lparr>jfss := (\<lambda>_. zero_jfs)(0x200 := zero_jfs\<lparr>jfs_dma_ctx := 0x40, jfs_sq := demo_sq\<rparr>),
     ctxs := (\<lambda>_. zero_context)(0x40 := zero_context\<lparr>ctx_dwqe_enable := 1\<rparr>)\<rparr>"

lemma demo_sq_wf: "sq_wf (jfs_sq (jfss demo_post_st 0x200))"
proof -
  have "qbuf_curr demo_sq = cdma_u_get_buf_entry demo_sq (q_pi demo_sq)" by code_simp
  then have "sq_wf demo_sq" unfolding sq_wf_def
    by (intro exI [of _ 3]) (simp add: ring_geometry_is_def, simp add: demo_sq_def)
  then show ?thesis by (simp add: demo_post_st_def)
qed

lemma demo_stream:
  "map_option (\<lambda>(bss, cs, r, bad, k). (length bss, cs, r, bad = None, k))
     (wr_stream (umem demo_post_st) (jfs_sq (jfss demo_post_st 0x200))
        [demo_rw CDMA_WR_OPC_WRITE [demo_sge 0x1000 4] [demo_sge 0x9000 4], demo_cas 8])
   = Some (3, [0x77, 0x78, 0x78], 0, True, 2)"
  by code_simp

lemma post_jfs_wr_refines_witness:
  "\<exists>s'. cdma_u_post_jfs_wr 0x200 [demo_rw CDMA_WR_OPC_WRITE [demo_sge 0x1000 4] [demo_sge 0x9000 4], demo_cas 8] demo_post_st
      = Some (0, None, s') \<and> length (sq_blocks s' (jfs_sq (jfss s' 0x200))) = 3
      \<and> sq_user_ctxs s' (jfs_sq (jfss s' 0x200)) = [0x77, 0x78, 0x78]"
proof -
  have e: "sq_blocks demo_post_st (jfs_sq (jfss demo_post_st 0x200)) = []"
      "sq_user_ctxs demo_post_st (jfs_sq (jfss demo_post_st 0x200)) = []"
    by code_simp+
  show ?thesis
    using demo_stream post_jfs_wr_refines [OF demo_sq_wf]
    by (fastforce simp: e Let_def blocks_after_def post_direct_def)
qed

text \<open>
  C22: the device is told once, after a store barrier and under the lock, if and only if some
  element was posted: by a 64-byte store of the element, with the new producer index in it, to
  the direct-WQE page exactly when one element was posted, it is the only block of the queue and
  the context allows it; by the producer index in the doorbell register otherwise.
\<close>

theorem post_jfs_wr_doorbell:
  assumes "sq_wf (jfs_sq (jfss s jfs))"
    and "wr_stream (umem s) (jfs_sq (jfss s jfs)) wrs = Some (bss, cs, r, bad, k)"
  shows "\<exists>s'. cdma_u_post_jfs_wr jfs wrs s = Some (r, bad, s') \<and>
     tr s' = EvUnlock jfs # post_store (jfs_dma_ctx (jfss s jfs)) s (jfs_sq (jfss s jfs)) k
         (sq_blocks s (jfs_sq (jfss s jfs)) @ bss) (q_pi (jfs_sq (jfss s' jfs))) @ EvLock jfs # tr s"
  using post_jfs_spec [OF assms] unfolding Let_def by blast

lemma demo_stream1:
  "map_option (\<lambda>(bss, cs, r, bad, k). (length bss, r, bad = None, k))
     (wr_stream (umem demo_post_st) (jfs_sq (jfss demo_post_st 0x200))
        [demo_rw CDMA_WR_OPC_WRITE [demo_sge 0x1000 4] [demo_sge 0x9000 4]])
   = Some (1, 0, True, 1)"
  by code_simp

lemma post_jfs_wr_doorbell_witness:
  "\<exists>s' b. cdma_u_post_jfs_wr 0x200 [demo_rw CDMA_WR_OPC_WRITE [demo_sge 0x1000 4] [demo_sge 0x9000 4]] demo_post_st
      = Some (0, None, s') \<and> tr s' = [EvUnlock 0x200, EvMmioBlock 0x500000 b, EvBarrierSt, EvLock 0x200]"
proof -
  have e: "sq_blocks demo_post_st (jfs_sq (jfss demo_post_st 0x200)) = []" by code_simp
  have d: "jfs_dma_ctx (jfss demo_post_st 0x200) = 0x40" "ctx_dwqe_enable (ctxs demo_post_st 0x40) = 1" "tr demo_post_st = []"
    "q_dwqe_addr (jfs_sq (jfss demo_post_st 0x200)) = 0x500000"
    by code_simp+
  show ?thesis
    using demo_stream1 post_jfs_wr_doorbell [OF demo_sq_wf]
    by (fastforce simp: e d post_store_def post_direct_def)
qed

lemma check_sq_overflow_iff:
  assumes wf: "sq_wf sq" and len: "length bs \<le> 4"
  shows "check_sq_overflow sq (of_nat (length bs)) \<longleftrightarrow> ring_cap sq < unat (q_pi sq - q_ci sq) + length bs"
proof -
  obtain c where c: "ring_geometry_is c 6 sq" "unat (q_pi sq - q_ci sq) \<le> 2 ^ c" "(2 :: nat) ^ c \<le> 33554432"
    using wf by (rule sq_wfE)
  have un: "unat (of_nat (length bs) :: u32) = length bs" using len unat_of_nat [of "length bs", where 'a = 32] by simp
  have "unat (q_pi sq - q_ci sq + of_nat (length bs)) = unat (q_pi sq - q_ci sq) + length bs"
    using c len un by (subst unat_add_u32_le) simp_all
  then show ?thesis by (simp add: check_sq_overflow_def ring_cap_def word_less_nat_alt del: of_nat_add)
qed

lemma post_refused:
  assumes wf: "sq_wf (jfs_sq (jfss s jfs))" and enc: "wr_encode (umem s) (jfs_sq (jfss s jfs)) wr = Some e"
    and ref: "\<And>bs. e = Inr bs \<Longrightarrow> check_sq_overflow (jfs_sq (jfss s jfs)) (of_nat (length bs))"
    and err: "err = (case e of Inl err \<Rightarrow> err | Inr _ \<Rightarrow> - ENOMEM)"
  shows "err \<noteq> 0 \<and> cdma_u_post_jfs_wr jfs (wr # wrs) s = Some (err, Some wr, s\<lparr>tr := EvUnlock jfs # EvLock jfs # tr s\<rparr>)"
proof -
  let ?sq = "jfs_sq (jfss s jfs)"
  have enc': "wr_encode (umem (emit (EvLock jfs) s)) ?sq wr = Some e" using enc by simp
  have nz: "err \<noteq> 0"
    using enc err by (cases e) (auto simp: wr_encode_def Let_def bind_eq_Some_conv split: if_splits)
  have "cdma_post_sq_wr jfs (jfs_dma_ctx (jfss s jfs)) ?sq (wr # wrs) s
      = Some (err, ?sq, Some wr, emit (EvUnlock jfs) (emit (EvLock jfs) s))"
    using post_one_encodes [OF wf, of "jfs_dma_ctx (jfss s jfs)" wr NULL False "emit (EvLock jfs) s"] enc' ref err nz
    by (cases e) (simp_all add: cdma_post_sq_wr_def)
  then show ?thesis using nz by (simp add: cdma_u_post_jfs_wr_def Let_def emit_def)
qed

text \<open>
  C23: a request that needs more blocks than are free in the queue is refused with \<open>-ENOMEM\<close> and
  named by \<open>*bad_wr\<close>; at the head of a chain it leaves the queue as it was and the device untold.
\<close>

theorem post_jfs_wr_full:
  assumes wf: "sq_wf (jfs_sq (jfss s jfs))" and enc: "wr_encode (umem s) (jfs_sq (jfss s jfs)) wr = Some (Inr bs)"
    and full: "unat (q_pi (jfs_sq (jfss s jfs)) - q_ci (jfs_sq (jfss s jfs))) + length bs > ring_cap (jfs_sq (jfss s jfs))"
  shows "cdma_u_post_jfs_wr jfs (wr # wrs) s = Some (- ENOMEM, Some wr, s\<lparr>tr := EvUnlock jfs # EvLock jfs # tr s\<rparr>)"
proof -
  have "check_sq_overflow (jfs_sq (jfss s jfs)) (of_nat (length bs))"
    using check_sq_overflow_iff [OF wf, of bs] length_encoded [OF enc] full by simp
  then show ?thesis using post_refused [OF wf enc _ refl] by simp
qed

definition demo_full_st :: st where
  "demo_full_st = demo_post_st\<lparr>jfss := (\<lambda>_. zero_jfs)(0x200 := zero_jfs\<lparr>jfs_dma_ctx := 0x40,
     jfs_sq := demo_sq\<lparr>q_ci := 0xfffffff7\<rparr>\<rparr>)\<rparr>"

lemma post_jfs_wr_full_witness:
  "map_option (\<lambda>(r, bad, s'). (r, s')) (cdma_u_post_jfs_wr 0x200 [demo_cas 8] demo_full_st)
     = Some (- ENOMEM, demo_full_st\<lparr>tr := [EvUnlock 0x200, EvLock 0x200]\<rparr>)"
proof -
  have q: "jfs_sq (jfss demo_full_st 0x200) = demo_sq\<lparr>q_ci := 0xfffffff7\<rparr>" by (simp add: demo_full_st_def)
  have "qbuf_curr demo_sq = cdma_u_get_buf_entry demo_sq (q_pi demo_sq)" by code_simp
  moreover have "cdma_u_get_buf_entry (demo_sq\<lparr>q_ci := 0xfffffff7\<rparr>) = cdma_u_get_buf_entry demo_sq"
    by (simp add: fun_eq_iff cdma_u_get_buf_entry_def)
  ultimately have wf: "sq_wf (jfs_sq (jfss demo_full_st 0x200))" unfolding q sq_wf_def
    by (intro exI [of _ 3]) (simp add: ring_geometry_is_def, simp add: demo_sq_def)
  have "map_option (\<lambda>x. case x of Inl _ \<Rightarrow> 0 | Inr bs \<Rightarrow> length bs)
      (wr_encode (umem demo_full_st) (jfs_sq (jfss demo_full_st 0x200)) (demo_cas 8)) = Some 2"
    by code_simp
  then obtain z where z: "wr_encode (umem demo_full_st) (jfs_sq (jfss demo_full_st 0x200)) (demo_cas 8) = Some z"
      "(case z of Inl _ \<Rightarrow> 0 | Inr bs \<Rightarrow> length bs) = 2"
    by auto
  then obtain bs where "wr_encode (umem demo_full_st) (jfs_sq (jfss demo_full_st 0x200)) (demo_cas 8) = Some (Inr bs)" "length bs = 2"
    by (cases z) auto
  moreover have "unat (q_pi (demo_sq\<lparr>q_ci := 0xfffffff7\<rparr>) - q_ci (demo_sq\<lparr>q_ci := 0xfffffff7\<rparr>)) = 7"
      "ring_cap (demo_sq\<lparr>q_ci := 0xfffffff7\<rparr>) = 8" "tr demo_full_st = []"
    by code_simp+
  ultimately show ?thesis using post_jfs_wr_full [OF wf, of "demo_cas 8" bs "[]"] unfolding q by simp
qed

end
