(* ===== verification/Cdma_Cq.thy ===== *)
theory Cdma_Cq
  imports Cdma_Post
begin

text \<open>
  The completion queue (\<open>cdma_u_jfc.c\<close>): the device writes entries (CQEs) into a ring and flips
  their owner bit at every lap; \<open>cdma_u_poll_jfc\<close> turns them into completion records and advances
  the send queue each of them names, \<open>cdma_u_clean_jfc\<close> removes those of one queue,
  \<open>cdma_u_rearm_jfc\<close> asks for an event. The entries the device has written are memory that does
  not change during a call. Logging is left out.
\<close>

unbundle bit_operations_syntax

section \<open>Reading an entry\<close>

definition cdma_u_get_next_cqe :: "cdma_u_jfc \<Rightarrow> u32 \<Rightarrow> st \<Rightarrow> ptr option" where
  "cdma_u_get_next_cqe jfc n s = do {
     let cqe = cdma_u_get_buf_entry (jfc_cq jfc) n;
     sh \<leftarrow> align_power2 (baseblk_cnt (jfc_cq jfc));
     let valid_owner = drop_bit sh (q_ci (jfc_cq jfc)) AND CDMA_JFC_DB_VALID_OWNER_M;
     Some (if ucast (cqe_owner (cqes s cqe)) XOR valid_owner = 0 then NULL else cqe)
   }"

text \<open>
  \<open>user_data\<close> is the address of the send queue, the member \<open>sq\<close> of a JFS: 72 is its offset.
\<close>

definition cqe_queue :: "cdma_u_jfc_cqe \<Rightarrow> ptr" where
  "cqe_queue cqe = push_bit CDMA_ADDR_SHIFT (ucast (cqe_user_data1 cqe)) OR ucast (cqe_user_data0 cqe)"

definition sq_at :: "st \<Rightarrow> ptr \<Rightarrow> cdma_u_jetty_queue" where
  "sq_at s q = jfs_sq (jfss s (q - 72))"

definition set_sq :: "ptr \<Rightarrow> cdma_u_jetty_queue \<Rightarrow> st \<Rightarrow> st" where
  "set_sq q sq s = s\<lparr>jfss := (jfss s)(q - 72 := (jfss s (q - 72))\<lparr>jfs_sq := sq\<rparr>)\<rparr>"

definition cdma_u_update_jetty_idx :: "cdma_u_jfc_cqe \<Rightarrow> st \<Rightarrow> ptr \<times> st" where
  "cdma_u_update_jetty_idx cqe s =
     (let queue = cqe_queue cqe; sq = sq_at s queue in
      if queue = NULL then (NULL, s)
      else if cqe_fd cqe \<noteq> 0 then (queue, s)
      else (queue, set_sq queue
              (sq\<lparr>q_ci := q_ci sq + ((ucast (cqe_entry_idx cqe) - q_ci sq) AND baseblk_mask sq)\<rparr>) s))"

definition cr_status_map :: "(bool \<times> dma_cr_status) list list" where
  "cr_status_map =
     [[(True, DMA_CR_SUCCESS), (False, DMA_CR_SUCCESS), (False, DMA_CR_SUCCESS),
       (False, DMA_CR_SUCCESS), (False, DMA_CR_SUCCESS)],
      [(True, DMA_CR_UNSUPPORTED_OPCODE_ERR), (False, DMA_CR_SUCCESS), (False, DMA_CR_SUCCESS),
       (False, DMA_CR_SUCCESS), (False, DMA_CR_SUCCESS)],
      [(False, DMA_CR_SUCCESS), (True, DMA_CR_LOC_LEN_ERR), (True, DMA_CR_LOC_ACCESS_ERR),
       (True, DMA_CR_REM_RESP_LEN_ERR), (True, DMA_CR_LOC_DATA_POISON)],
      [(False, DMA_CR_SUCCESS), (True, DMA_CR_REM_UNSUPPORTED_REQ_ERR), (True, DMA_CR_REM_ACCESS_ABORT_ERR),
       (False, DMA_CR_SUCCESS), (True, DMA_CR_REM_DATA_POISON)],
      [(True, DMA_CR_RNR_RETRY_CNT_EXC_ERR), (False, DMA_CR_SUCCESS), (False, DMA_CR_SUCCESS),
       (False, DMA_CR_SUCCESS), (False, DMA_CR_SUCCESS)],
      [(True, DMA_CR_ACK_TIMEOUT_ERR), (False, DMA_CR_SUCCESS), (False, DMA_CR_SUCCESS),
       (False, DMA_CR_SUCCESS), (False, DMA_CR_SUCCESS)],
      [(True, DMA_CR_WR_FLUSH_ERR), (False, DMA_CR_SUCCESS), (False, DMA_CR_SUCCESS),
       (False, DMA_CR_SUCCESS), (False, DMA_CR_SUCCESS)]]"

text \<open>The second result is \<open>*cr_status\<close>, given its old value.\<close>

definition cdma_get_cr_status :: "u8 \<Rightarrow> u8 \<Rightarrow> dma_cr_status \<Rightarrow> jfc_poll_state \<times> dma_cr_status" where
  "cdma_get_cr_status src_status substatus old =
     (if src_status < CDMA_CQE_STATUS_NUM \<and> substatus < CDMA_CQE_SUB_STATUS_NUM
         \<and> fst (cr_status_map ! unat src_status ! unat substatus)
      then (JFC_OK, snd (cr_status_map ! unat src_status ! unat substatus))
      else (JFC_POLL_ERR, old))"

definition cdma_u_update_flush_cr ::
  "ptr \<Rightarrow> cdma_u_jfc_cqe \<Rightarrow> dma_cr \<Rightarrow> st \<Rightarrow> jfc_poll_state \<times> dma_cr \<times> st" where
  "cdma_u_update_flush_cr queue cqe cr s =
     (let (ret, status) = cdma_get_cr_status (cqe_status cqe) (cqe_substatus cqe) (cr_status cr);
          sq = sq_at s queue in
      if ret \<noteq> JFC_OK then (JFC_POLL_ERR, cr, s)
      else if cqe_fd cqe \<noteq> 0
      then (JFC_OK, cr\<lparr>cr_status := DMA_CR_WR_FLUSH_ERR_DONE\<rparr>, set_sq queue (sq\<lparr>q_flush_flag := True\<rparr>) s)
      else (JFC_OK, cr\<lparr>cr_status := status\<rparr>, set_sq queue (sq\<lparr>q_ci := q_ci sq + 1\<rparr>) s))"

definition cqe_local_id :: "cdma_u_jfc_cqe \<Rightarrow> u32" where
  "cqe_local_id cqe = push_bit CDMA_SRC_IDX_SHIFT (ucast (cqe_local_num_h cqe)) OR ucast (cqe_local_num_l cqe)"

definition cdma_parse_cqe_for_jfc ::
  "cdma_u_jfc_cqe \<Rightarrow> dma_cr \<Rightarrow> st \<Rightarrow> jfc_poll_state \<times> dma_cr \<times> st" where
  "cdma_parse_cqe_for_jfc cqe cr s =
     (let (queue, s1) = cdma_u_update_jetty_idx cqe s in
      if queue = NULL then (JFC_POLL_ERR, cr, s1)
      else (let sq = sq_at s1 queue;
                cr1 = cr\<lparr>cr_flag := (cr_flag cr)\<lparr>crf_s_r := cqe_s_r cqe, crf_jetty := cqe_is_jetty cqe\<rparr>,
                        cr_completion_len := cqe_byte_cnt cqe, cr_tpn := ucast (cqe_tpn cqe),
                        cr_local_id := cqe_local_id cqe, cr_remote_id := ucast (cqe_rmt_idx cqe),
                        cr_user_ctx := wrids s1 (wrid_slot sq (q_ci sq))\<rparr>;
                (ret, cr2, s2) = cdma_u_update_flush_cr queue cqe cr1 s1
            in (if ret \<noteq> JFC_OK then JFC_POLL_ERR else JFC_OK, cr2, s2)))"

section \<open>Polling\<close>

definition cdma_u_poll_one :: "ptr \<Rightarrow> dma_cr \<Rightarrow> st \<Rightarrow> (jfc_poll_state \<times> dma_cr \<times> st) option" where
  "cdma_u_poll_one jfc cr s = do {
     cqe \<leftarrow> cdma_u_get_next_cqe (jfcs s jfc) (q_ci (jfc_cq (jfcs s jfc))) s;
     if cqe = NULL then Some (JFC_EMPTY, cr, s)
     else do {
       let j = jfcs s jfc;
       let s1 = emit EvBarrierLd
         (s\<lparr>jfcs := (jfcs s)(jfc := j\<lparr>jfc_cq := (jfc_cq j)\<lparr>q_ci := q_ci (jfc_cq j) + 1\<rparr>\<rparr>)\<rparr>);
       let (ret, cr1, s2) = cdma_parse_cqe_for_jfc (cqes s1 cqe) cr s1;
       if ret \<noteq> JFC_OK then Some (JFC_POLL_ERR, cr1, s2)
       else if cr_status cr1 = DMA_CR_WR_FLUSH_ERR_DONE \<or> cr_status cr1 = DMA_CR_WR_SUSPEND_DONE
       then Some (JFC_EMPTY, cr1, s2)
       else Some (JFC_OK, cr1, s2)
     }
   }"

text \<open>The loop of \<open>cdma_u_poll_jfc\<close> with \<open>k\<close> rounds to go; \<open>crs\<close> is the caller's array.\<close>

fun poll_loop ::
  "ptr \<Rightarrow> nat \<Rightarrow> nat \<Rightarrow> dma_cr list \<Rightarrow> st \<Rightarrow> (jfc_poll_state \<times> nat \<times> dma_cr list \<times> st) option" where
  "poll_loop jfc 0 npolled crs s = Some (JFC_OK, npolled, crs, s)"
| "poll_loop jfc (Suc k) npolled crs s =
     (if length crs \<le> npolled then None
      else do {
        (ret, cr, s1) \<leftarrow> cdma_u_poll_one jfc (crs ! npolled) s;
        if ret \<noteq> JFC_OK then Some (ret, npolled, crs[npolled := cr], s1)
        else poll_loop jfc k (Suc npolled) (crs[npolled := cr]) s1
      })"

definition write_sw_db :: "ptr \<Rightarrow> st \<Rightarrow> st" where
  "write_sw_db jfc s = s\<lparr>swdbs := (swdbs s)(sw_db (jfcs s jfc) :=
     q_ci (jfc_cq (jfcs s jfc)) AND CDMA_JFC_DB_CI_IDX_M)\<rparr>"

definition cdma_u_poll_jfc :: "ptr \<Rightarrow> u32 \<Rightarrow> dma_cr list \<Rightarrow> st \<Rightarrow> (int \<times> dma_cr list \<times> st) option" where
  "cdma_u_poll_jfc jfc cr_cnt crs s =
     (if jfc = NULL then Some (- EINVAL, crs, s)
      else do {
        (ret, npolled, crs', s1) \<leftarrow> poll_loop jfc (unat cr_cnt) 0 crs (emit (EvLock jfc) s);
        let s2 = (if npolled \<noteq> 0 then write_sw_db jfc s1 else s1);
        Some (if ret = JFC_POLL_ERR then - CDMA_INTER_ERR else sint (of_nat npolled :: u32),
              crs', emit (EvUnlock jfc) s2)
      })"

section \<open>Events\<close>

definition cdma_cmd_wait_jfc :: "env \<Rightarrow> int \<Rightarrow> u32 \<Rightarrow> int \<Rightarrow> st \<Rightarrow> int \<times> st" where
  "cdma_cmd_wait_jfc E fd jfc_cnt time_out s =
     (let ((ret, out), s1) = sys_ioctl E fd (CDMA_CMD_WAIT_JFC jfc_cnt time_out) s in
      if ret \<noteq> 0 then (- EFAULT, s1) else (sint (out_event_cnt out), s1))"

definition cdma_u_wait_jfc :: "env \<Rightarrow> ptr \<Rightarrow> u32 \<Rightarrow> int \<Rightarrow> st \<Rightarrow> int \<times> st" where
  "cdma_u_wait_jfc E jfce jfc_cnt time_out s =
     (if jfce = NULL \<or> jfce_fd (jfces s jfce) < 0 \<or> jfc_cnt = 0 then (- 1, s)
      else cdma_cmd_wait_jfc E (jfce_fd (jfces s jfce)) jfc_cnt time_out s)"

text \<open>The members \<open>event_mutex\<close> and \<open>event_cond\<close> of a JFC: 64 and 104 are their offsets.\<close>

definition cdma_ack_comp_event :: "ptr \<Rightarrow> u32 \<Rightarrow> st \<Rightarrow> st" where
  "cdma_ack_comp_event jfc nevent s =
     (let s1 = emit (EvLock (jfc + 64)) s; j = jfcs s1 jfc in
      emit (EvUnlock (jfc + 64)) (emit (EvCondSignal (jfc + 104))
        (s1\<lparr>jfcs := (jfcs s1)(jfc := j\<lparr>comp_events_acked := comp_events_acked j + nevent\<rparr>)\<rparr>)))"

definition cdma_u_ack_jfc :: "ptr \<Rightarrow> u32 \<Rightarrow> st \<Rightarrow> st" where
  "cdma_u_ack_jfc jfc events s =
     (if jfc = NULL then s
      else cdma_ack_comp_event jfc events
             (s\<lparr>jfcs := (jfcs s)(jfc := (jfcs s jfc)\<lparr>arm_sn := arm_sn (jfcs s jfc) + 1\<rparr>)\<rparr>))"

text \<open>Assignment to a bit field of a 64-bit unit.\<close>

definition put_field :: "nat \<Rightarrow> nat \<Rightarrow> u32 \<Rightarrow> u64 \<Rightarrow> u64" where
  "put_field off w v x =
     (x AND NOT (push_bit off (mask w))) OR push_bit off (take_bit w (ucast v))"

text \<open>
  The doorbell \<open>struct cdma_jfc_db\<close> is a local variable: its reserved bits keep what the stack
  held.
\<close>

definition jfc_db_value :: "u64 \<Rightarrow> cdma_u_jfc \<Rightarrow> bool \<Rightarrow> u64" where
  "jfc_db_value stack jfc solicited_only =
     put_field 32 20 (q_idx (jfc_cq jfc)) (put_field 27 1 1 (put_field 25 2 (arm_sn jfc)
       (put_field 24 1 (of_bool solicited_only)
         (put_field 0 24 (q_ci (jfc_cq jfc) AND CDMA_JFC_DB_CI_IDX_M) stack))))"

definition cdma_u_rearm_jfc :: "env \<Rightarrow> ptr \<Rightarrow> bool \<Rightarrow> st \<Rightarrow> dma_status \<times> st" where
  "cdma_u_rearm_jfc E jfc solicited_only s =
     (if jfc = NULL \<or> jfc_dma_ctx (jfcs s jfc) = NULL then (DMA_STATUS_INVAL, s)
      else (let j = jfcs s jfc; ctx = ctxs s (jfc_dma_ctx j) in
            (DMA_STATUS_OK, emit (EvMmio64 (db_addr (ctx_db ctx) + CDMA_JFC_HW_DB_OFFSET)
               (jfc_db_value (e_stack E (tr s)) j solicited_only)) s)))"

section \<open>Removing the entries of a queue\<close>

text \<open>
  The two loops of \<open>cdma_u_clean_jfc\<close>. The first looks for the end of the valid entries; a value
  \<open>None\<close> says that it never ends. The second goes back from there; its difference of two signed
  integers may overflow, which C leaves undefined.
\<close>

partial_function (option) clean_scan :: "cdma_u_jfc \<Rightarrow> st \<Rightarrow> u32 \<Rightarrow> u32 option" where
  "clean_scan jfc s pi = do {
     cqe \<leftarrow> cdma_u_get_next_cqe jfc pi s;
     if cqe = NULL then Some pi
     else if pi > q_ci (jfc_cq jfc) + baseblk_cnt (jfc_cq jfc) then Some pi
     else clean_scan jfc s (pi + 1)
   }"

definition int_sub :: "u32 \<Rightarrow> u32 \<Rightarrow> int option" where
  "int_sub x y = (let d = sint x - sint y in if - (2 ^ 31) \<le> d \<and> d < 2 ^ 31 then Some d else None)"

partial_function (option) clean_back ::
  "cdma_u_jetty_queue \<Rightarrow> u32 \<Rightarrow> u32 \<Rightarrow> u32 \<Rightarrow> st \<Rightarrow> (u32 \<times> st) option" where
  "clean_back cq jetty_id pi nfreed s = do {
     d \<leftarrow> int_sub (pi - 1) (q_ci cq);
     if d < 0 then Some (nfreed, s)
     else (let p = cdma_u_get_buf_entry cq (pi - 1); s1 = emit EvBarrierLd s; cqe = cqes s1 p in
       if cqe_local_id cqe = jetty_id then clean_back cq jetty_id (pi - 1) (nfreed + 1) s1
       else if nfreed \<noteq> 0 then
         (let dest = cdma_u_get_buf_entry cq (pi - 1 + nfreed); s2 = emit EvBarrierLd s1 in
          clean_back cq jetty_id (pi - 1) nfreed
            (s2\<lparr>cqes := (cqes s2)(dest := cqe\<lparr>cqe_owner := cqe_owner (cqes s2 dest)\<rparr>)\<rparr>))
       else clean_back cq jetty_id (pi - 1) nfreed s1)
   }"

definition cdma_u_clean_jfc :: "ptr \<Rightarrow> u32 \<Rightarrow> st \<Rightarrow> st option" where
  "cdma_u_clean_jfc jfc jetty_id s =
     (if jfc = NULL then Some s
      else do {
        let s1 = emit (EvLock jfc) s;
        pi \<leftarrow> clean_scan (jfcs s1 jfc) s1 (q_ci (jfc_cq (jfcs s1 jfc)));
        (nfreed, s2) \<leftarrow> clean_back (jfc_cq (jfcs s1 jfc)) jetty_id pi 0 s1;
        let j = jfcs s2 jfc;
        let s3 = (if nfreed \<noteq> 0
          then write_sw_db jfc (emit EvBarrierSt (s2\<lparr>jfcs := (jfcs s2)(jfc :=
                 j\<lparr>jfc_cq := (jfc_cq j)\<lparr>q_ci := q_ci (jfc_cq j) + nfreed\<rparr>\<rparr>)\<rparr>))
          else s2);
        Some (emit (EvUnlock jfc) s3)
      })"


section \<open>Entries and laps\<close>

text \<open>
  The parity of the lap of an index; an entry is new when its owner bit differs from the parity of
  its own lap. \<open>cq_wf\<close> is the invariant of the completion queue; an entry has room for a CQE.
\<close>

definition lap_odd :: "cdma_u_jetty_queue \<Rightarrow> u32 \<Rightarrow> bool" where
  "lap_odd q n \<longleftrightarrow> odd (unat n div ring_cap q)"

definition cqe_at :: "st \<Rightarrow> cdma_u_jetty_queue \<Rightarrow> u32 \<Rightarrow> cdma_u_jfc_cqe" where
  "cqe_at s q n = cqes s (cdma_u_get_buf_entry q n)"

definition cqe_new :: "st \<Rightarrow> cdma_u_jetty_queue \<Rightarrow> u32 \<Rightarrow> bool" where
  "cqe_new s q n \<longleftrightarrow> (cqe_owner (cqe_at s q n) = 1) \<noteq> lap_odd q n"

definition cq_wf :: "cdma_u_jetty_queue \<Rightarrow> bool" where
  "cq_wf q \<longleftrightarrow> (\<exists>c sh. ring_geometry_is c sh q \<and> 6 \<le> sh \<and> qbuf q \<noteq> NULL \<and> unat (qbuf q) + 2 ^ (c + sh) \<le> 2 ^ 64)"

lemma cq_wf_ring: "cq_wf q \<Longrightarrow> ring_wf q"
  by (auto simp: cq_wf_def ring_wf_def)

lemma cq_entry_not_null:
  assumes "cq_wf q"
  shows "cdma_u_get_buf_entry q n \<noteq> NULL"
proof -
  obtain c sh where g: "ring_geometry_is c sh q" and q: "qbuf q \<noteq> NULL" "unat (qbuf q) + 2 ^ (c + sh) \<le> 2 ^ 64"
    using assms by (auto simp: cq_wf_def)
  let ?o = "unat n mod 2 ^ c * 2 ^ sh"
  have "(0 :: nat) < 2 ^ sh" by simp
  then have o: "?o < 2 ^ (c + sh)" using get_buf_entry_eq(2) [OF g, of n] by linarith
  then have "?o < 2 ^ 64" using q(2) by linarith
  then have "unat (of_nat ?o :: u64) = ?o" using unat_of_nat [of ?o, where 'a = 64] by simp
  then have "unat (qbuf q + of_nat ?o) = unat (qbuf q) + ?o"
    using o q(2) by (subst unat_add_u64_le) simp_all
  moreover have "0 < unat (qbuf q)" using q(1) by (simp add: unat_gt_0)
  ultimately have "0 < unat (qbuf q + of_nat ?o)" by simp
  then show ?thesis unfolding get_buf_entry_eq(1) [OF g] by (simp only: unat_gt_0 not_False_eq_True)
qed

lemma word1_cases: "(x :: 1 word) = 0 \<or> x = 1"
proof -
  have "unat x < 2 ^ LENGTH(1)" by (rule unsigned_less)
  then have "unat x = 0 \<or> unat x = 1" by auto
  then show ?thesis by (auto simp: word_unat_eq_iff)
qed

lemma owner_xor:
  fixes o1 :: "1 word" and v :: u32
  shows "(ucast o1 XOR (v AND 1) = 0) \<longleftrightarrow> (o1 = 1) = odd (unat v)"
proof -
  have "bit (unat v) 0 \<longleftrightarrow> bit v 0" by (simp add: bit_unsigned_iff)
  then have "odd (unat v) \<longleftrightarrow> odd v" by (simp only: bit_0)
  then have v: "v AND 1 = of_bool (odd (unat v))" by (simp add: and_one_eq mod_2_eq_odd)
  show ?thesis using word1_cases [of o1] unfolding v by auto
qed

lemma get_next_cqe_eq:
  assumes "cq_wf (jfc_cq j)"
  shows "cdma_u_get_next_cqe j n s =
    Some (if (cqe_owner (cqe_at s (jfc_cq j) n) = 1) = lap_odd (jfc_cq j) (q_ci (jfc_cq j)) then NULL
          else cdma_u_get_buf_entry (jfc_cq j) n)"
proof -
  obtain c sh where g: "ring_geometry_is c sh (jfc_cq j)" using assms by (auto simp: cq_wf_def)
  note f = ring_geometry_facts [OF g]
  have "align_power2 (baseblk_cnt (jfc_cq j)) = Some c"
    using align_power2_pow2 [OF f(5)] g by (simp add: ring_geometry_is_def)
  moreover have "odd (unat (drop_bit c (q_ci (jfc_cq j)))) = lap_odd (jfc_cq j) (q_ci (jfc_cq j))"
    by (simp add: lap_odd_def unat_drop_bit f(6))
  ultimately show ?thesis by (simp add: cdma_u_get_next_cqe_def Let_def owner_xor cqe_at_def)
qed

section \<open>One completion\<close>

lemma set_sq_simps [simp]:
  "sq_at (set_sq q x s) q = x" "set_sq q y (set_sq q x s) = set_sq q y s"
  "jfcs (set_sq q x s) = jfcs s" "cqes (set_sq q x s) = cqes s" "wrids (set_sq q x s) = wrids s"
  "wqebbs (set_sq q x s) = wqebbs s" "swdbs (set_sq q x s) = swdbs s" "tr (set_sq q x s) = tr s"
  "ctxs (set_sq q x s) = ctxs s" "emit e (set_sq q x s) = set_sq q x (emit e s)"
  "sq_at (s\<lparr>jfcs := js\<rparr>) q = sq_at s q" "sq_at (emit e s) q = sq_at s q"
  "sq_at (s\<lparr>swdbs := ds\<rparr>) q = sq_at s q"
  by (simp_all add: set_sq_def sq_at_def emit_def)

text \<open>A completion of a request, not of the flush of its queue.\<close>

definition cqe_good :: "cdma_u_jfc_cqe \<Rightarrow> bool" where
  "cqe_good e \<longleftrightarrow> cqe_queue e \<noteq> NULL \<and> cqe_fd e = 0
     \<and> fst (cdma_get_cr_status (cqe_status e) (cqe_substatus e) DMA_CR_SUCCESS) = JFC_OK"

definition cqe_cr_status :: "cdma_u_jfc_cqe \<Rightarrow> dma_cr_status" where
  "cqe_cr_status e = snd (cdma_get_cr_status (cqe_status e) (cqe_substatus e) DMA_CR_SUCCESS)"

definition done_ci :: "cdma_u_jetty_queue \<Rightarrow> cdma_u_jfc_cqe \<Rightarrow> u32" where
  "done_ci sq e = q_ci sq + ((ucast (cqe_entry_idx e) - q_ci sq) AND baseblk_mask sq)"

definition good_cr :: "st \<Rightarrow> cdma_u_jfc_cqe \<Rightarrow> dma_cr \<Rightarrow> dma_cr" where
  "good_cr s e cr = cr\<lparr>cr_status := cqe_cr_status e, cr_flag := (cr_flag cr)\<lparr>crf_s_r := cqe_s_r e, crf_jetty := cqe_is_jetty e\<rparr>,
     cr_completion_len := cqe_byte_cnt e, cr_tpn := ucast (cqe_tpn e), cr_local_id := cqe_local_id e,
     cr_remote_id := ucast (cqe_rmt_idx e),
     cr_user_ctx := (let sq = sq_at s (cqe_queue e) in wrids s (wrid_slot sq (done_ci sq e)))\<rparr>"

definition good_st :: "ptr \<Rightarrow> cdma_u_jfc_cqe \<Rightarrow> st \<Rightarrow> st" where
  "good_st jfc e s =
     (let j = jfcs s jfc; sq = sq_at s (cqe_queue e) in
      set_sq (cqe_queue e) (sq\<lparr>q_ci := done_ci sq e + 1\<rparr>)
        (emit EvBarrierLd (s\<lparr>jfcs := (jfcs s)(jfc := j\<lparr>jfc_cq := (jfc_cq j)\<lparr>q_ci := q_ci (jfc_cq j) + 1\<rparr>\<rparr>)\<rparr>)))"

lemma cr_status_old:
  "fst (cdma_get_cr_status a b x) = fst (cdma_get_cr_status a b y)"
  "fst (cdma_get_cr_status a b x) = JFC_OK \<Longrightarrow> snd (cdma_get_cr_status a b x) = snd (cdma_get_cr_status a b y)"
  by (auto simp: cdma_get_cr_status_def)

lemma u8_less_cases:
  "(x :: u8) < 7 \<Longrightarrow> x \<in> {0, 1, 2, 3, 4, 5, 6}" "(x :: u8) < 5 \<Longrightarrow> x \<in> {0, 1, 2, 3, 4}"
proof -
  show "x \<in> {0, 1, 2, 3, 4, 5, 6}" if "x < 7"
  proof -
    have "unat x < 7" using that by (simp add: word_less_nat_alt)
    then have "unat x \<in> {0, 1, 2, 3, 4, 5, 6}" by auto
    then show ?thesis by (auto simp: word_unat_eq_iff)
  qed
  show "x \<in> {0, 1, 2, 3, 4}" if "x < 5"
  proof -
    have "unat x < 5" using that by (simp add: word_less_nat_alt)
    then have "unat x \<in> {0, 1, 2, 3, 4}" by auto
    then show ?thesis by (auto simp: word_unat_eq_iff)
  qed
qed

lemma cr_status_never_done:
  "snd (cdma_get_cr_status a b DMA_CR_SUCCESS) \<notin> {DMA_CR_WR_FLUSH_ERR_DONE, DMA_CR_WR_SUSPEND_DONE}"
proof (cases "a < 7 \<and> b < 5")
  case True
  then have "a \<in> {0, 1, 2, 3, 4, 5, 6}" "b \<in> {0, 1, 2, 3, 4}" using u8_less_cases by blast+
  then show ?thesis by (auto simp: cdma_get_cr_status_def cr_status_map_def)
next
  case False
  then show ?thesis by (auto simp: cdma_get_cr_status_def)
qed

lemma poll_one_good:
  assumes wf: "cq_wf (jfc_cq (jfcs s jfc))" and new: "cqe_new s (jfc_cq (jfcs s jfc)) (q_ci (jfc_cq (jfcs s jfc)))"
    and e: "e = cqe_at s (jfc_cq (jfcs s jfc)) (q_ci (jfc_cq (jfcs s jfc)))" and good: "cqe_good e"
  shows "cdma_u_poll_one jfc cr s = Some (JFC_OK, good_cr s e cr, good_st jfc e s)"
proof -
  let ?q = "jfc_cq (jfcs s jfc)"
  have nx: "cdma_u_get_next_cqe (jfcs s jfc) (q_ci ?q) s = Some (cdma_u_get_buf_entry ?q (q_ci ?q))"
    using get_next_cqe_eq [OF wf] new by (simp add: cqe_new_def)
  note nn = cq_entry_not_null [OF wf, of "q_ci ?q"]
  have fl: "fst (cdma_get_cr_status (cqe_status e) (cqe_substatus e) x) = JFC_OK"
      "snd (cdma_get_cr_status (cqe_status e) (cqe_substatus e) x) = cqe_cr_status e" for x
    using good cr_status_old [of "cqe_status e" "cqe_substatus e" x DMA_CR_SUCCESS]
    by (simp_all add: cqe_good_def cqe_cr_status_def)
  have st: "cqe_cr_status e \<noteq> DMA_CR_WR_FLUSH_ERR_DONE" "cqe_cr_status e \<noteq> DMA_CR_WR_SUSPEND_DONE"
    using cr_status_never_done unfolding cqe_cr_status_def by blast+
  have ee: "cqes s (cdma_u_get_buf_entry ?q (q_ci ?q)) = e" by (simp add: e cqe_at_def)
  have "cdma_parse_cqe_for_jfc e cr t = (JFC_OK, good_cr t e cr,
      set_sq (cqe_queue e) (sq_at t (cqe_queue e)\<lparr>q_ci := done_ci (sq_at t (cqe_queue e)) e + 1\<rparr>) t)" for t
    using good fl by (simp add: cdma_parse_cqe_for_jfc_def cdma_u_update_jetty_idx_def cdma_u_update_flush_cr_def
        Let_def cqe_good_def split_beta good_cr_def done_ci_def wrid_slot_def)
  then show ?thesis
    using nx nn st by (simp add: cdma_u_poll_one_def Let_def ee good_st_def good_cr_def)
qed


section \<open>What a completion does to the send queue\<close>

lemma take_bit_diff_u32:
  fixes x y :: u32
  assumes "c \<le> 32"
  shows "take_bit c (take_bit c x - y) = take_bit c (x - y)" and "take_bit c (x - take_bit c y) = take_bit c (x - y)"
proof -
  have d: "(2 :: int) ^ c dvd 2 ^ 32" using assms by (rule le_imp_power_dvd)
  have t: "uint (take_bit c a) = uint a mod 2 ^ c" for a :: u32
    by (simp only: unsigned_take_bit_eq) (simp only: take_bit_eq_mod)
  have "uint (a - b) = (uint a - uint b) mod 2 ^ 32" for a b :: u32
    by (simp add: uint_word_ariths)
  then have u: "uint (take_bit c (a - b)) = (uint a - uint b) mod 2 ^ c" for a b :: u32
    unfolding t by (simp only: mod_mod_cancel [OF d])
  show "take_bit c (take_bit c x - y) = take_bit c (x - y)"
    unfolding word_uint_eq_iff u unfolding t by (rule mod_diff_left_eq)
  show "take_bit c (x - take_bit c y) = take_bit c (x - y)"
    unfolding word_uint_eq_iff u unfolding t by (rule mod_diff_right_eq)
qed

lemma done_ci_eq:
  assumes g: "ring_geometry_is c sh sq" and idx: "unat (cqe_entry_idx e) = unat (q_ci sq + of_nat j) mod 2 ^ c"
    and j: "j < 2 ^ c"
  shows "done_ci sq e = q_ci sq + of_nat j"
proof -
  note f = ring_geometry_facts [OF g]
  have "unat (ucast (cqe_entry_idx e) :: u32) = unat ((q_ci sq + of_nat j) AND mask c)"
    using idx by (simp add: unat_and_mask unat_ucast_wide)
  then have w: "(ucast (cqe_entry_idx e) :: u32) = take_bit c (q_ci sq + of_nat j)"
    by (simp only: word_unat_eq_iff take_bit_eq_mask)
  have "(ucast (cqe_entry_idx e) - q_ci sq) AND baseblk_mask sq = take_bit c (take_bit c (q_ci sq + of_nat j) - take_bit c (q_ci sq))"
    unfolding f(1) take_bit_eq_mask [symmetric] w
    using take_bit_diff_u32 [of c] f(5) by simp
  also have "\<dots> = take_bit c (of_nat j)" using take_bit_diff_u32 [of c] f(5) by simp
  also have "\<dots> = of_nat j"
  proof -
    have "(2 :: nat) ^ c \<le> 2 ^ 31" using f(5) by (intro power_increasing) auto
    then have "unat (of_nat j :: u32) = j" using j unat_of_nat [of j, where 'a = 32] by simp
    then have "unat (take_bit c (of_nat j :: u32)) = unat (of_nat j :: u32)"
      using j unat_and_mask [of "of_nat j :: u32" c] by (simp add: take_bit_eq_mask)
    then show ?thesis by (simp only: word_unat_eq_iff)
  qed
  finally show ?thesis by (simp add: done_ci_def)
qed

lemma slots_ci [simp]:
  "cdma_u_get_buf_entry (sq\<lparr>q_ci := i\<rparr>) = cdma_u_get_buf_entry sq"
  "wrid_slot (sq\<lparr>q_ci := i\<rparr>) = wrid_slot sq"
  "ring_geometry_is c sh (sq\<lparr>q_ci := i\<rparr>) = ring_geometry_is c sh sq"
  by (simp_all add: fun_eq_iff cdma_u_get_buf_entry_def wrid_slot_def ring_geometry_is_def)

lemma inflight_after:
  assumes "j \<le> unat (q_pi sq - q_ci sq)"
  shows "unat (q_pi sq - (q_ci sq + of_nat j)) = unat (q_pi sq - q_ci sq) - j"
proof -
  have "j < 2 ^ 32" using le_less_trans [OF assms unat_u32_less] by simp
  then have j: "unat (of_nat j :: u32) = j" using unat_of_nat [of j, where 'a = 32] by simp
  have "unat (q_pi sq - q_ci sq - of_nat j) = unat (q_pi sq - q_ci sq) - j"
    using assms j by (subst unat_sub) (simp_all add: word_le_nat_alt)
  then show ?thesis by (simp add: algebra_simps)
qed

lemma sq_complete:
  assumes wf: "sq_wf sq" and j: "j \<le> unat (q_pi sq - q_ci sq)"
  defines "sq' \<equiv> sq\<lparr>q_ci := q_ci sq + of_nat j\<rparr>"
  shows "sq_wf sq'" and "sq_blocks s sq' = drop j (sq_blocks s sq)" and "sq_user_ctxs s sq' = drop j (sq_user_ctxs s sq)"
proof -
  note n = inflight_after [OF j]
  obtain c where c: "ring_geometry_is c 6 sq" "qbuf_curr sq = cdma_u_get_buf_entry sq (q_pi sq)"
    "unat (q_pi sq - q_ci sq) \<le> 2 ^ c" "unat (qbuf sq) + 2 ^ (c + 6) + 256 \<le> 2 ^ 64"
    using wf by (rule sq_wfE)
  have "unat (q_pi sq - (q_ci sq + of_nat j)) \<le> 2 ^ c" unfolding n using c(3) by simp
  then show "sq_wf sq'" unfolding sq_wf_def sq'_def using c by (intro exI [of _ c]) simp
  have "window cdma_u_get_buf_entry m sq' n k = window cdma_u_get_buf_entry m sq n k"
      "window wrid_slot w sq' n k = window wrid_slot w sq n k" for m :: "ptr \<Rightarrow> u32 list" and w :: "ptr \<Rightarrow> u64" and n k
    by (rule window_cong, simp add: sq'_def)+
  moreover have "unat (q_pi sq' - q_ci sq') = unat (q_pi sq - q_ci sq) - j" "q_ci sq' = q_ci sq + of_nat j"
    using n by (simp_all add: sq'_def)
  moreover have "window cdma_u_get_buf_entry (wqebbs s) sq (q_ci sq + of_nat j) (unat (q_pi sq - q_ci sq) - j)
      = drop j (sq_blocks s sq)"
    using window_split [of cdma_u_get_buf_entry "wqebbs s" sq "q_ci sq" j "unat (q_pi sq - q_ci sq) - j"] j
    by (simp add: sq_blocks_def)
  moreover have "window wrid_slot (wrids s) sq (q_ci sq + of_nat j) (unat (q_pi sq - q_ci sq) - j)
      = drop j (sq_user_ctxs s sq)"
    using window_split [of wrid_slot "wrids s" sq "q_ci sq" j "unat (q_pi sq - q_ci sq) - j"] j
    by (simp add: sq_user_ctxs_def)
  ultimately show "sq_blocks s sq' = drop j (sq_blocks s sq)" "sq_user_ctxs s sq' = drop j (sq_user_ctxs s sq)"
    by (simp_all add: sq_blocks_def [of s sq'] sq_user_ctxs_def [of s sq'])
qed

lemma user_ctx_nth:
  assumes "j < unat (q_pi sq - q_ci sq)"
  shows "wrids s (wrid_slot sq (q_ci sq + of_nat j)) = sq_user_ctxs s sq ! j"
  using assms by (simp add: sq_user_ctxs_def window_def)

section \<open>Several completions\<close>

fun good_run :: "ptr \<Rightarrow> cdma_u_jfc_cqe list \<Rightarrow> nat \<Rightarrow> dma_cr list \<Rightarrow> st \<Rightarrow> dma_cr list \<times> st" where
  "good_run jfc [] np crs s = (crs, s)"
| "good_run jfc (e # es) np crs s =
     good_run jfc es (Suc np) (crs[np := good_cr s e (crs ! np)]) (good_st jfc e s)"

text \<open>The entries \<open>es\<close> are new, one after the other from the consumer index.\<close>

definition cq_new :: "st \<Rightarrow> ptr \<Rightarrow> cdma_u_jfc_cqe list \<Rightarrow> bool" where
  "cq_new s jfc es \<longleftrightarrow> (let q = jfc_cq (jfcs s jfc) in
     \<forall>i < length es. cqe_new s q (q_ci q + of_nat i) \<and> cqe_at s q (q_ci q + of_nat i) = es ! i)"

lemma good_st_simps [simp]:
  "cqes (good_st jfc e s) = cqes s" "swdbs (good_st jfc e s) = swdbs s" "wrids (good_st jfc e s) = wrids s"
  "wqebbs (good_st jfc e s) = wqebbs s" "tr (good_st jfc e s) = EvBarrierLd # tr s"
  "jfcs (good_st jfc e s) jfc = (jfcs s jfc)\<lparr>jfc_cq := (jfc_cq (jfcs s jfc))\<lparr>q_ci := q_ci (jfc_cq (jfcs s jfc)) + 1\<rparr>\<rparr>"
  by (simp_all add: good_st_def Let_def set_sq_def emit_def)

lemma cq_ci_simps [simp]:
  "cqe_at s (q\<lparr>q_ci := i\<rparr>) = cqe_at s q" "lap_odd (q\<lparr>q_ci := i\<rparr>) = lap_odd q" "cqe_new s (q\<lparr>q_ci := i\<rparr>) = cqe_new s q"
  "cq_wf (q\<lparr>q_ci := i\<rparr>) = cq_wf q" "cqe_at (good_st jfc e s) = cqe_at s" "cqe_new (good_st jfc e s) = cqe_new s"
  by (simp_all add: fun_eq_iff cqe_at_def lap_odd_def cqe_new_def cq_wf_def ring_cap_def)

lemma cq_new_Cons:
  assumes "cq_new s jfc (e # es)"
  shows "cqe_new s (jfc_cq (jfcs s jfc)) (q_ci (jfc_cq (jfcs s jfc)))"
    and "cqe_at s (jfc_cq (jfcs s jfc)) (q_ci (jfc_cq (jfcs s jfc))) = e" and "cq_new (good_st jfc e' s) jfc es"
proof -
  let ?q = "jfc_cq (jfcs s jfc)"
  have a: "cqe_new s ?q (q_ci ?q + of_nat i) \<and> cqe_at s ?q (q_ci ?q + of_nat i) = (e # es) ! i" if "i < Suc (length es)" for i
    using assms that by (simp add: cq_new_def Let_def)
  show "cqe_new s ?q (q_ci ?q)" "cqe_at s ?q (q_ci ?q) = e" using a [of 0] by simp_all
  have "cqe_new s ?q (q_ci ?q + 1 + of_nat i) \<and> cqe_at s ?q (q_ci ?q + 1 + of_nat i) = es ! i" if "i < length es" for i
    using a [of "Suc i"] that by (simp add: add.assoc)
  then show "cq_new (good_st jfc e' s) jfc es" by (simp add: cq_new_def Let_def)
qed

lemma poll_loop_good:
  assumes "cq_wf (jfc_cq (jfcs s jfc))" and "cq_new s jfc es" and "list_all cqe_good es" and "np + length es \<le> length crs"
  shows "poll_loop jfc (length es + k) np crs s =
     (let (crs', s') = good_run jfc es np crs s in poll_loop jfc k (np + length es) crs' s')"
  using assms
proof (induction es arbitrary: np crs s)
  case (Cons e es)
  note n = cq_new_Cons [OF Cons.prems(2)]
  have one: "cdma_u_poll_one jfc (crs ! np) s = Some (JFC_OK, good_cr s e (crs ! np), good_st jfc e s)"
    using poll_one_good [OF Cons.prems(1) n(1)] n(2) Cons.prems(3) by simp
  have "poll_loop jfc (length es + k) (Suc np) (crs[np := good_cr s e (crs ! np)]) (good_st jfc e s) =
     (let (crs', s') = good_run jfc (e # es) np crs s in poll_loop jfc k (Suc np + length es) crs' s')"
    using Cons.IH [of "good_st jfc e s" "Suc np" "crs[np := good_cr s e (crs ! np)]"] n(3) Cons.prems by simp
  then show ?case using one Cons.prems(4) by simp
qed simp

lemma good_run_facts:
  assumes "good_run jfc es np crs s = (crs', s')" and "np + length es \<le> length crs"
  shows "length crs' = length crs" and "\<And>i. i < np \<or> np + length es \<le> i \<Longrightarrow> crs' ! i = crs ! i"
    and "\<And>i. i < length es \<Longrightarrow> (\<exists>t. crs' ! (np + i) = good_cr t (es ! i) (crs ! (np + i)))"
    and "cqes s' = cqes s" and "swdbs s' = swdbs s" and "wqebbs s' = wqebbs s" and "wrids s' = wrids s"
    and "tr s' = replicate (length es) EvBarrierLd @ tr s"
    and "jfcs s' jfc = (jfcs s jfc)\<lparr>jfc_cq := (jfc_cq (jfcs s jfc))\<lparr>q_ci := q_ci (jfc_cq (jfcs s jfc)) + of_nat (length es)\<rparr>\<rparr>"
proof -
  have "length crs' = length crs \<and> (\<forall>i. i < np \<or> np + length es \<le> i \<longrightarrow> crs' ! i = crs ! i)
    \<and> (\<forall>i < length es. \<exists>t. crs' ! (np + i) = good_cr t (es ! i) (crs ! (np + i)))
    \<and> cqes s' = cqes s \<and> swdbs s' = swdbs s \<and> wqebbs s' = wqebbs s \<and> wrids s' = wrids s
    \<and> tr s' = replicate (length es) EvBarrierLd @ tr s
    \<and> jfcs s' jfc = (jfcs s jfc)\<lparr>jfc_cq := (jfc_cq (jfcs s jfc))\<lparr>q_ci := q_ci (jfc_cq (jfcs s jfc)) + of_nat (length es)\<rparr>\<rparr>"
    using assms
  proof (induction es arbitrary: np crs s)
    case (Cons e es)
    let ?c = "crs[np := good_cr s e (crs ! np)]"
    have "good_run jfc es (Suc np) ?c (good_st jfc e s) = (crs', s')" "Suc np + length es \<le> length ?c"
      using Cons.prems by simp_all
    note ih = Cons.IH [OF this]
    have nth: "\<exists>t. crs' ! (np + i) = good_cr t ((e # es) ! i) (crs ! (np + i))" if "i < Suc (length es)" for i
    proof (cases i)
      case 0
      have "crs' ! np = ?c ! np" using ih by simp
      then show ?thesis using 0 Cons.prems(2) by auto
    next
      case (Suc k)
      then obtain t where "crs' ! (Suc np + k) = good_cr t (es ! k) (?c ! (Suc np + k))" using ih \<open>i < Suc (length es)\<close> by blast
      then show ?thesis using Suc by auto
    qed
    have "replicate (length es) EvBarrierLd @ EvBarrierLd # tr s = EvBarrierLd # replicate (length es) EvBarrierLd @ tr s"
      by (simp add: replicate_app_Cons_same)
    then show ?case using ih nth by (auto simp: add.assoc add.commute)
  qed simp
  then show "length crs' = length crs" "\<And>i. i < np \<or> np + length es \<le> i \<Longrightarrow> crs' ! i = crs ! i"
    "\<And>i. i < length es \<Longrightarrow> (\<exists>t. crs' ! (np + i) = good_cr t (es ! i) (crs ! (np + i)))"
    "cqes s' = cqes s" "swdbs s' = swdbs s" "wqebbs s' = wqebbs s" "wrids s' = wrids s"
    "tr s' = replicate (length es) EvBarrierLd @ tr s"
    "jfcs s' jfc = (jfcs s jfc)\<lparr>jfc_cq := (jfc_cq (jfcs s jfc))\<lparr>q_ci := q_ci (jfc_cq (jfcs s jfc)) + of_nat (length es)\<rparr>\<rparr>"
    by auto
qed

section \<open>Properties of polling\<close>

lemma cq_new_le_cap:
  assumes wf: "cq_wf (jfc_cq (jfcs s jfc))" and new: "cq_new s jfc es"
  shows "length es \<le> ring_cap (jfc_cq (jfcs s jfc)) \<and> length es \<le> 33554432"
proof -
  let ?q = "jfc_cq (jfcs s jfc)" let ?n = "q_ci ?q"
  obtain c sh where g: "ring_geometry_is c sh ?q" "6 \<le> sh" using wf by (auto simp: cq_wf_def)
  note cap = ring_geometry_facts(6) [OF g(1)]
  have c: "c \<le> 25" using g by (simp add: ring_geometry_is_def)
  then have c25: "(2 :: nat) ^ c \<le> 2 ^ 25" by (intro power_increasing) auto
  have "\<not> ring_cap ?q < length es"
  proof
    assume lt: "ring_cap ?q < length es"
    have n0: "cqe_new s ?q ?n" "cqe_new s ?q (?n + of_nat (2 ^ c))"
      using new lt unfolding cq_new_def Let_def cap by (auto dest: spec [of _ 0])
    have same: "cqe_at s ?q (?n + of_nat (2 ^ c)) = cqe_at s ?q ?n"
      using blocks.slot_period [OF cq_wf_ring [OF wf], of ?n] by (simp add: cqe_at_def cap)
    have "(2 :: nat) ^ c * 2 dvd 2 ^ 32"
      unfolding power_Suc2 [symmetric] by (rule le_imp_power_dvd) (use c in simp)
    then have "unat (?n + of_nat (2 ^ c)) mod (2 ^ c * 2) = (unat ?n + 2 ^ c) mod (2 ^ c * 2)"
      by (rule unat_add_of_nat_mod)
    moreover have "odd (x div 2 ^ c) \<longleftrightarrow> odd (x mod (2 ^ c * 2) div 2 ^ c)" for x :: nat
      by (simp add: div_mult2_eq mod_mult2_eq even_iff_mod_2_eq_zero)
    ultimately have "odd (unat (?n + of_nat (2 ^ c)) div 2 ^ c) \<longleftrightarrow> odd ((unat ?n + 2 ^ c) div 2 ^ c)"
      by (metis)
    moreover have "(unat ?n + 2 ^ c) div 2 ^ c = unat ?n div 2 ^ c + 1" by (rule div_add_self2) simp
    ultimately have "lap_odd ?q (?n + of_nat (2 ^ c)) \<longleftrightarrow> \<not> lap_odd ?q ?n" by (simp add: lap_odd_def cap)
    then show False using n0 same by (simp add: cqe_new_def)
  qed
  then show ?thesis using cap c25 by simp
qed

lemma cq_wf_emit [simp]: "cq_new (emit e s) = cq_new s" "cqe_at (emit e s) = cqe_at s" "cqe_new (emit e s) = cqe_new s"
  by (simp_all add: fun_eq_iff cq_new_def cqe_at_def cqe_new_def)

lemma poll_loop_jfc:
  assumes wf: "cq_wf (jfc_cq (jfcs s jfc))" and new: "cq_new s jfc es" and good: "list_all cqe_good es"
    and len: "length es + k = unat cnt" "unat cnt \<le> length crs"
  obtains crs' s' where "good_run jfc es 0 crs (emit (EvLock jfc) s) = (crs', s')"
    and "poll_loop jfc (unat cnt) 0 crs (emit (EvLock jfc) s) = poll_loop jfc k (length es) crs' s'"
proof -
  obtain crs' s' where r: "good_run jfc es 0 crs (emit (EvLock jfc) s) = (crs', s')" by fastforce
  then show thesis
    using that [OF r] poll_loop_good [of "emit (EvLock jfc) s" jfc es 0 crs k] wf new good len by simp
qed

definition poll_records :: "cdma_u_jfc_cqe list \<Rightarrow> dma_cr list \<Rightarrow> bool" where
  "poll_records es crs \<longleftrightarrow> length es \<le> length crs \<and> (\<forall>i < length es.
     cr_status (crs ! i) = cqe_cr_status (es ! i) \<and> cr_completion_len (crs ! i) = cqe_byte_cnt (es ! i)
     \<and> cr_tpn (crs ! i) = ucast (cqe_tpn (es ! i)) \<and> cr_local_id (crs ! i) = cqe_local_id (es ! i)
     \<and> cr_remote_id (crs ! i) = ucast (cqe_rmt_idx (es ! i)))"

lemma good_run_records:
  assumes "good_run jfc es 0 crs s = (crs', s')" and "length es \<le> length crs"
  shows "poll_records es crs'"
proof -
  have "\<exists>t. crs' ! i = good_cr t (es ! i) (crs ! i)" if "i < length es" for i
    using good_run_facts(3) [OF assms(1)] assms(2) that by fastforce
  then show ?thesis
    using good_run_facts(1) [OF assms(1)] assms(2) by (fastforce simp: poll_records_def good_cr_def)
qed

lemma poll_jfc_result_eq:
  assumes "jfc \<noteq> NULL"
  shows "cdma_u_poll_jfc jfc cnt crs s = do {
     (ret, npolled, crs', s1) \<leftarrow> poll_loop jfc (unat cnt) 0 crs (emit (EvLock jfc) s);
     Some (if ret = JFC_POLL_ERR then - 1 else sint (of_nat npolled :: u32), crs',
           emit (EvUnlock jfc) (if npolled \<noteq> 0 then write_sw_db jfc s1 else s1))
   }"
  using assms by (simp add: cdma_u_poll_jfc_def)

lemma poll_jfc_new_spec:
  assumes nn: "jfc \<noteq> NULL" and wf: "cq_wf (jfc_cq (jfcs s jfc))" and new: "cq_new s jfc es" and good: "list_all cqe_good es"
    and len: "length es \<le> unat cnt" "unat cnt \<le> length crs"
    and more: "length es = unat cnt \<or> \<not> cqe_new s (jfc_cq (jfcs s jfc)) (q_ci (jfc_cq (jfcs s jfc)) + of_nat (length es))"
  shows "\<exists>crs' s'. cdma_u_poll_jfc jfc cnt crs s = Some (int (length es), crs', s') \<and> poll_records es crs'
     \<and> drop (length es) crs' = drop (length es) crs \<and> cqes s' = cqes s
     \<and> jfcs s' jfc = (jfcs s jfc)\<lparr>jfc_cq := (jfc_cq (jfcs s jfc))\<lparr>q_ci := q_ci (jfc_cq (jfcs s jfc)) + of_nat (length es)\<rparr>\<rparr>
     \<and> swdbs s' = (if es = [] then swdbs s else (swdbs s)(sw_db (jfcs s jfc) :=
          (q_ci (jfc_cq (jfcs s jfc)) + of_nat (length es)) AND CDMA_JFC_DB_CI_IDX_M))
     \<and> tr s' = EvUnlock jfc # replicate (length es) EvBarrierLd @ EvLock jfc # tr s"
proof -
  let ?q = "jfc_cq (jfcs s jfc)" let ?k = "unat cnt - length es"
  have k: "length es + ?k = unat cnt" using len by simp
  obtain crs' s1 where run: "good_run jfc es 0 crs (emit (EvLock jfc) s) = (crs', s1)"
    and loop: "poll_loop jfc (unat cnt) 0 crs (emit (EvLock jfc) s) = poll_loop jfc ?k (length es) crs' s1"
    using wf new good k len(2) by (rule poll_loop_jfc)
  have np: "0 + length es \<le> length crs" using len by simp
  note f = good_run_facts [OF run np]
  have fin: "poll_loop jfc ?k (length es) crs' s1 = Some (if ?k = 0 then JFC_OK else JFC_EMPTY, length es, crs', s1)"
  proof (cases ?k)
    case (Suc n)
    then have no: "\<not> cqe_new s ?q (q_ci ?q + of_nat (length es))" and lt: "length es < length crs'"
      using more len f(1) by auto
    have at: "cqe_at s1 = cqe_at s" using f(4) by (simp add: fun_eq_iff cqe_at_def)
    have wf1: "cq_wf (jfc_cq (jfcs s1 jfc))" using wf f(9) by simp
    have "cdma_u_get_next_cqe (jfcs s1 jfc) (q_ci (jfc_cq (jfcs s1 jfc))) s1 = Some NULL"
      using get_next_cqe_eq [OF wf1] no f(9) by (auto simp: cqe_new_def at)
    then have "cdma_u_poll_one jfc (crs' ! length es) s1 = Some (JFC_EMPTY, crs' ! length es, s1)"
      by (simp add: cdma_u_poll_one_def)
    then show ?thesis using Suc lt by simp
  qed simp
  have sm: "sint (of_nat (length es) :: u32) = int (length es)"
    using cq_new_le_cap [OF wf new] by (intro sint_small) simp
  let ?s2 = "emit (EvUnlock jfc) (if length es \<noteq> 0 then write_sw_db jfc s1 else s1)"
  have res: "cdma_u_poll_jfc jfc cnt crs s = Some (int (length es), crs', ?s2)"
    using poll_jfc_result_eq [OF nn] loop fin sm by (cases "?k = 0") simp_all
  have dr: "drop (length es) crs' = drop (length es) crs"
    by (rule nth_equalityI) (use f(1,2) in simp_all)
  show ?thesis
    using res dr f good_run_records [OF run] np by (intro exI [of _ crs'] exI [of _ ?s2]) (auto simp: write_sw_db_def)
qed

text \<open>
  C9: \<open>cdma_u_poll_jfc\<close> returns the new entries of the queue in their order, as many as there are
  and the caller asks for, one completion record for each, and leaves the other records alone; it
  consumes exactly these entries (consumer index and software doorbell), never touches the
  entries themselves, and works under the lock.
\<close>

theorem poll_jfc_new:
  assumes nn: "jfc \<noteq> NULL" and wf: "cq_wf (jfc_cq (jfcs s jfc))" and new: "cq_new s jfc es" and good: "list_all cqe_good es"
    and len: "length es \<le> unat cnt" "unat cnt \<le> length crs"
    and more: "length es = unat cnt \<or> \<not> cqe_new s (jfc_cq (jfcs s jfc)) (q_ci (jfc_cq (jfcs s jfc)) + of_nat (length es))"
  shows "\<exists>crs' s'. cdma_u_poll_jfc jfc cnt crs s = Some (int (length es), crs', s') \<and> poll_records es crs'
     \<and> drop (length es) crs' = drop (length es) crs \<and> cqes s' = cqes s
     \<and> jfcs s' jfc = (jfcs s jfc)\<lparr>jfc_cq := (jfc_cq (jfcs s jfc))\<lparr>q_ci := q_ci (jfc_cq (jfcs s jfc)) + of_nat (length es)\<rparr>\<rparr>
     \<and> swdbs s' = (if es = [] then swdbs s else (swdbs s)(sw_db (jfcs s jfc) :=
          (q_ci (jfc_cq (jfcs s jfc)) + of_nat (length es)) AND CDMA_JFC_DB_CI_IDX_M))
     \<and> tr s' = EvUnlock jfc # replicate (length es) EvBarrierLd @ EvLock jfc # tr s"
  by (rule poll_jfc_new_spec [OF assms])

lemma poll_one_bad:
  assumes wf: "cq_wf (jfc_cq (jfcs s jfc))" and new: "cqe_new s (jfc_cq (jfcs s jfc)) (q_ci (jfc_cq (jfcs s jfc)))"
    and e: "cqe_at s (jfc_cq (jfcs s jfc)) (q_ci (jfc_cq (jfcs s jfc))) = e"
    and bad: "cqe_queue e = NULL \<or> fst (cdma_get_cr_status (cqe_status e) (cqe_substatus e) DMA_CR_SUCCESS) = JFC_POLL_ERR"
  obtains cr2 t' where "cdma_u_poll_one jfc cr s = Some (JFC_POLL_ERR, cr2, t')"
    "q_ci (jfc_cq (jfcs t' jfc)) = q_ci (jfc_cq (jfcs s jfc)) + 1"
proof -
  let ?q = "jfc_cq (jfcs s jfc)"
  let ?t = "emit EvBarrierLd (s\<lparr>jfcs := (jfcs s)(jfc := (jfcs s jfc)\<lparr>jfc_cq := ?q\<lparr>q_ci := q_ci ?q + 1\<rparr>\<rparr>)\<rparr>)"
  have "\<exists>cr2 t'. cdma_parse_cqe_for_jfc e cr ?t = (JFC_POLL_ERR, cr2, t') \<and> jfcs t' = jfcs ?t"
    using bad cr_status_old(1) [of "cqe_status e" "cqe_substatus e" _ DMA_CR_SUCCESS]
    by (cases "cqe_queue e = NULL"; cases "cqe_fd e = 0")
       (auto simp: cdma_parse_cqe_for_jfc_def cdma_u_update_jetty_idx_def cdma_u_update_flush_cr_def Let_def split_beta)
  then obtain cr2 t' where parse: "cdma_parse_cqe_for_jfc e cr ?t = (JFC_POLL_ERR, cr2, t')" and t': "jfcs t' = jfcs ?t" by blast
  from t' have "q_ci (jfc_cq (jfcs t' jfc)) = q_ci ?q + 1" by (simp only: emit_sel) simp
  moreover note parse
  moreover have "cdma_u_get_next_cqe (jfcs s jfc) (q_ci ?q) s = Some (cdma_u_get_buf_entry ?q (q_ci ?q))"
    using get_next_cqe_eq [OF wf] new by (simp add: cqe_new_def)
  moreover have "cqes s (cdma_u_get_buf_entry ?q (q_ci ?q)) = e" using e by (simp add: cqe_at_def)
  ultimately show thesis using cq_entry_not_null [OF wf] by (intro that) (simp_all add: cdma_u_poll_one_def Let_def)
qed

text \<open>
  C17: an entry that names no queue, or whose status is not one of the table, makes the call return
  -1 even when good entries came before it: these are consumed with the bad one, the records of the
  good ones are filled in, but their number is lost to the caller.
\<close>

theorem poll_jfc_error:
  assumes nn: "jfc \<noteq> NULL" and wf: "cq_wf (jfc_cq (jfcs s jfc))" and new: "cq_new s jfc (es @ [e])"
    and good: "list_all cqe_good es" and len: "length es < unat cnt" "unat cnt \<le> length crs"
    and bad: "cqe_queue e = NULL \<or> fst (cdma_get_cr_status (cqe_status e) (cqe_substatus e) DMA_CR_SUCCESS) = JFC_POLL_ERR"
  shows "\<exists>crs' s'. cdma_u_poll_jfc jfc cnt crs s = Some (- 1, crs', s') \<and> poll_records es crs'
     \<and> q_ci (jfc_cq (jfcs s' jfc)) = q_ci (jfc_cq (jfcs s jfc)) + of_nat (length es) + 1"
proof -
  let ?q = "jfc_cq (jfcs s jfc)" let ?n = "length es"
  have k: "?n + Suc (unat cnt - Suc ?n) = unat cnt" using len by simp
  have n: "cqe_new s ?q (q_ci ?q + of_nat i) \<and> cqe_at s ?q (q_ci ?q + of_nat i) = (es @ [e]) ! i" if "i < Suc ?n" for i
    using new that by (simp add: cq_new_def Let_def)
  have newes: "cq_new s jfc es" unfolding cq_new_def Let_def using n by (simp add: nth_append)
  obtain crs' s1 where run: "good_run jfc es 0 crs (emit (EvLock jfc) s) = (crs', s1)"
    and loop: "poll_loop jfc (unat cnt) 0 crs (emit (EvLock jfc) s) = poll_loop jfc (Suc (unat cnt - Suc ?n)) ?n crs' s1"
    using wf newes good k len(2) by (rule poll_loop_jfc)
  have np: "0 + ?n \<le> length crs" using len by simp
  note f = good_run_facts [OF run np]
  have at: "cqe_at s1 = cqe_at s" using f(4) by (simp add: fun_eq_iff cqe_at_def)
  let ?q1 = "jfc_cq (jfcs s1 jfc)"
  have "cq_wf ?q1" "cqe_new s1 ?q1 (q_ci ?q1)" "cqe_at s1 ?q1 (q_ci ?q1) = e"
    using wf n [of ?n] f(9) by (auto simp: cqe_new_def at)
  then obtain cr2 t' where "cdma_u_poll_one jfc (crs' ! ?n) s1 = Some (JFC_POLL_ERR, cr2, t')"
      and ci: "q_ci (jfc_cq (jfcs t' jfc)) = q_ci ?q1 + 1"
    using bad by (rule poll_one_bad)
  moreover have "?n < length crs'" using f(1) len by simp
  ultimately have "poll_loop jfc (unat cnt) 0 crs (emit (EvLock jfc) s) = Some (JFC_POLL_ERR, ?n, crs'[?n := cr2], t')"
    using loop by simp
  then have "cdma_u_poll_jfc jfc cnt crs s = Some (- 1, crs'[?n := cr2],
      emit (EvUnlock jfc) (if ?n \<noteq> 0 then write_sw_db jfc t' else t'))"
    using poll_jfc_result_eq [OF nn] by simp
  moreover have "poll_records es (crs'[?n := cr2])"
    using good_run_records [OF run] np by (simp add: poll_records_def)
  ultimately show ?thesis
    using ci f(9) by (auto simp: write_sw_db_def)
qed

text \<open>
  A completion queue of eight entries at index 6 with three new entries, the third one in the next
  lap, for the requests in flight in the send queue of \<open>demo_post_st\<close>.
\<close>

definition demo_cqe :: "1 word \<Rightarrow> u16 \<Rightarrow> u8 \<Rightarrow> cdma_u_jfc_cqe" where
  "demo_cqe own idx status = zero_cqe\<lparr>cqe_owner := own, cqe_entry_idx := idx, cqe_status := status, cqe_byte_cnt := 4,
     cqe_local_num_l := 7, cqe_user_data0 := 0x248\<rparr>"

definition demo_cr :: dma_cr where
  "demo_cr = \<lparr>cr_status = DMA_CR_WR_UNHANDLED, cr_user_ctx = 0, cr_opcode = 0,
     cr_flag = \<lparr>crf_s_r = 0, crf_jetty = 0, crf_suspend_done = 0, crf_flush_err_done = 0\<rparr>,
     cr_completion_len = 0, cr_local_id = 0, cr_remote_id = 0, cr_tpn = 0\<rparr>"

definition demo_cq :: cdma_u_jetty_queue where
  "demo_cq = zero_jetty_queue\<lparr>qbuf := 0x600000, qbuf_size := 512, q_ci := 6, q_idx := 9, baseblk_shift := 6,
     baseblk_cnt := 8, baseblk_mask := 7\<rparr>"

definition demo_cq_st :: st where
  "demo_cq_st = demo_post_st\<lparr>
     jfss := (\<lambda>_. zero_jfs)(0x200 := zero_jfs\<lparr>jfs_dma_ctx := 0x40,
       jfs_sq := demo_sq\<lparr>q_pi := 1, qbuf_curr := 0x100040\<rparr>\<rparr>),
     wrids := (\<lambda>_. 0)(0x300030 := 0x77, 0x300038 := 0x78, 0x300000 := 0x79),
     jfcs := (\<lambda>_. zero_jfc)(0x800 := zero_jfc\<lparr>jfc_dma_ctx := 0x40, jfc_cq := demo_cq, sw_db := 0x700000, arm_sn := 1\<rparr>),
     cqes := (\<lambda>_. demo_cqe 1 0 0)(0x600180 := demo_cqe 1 6 0, 0x6001c0 := demo_cqe 1 7 0, 0x600000 := demo_cqe 0 0 0)\<rparr>"

lemma demo_cq_wf: "cq_wf (jfc_cq (jfcs demo_cq_st 0x800))"
proof -
  have "jfc_cq (jfcs demo_cq_st 0x800) = demo_cq" by (simp add: demo_cq_st_def)
  moreover have "cq_wf demo_cq"
    unfolding cq_wf_def by (intro exI [of _ 3] exI [of _ 6]) (simp add: ring_geometry_is_def demo_cq_def)
  ultimately show ?thesis by simp
qed

lemma poll_jfc_new_witness:
  "\<exists>crs' s'. cdma_u_poll_jfc 0x800 5 (replicate 5 demo_cr) demo_cq_st = Some (3, crs', s')
     \<and> q_ci (jfc_cq (jfcs s' 0x800)) = 9 \<and> swdbs s' 0x700000 = 9"
proof -
  let ?es = "[demo_cqe 1 6 0, demo_cqe 1 7 0, demo_cqe 0 0 0]"
  have "cq_new demo_cq_st 0x800 ?es"
  proof -
    have "\<forall>i\<in>set [0..<3]. cqe_new demo_cq_st demo_cq (q_ci demo_cq + of_nat i) \<and> cqe_at demo_cq_st demo_cq (q_ci demo_cq + of_nat i) = ?es ! i"
      by code_simp
    then show ?thesis by (simp add: cq_new_def Let_def demo_cq_st_def)
  qed
  moreover have "list_all cqe_good ?es" by code_simp
  moreover have "\<not> cqe_new demo_cq_st (jfc_cq (jfcs demo_cq_st 0x800)) (q_ci (jfc_cq (jfcs demo_cq_st 0x800)) + of_nat (length ?es))"
    by code_simp
  moreover have "q_ci (jfc_cq (jfcs demo_cq_st 0x800)) = 6" "sw_db (jfcs demo_cq_st 0x800) = 0x700000"
    by code_simp+
  moreover have "(9 :: u32) AND 0x3fffff = 9" by code_simp
  ultimately show ?thesis using poll_jfc_new [of "0x800" demo_cq_st ?es 5 "replicate 5 demo_cr"] demo_cq_wf by fastforce
qed

lemma poll_jfc_error_witness:
  "\<exists>crs' s'. cdma_u_poll_jfc 0x800 5 (replicate 5 demo_cr) (demo_cq_st\<lparr>cqes := (cqes demo_cq_st)(0x6001c0 := demo_cqe 1 7 9)\<rparr>)
     = Some (- 1, crs', s') \<and> q_ci (jfc_cq (jfcs s' 0x800)) = 8"
proof -
  let ?s = "demo_cq_st\<lparr>cqes := (cqes demo_cq_st)(0x6001c0 := demo_cqe 1 7 9)\<rparr>"
  have "cq_new ?s 0x800 ([demo_cqe 1 6 0] @ [demo_cqe 1 7 9])"
  proof -
    have "\<forall>i\<in>set [0..<2]. cqe_new ?s demo_cq (q_ci demo_cq + of_nat i) \<and> cqe_at ?s demo_cq (q_ci demo_cq + of_nat i) = [demo_cqe 1 6 0, demo_cqe 1 7 9] ! i"
      by code_simp
    then show ?thesis by (simp add: cq_new_def Let_def demo_cq_st_def)
  qed
  moreover have "list_all cqe_good [demo_cqe 1 6 0]" by code_simp
  moreover have "fst (cdma_get_cr_status (cqe_status (demo_cqe 1 7 9)) (cqe_substatus (demo_cqe 1 7 9)) DMA_CR_SUCCESS) = JFC_POLL_ERR"
    by code_simp
  moreover have "q_ci (jfc_cq (jfcs ?s 0x800)) = 6" by code_simp
  moreover have "cq_wf (jfc_cq (jfcs ?s 0x800))" using demo_cq_wf by simp
  ultimately show ?thesis
    using poll_jfc_error [of "0x800" ?s "[demo_cqe 1 6 0]" "demo_cqe 1 7 9" 5 "replicate 5 demo_cr"] by fastforce
qed

lemma poll_one_completes_spec:
  assumes wf: "cq_wf (jfc_cq (jfcs s jfc))" and new: "cqe_new s (jfc_cq (jfcs s jfc)) (q_ci (jfc_cq (jfcs s jfc)))"
    and e: "e = cqe_at s (jfc_cq (jfcs s jfc)) (q_ci (jfc_cq (jfcs s jfc)))" and good: "cqe_good e"
    and sq: "sq = sq_at s (cqe_queue e)" and sqwf: "sq_wf sq" and j: "j < unat (q_pi sq - q_ci sq)"
    and idx: "unat (cqe_entry_idx e) = unat (q_ci sq + of_nat j) mod ring_cap sq"
  shows "\<exists>cr' s'. cdma_u_poll_one jfc cr s = Some (JFC_OK, cr', s')
     \<and> cr_user_ctx cr' = sq_user_ctxs s sq ! j \<and> cr_status cr' = cqe_cr_status e \<and> cr_completion_len cr' = cqe_byte_cnt e
     \<and> (let sq' = sq_at s' (cqe_queue e) in sq_wf sq' \<and> q_pi sq' = q_pi sq
          \<and> sq_blocks s' sq' = drop (Suc j) (sq_blocks s sq) \<and> sq_user_ctxs s' sq' = drop (Suc j) (sq_user_ctxs s sq))
     \<and> q_ci (jfc_cq (jfcs s' jfc)) = q_ci (jfc_cq (jfcs s jfc)) + 1"
proof -
  obtain c where g: "ring_geometry_is c 6 sq" and room: "unat (q_pi sq - q_ci sq) \<le> 2 ^ c"
    using sqwf by (rule sq_wfE)
  have d: "done_ci sq e = q_ci sq + of_nat j"
    using done_ci_eq [OF g] idx j room by (simp add: ring_geometry_facts(6) [OF g])
  have "Suc j \<le> unat (q_pi sq - q_ci sq)" using j by simp
  note c = sq_complete [OF sqwf this]
  have sq': "sq_at (good_st jfc e s) (cqe_queue e) = sq\<lparr>q_ci := q_ci sq + of_nat (Suc j)\<rparr>"
    using d by (simp add: good_st_def Let_def sq [symmetric] add.assoc add.commute)
  have b: "sq_blocks (good_st jfc e s) q = sq_blocks s q" "sq_user_ctxs (good_st jfc e s) q = sq_user_ctxs s q" for q
    by (simp_all add: sq_blocks_def sq_user_ctxs_def)
  have "cr_user_ctx (good_cr s e cr) = sq_user_ctxs s sq ! j"
    using user_ctx_nth [OF j] d by (simp add: good_cr_def Let_def sq [symmetric])
  then show ?thesis
    using poll_one_good [OF wf new e good, of cr] c unfolding Let_def sq' b
    by (intro exI [of _ "good_cr s e cr"] exI [of _ "good_st jfc e s"]) (simp_all only: b, simp add: good_cr_def sq' b)
qed

text \<open>
  The table of completion statuses: success is reported for status 0, substatus 0 only, the
  fourteen known pairs are accepted, and every other pair is an error that leaves the record's
  status alone; no pair reads outside the table.
\<close>

lemma cr_status_table:
  "(cdma_get_cr_status a b x = (JFC_OK, DMA_CR_SUCCESS) \<longleftrightarrow> a = 0 \<and> b = 0)
   \<and> (fst (cdma_get_cr_status a b x) = JFC_OK \<longleftrightarrow>
        (b = 0 \<and> a \<in> {0, 1, 4, 5, 6}) \<or> (a = 2 \<and> b \<in> {1, 2, 3, 4}) \<or> (a = 3 \<and> b \<in> {1, 2, 4}))
   \<and> (cdma_get_cr_status a b x \<noteq> (JFC_POLL_ERR, x) \<longleftrightarrow> fst (cdma_get_cr_status a b x) = JFC_OK)"
proof (cases "a < 7 \<and> b < 5")
  case True
  then have "a \<in> {0, 1, 2, 3, 4, 5, 6}" "b \<in> {0, 1, 2, 3, 4}" using u8_less_cases by blast+
  then show ?thesis
    by (elim insertE emptyE; simp add: cdma_get_cr_status_def cr_status_map_def)
next
  case False
  then have "cdma_get_cr_status a b x = (JFC_POLL_ERR, x)" by (auto simp: cdma_get_cr_status_def)
  moreover have "\<not> (a = 0 \<and> b = 0)" using False by auto
  moreover have "\<not> (b = 0 \<and> a \<in> {0, 1, 4, 5, 6})" "\<not> (a = 2 \<and> b \<in> {1, 2, 3, 4})" "\<not> (a = 3 \<and> b \<in> {1, 2, 4})"
    using False by auto
  ultimately show ?thesis by simp
qed

text \<open>
  C18: the completion that ends the flush of a queue is consumed and marks the queue, but the call
  reports no completion for it; when it is the first entry the software doorbell, which tells the
  device what has been consumed, is not updated.
\<close>

theorem poll_jfc_flush_done:
  assumes nn: "jfc \<noteq> NULL" and wf: "cq_wf (jfc_cq (jfcs s jfc))"
    and new: "cqe_new s (jfc_cq (jfcs s jfc)) (q_ci (jfc_cq (jfcs s jfc)))"
    and e: "e = cqe_at s (jfc_cq (jfcs s jfc)) (q_ci (jfc_cq (jfcs s jfc)))"
    and fd: "cqe_fd e \<noteq> 0" "cqe_queue e \<noteq> NULL"
      "fst (cdma_get_cr_status (cqe_status e) (cqe_substatus e) DMA_CR_SUCCESS) = JFC_OK"
    and cnt: "0 < unat cnt" "0 < length crs"
  shows "\<exists>crs' s'. cdma_u_poll_jfc jfc cnt crs s = Some (0, crs', s') \<and> q_flush_flag (sq_at s' (cqe_queue e))
     \<and> q_ci (sq_at s' (cqe_queue e)) = q_ci (sq_at s (cqe_queue e))
     \<and> q_ci (jfc_cq (jfcs s' jfc)) = q_ci (jfc_cq (jfcs s jfc)) + 1 \<and> swdbs s' = swdbs s"
proof -
  let ?s = "emit (EvLock jfc) s" let ?q = "jfc_cq (jfcs s jfc)"
  obtain k where k: "unat cnt = Suc k" using cnt(1) by (cases "unat cnt") auto
  have nx: "cdma_u_get_next_cqe (jfcs ?s jfc) (q_ci ?q) ?s = Some (cdma_u_get_buf_entry ?q (q_ci ?q))"
    using get_next_cqe_eq [of "jfcs s jfc" "q_ci ?q" ?s] wf new by (simp add: cqe_new_def)
  have ee: "cqes s (cdma_u_get_buf_entry ?q (q_ci ?q)) = e" by (simp add: e cqe_at_def)
  have fl: "fst (cdma_get_cr_status (cqe_status e) (cqe_substatus e) x) = JFC_OK" for x
    using fd(3) cr_status_old(1) [of "cqe_status e" "cqe_substatus e" x DMA_CR_SUCCESS] by simp
  have parse: "\<exists>cr2. cdma_parse_cqe_for_jfc e cr t = (JFC_OK, cr2, set_sq (cqe_queue e) (sq_at t (cqe_queue e)\<lparr>q_flush_flag := True\<rparr>) t)
      \<and> cr_status cr2 = DMA_CR_WR_FLUSH_ERR_DONE" for cr t
    using fd fl by (simp add: cdma_parse_cqe_for_jfc_def cdma_u_update_jetty_idx_def cdma_u_update_flush_cr_def Let_def split_beta)
  define t where "t = emit EvBarrierLd (?s\<lparr>jfcs := (jfcs ?s)(jfc := (jfcs ?s jfc)\<lparr>jfc_cq := ?q\<lparr>q_ci := q_ci ?q + 1\<rparr>\<rparr>)\<rparr>)"
  obtain cr2 where "cdma_parse_cqe_for_jfc e (crs ! 0) t
      = (JFC_OK, cr2, set_sq (cqe_queue e) (sq_at t (cqe_queue e)\<lparr>q_flush_flag := True\<rparr>) t)" "cr_status cr2 = DMA_CR_WR_FLUSH_ERR_DONE"
    using parse by blast
  then have "cdma_u_poll_one jfc (crs ! 0) ?s
      = Some (JFC_EMPTY, cr2, set_sq (cqe_queue e) (sq_at t (cqe_queue e)\<lparr>q_flush_flag := True\<rparr>) t)"
    using nx cq_entry_not_null [OF wf, of "q_ci ?q"] by (simp add: cdma_u_poll_one_def Let_def ee t_def [symmetric] del: emit_sel) (simp add: t_def ee Let_def)
  then show ?thesis
    using poll_jfc_result_eq [OF nn, of cnt crs s] k cnt(2) by (simp add: t_def)
qed

lemma poll_jfc_flush_done_witness:
  "\<exists>crs' s'. cdma_u_poll_jfc 0x800 5 (replicate 5 demo_cr)
       (demo_cq_st\<lparr>cqes := (cqes demo_cq_st)(0x600180 := (demo_cqe 1 6 6)\<lparr>cqe_fd := 1\<rparr>)\<rparr>) = Some (0, crs', s')
     \<and> q_ci (jfc_cq (jfcs s' 0x800)) = 7 \<and> swdbs s' = swdbs demo_cq_st"
proof -
  let ?e = "(demo_cqe 1 6 6)\<lparr>cqe_fd := 1\<rparr>"
  let ?s = "demo_cq_st\<lparr>cqes := (cqes demo_cq_st)(0x600180 := ?e)\<rparr>"
  have "cq_wf (jfc_cq (jfcs ?s 0x800))" using demo_cq_wf by simp
  moreover have "cqe_new ?s (jfc_cq (jfcs ?s 0x800)) (q_ci (jfc_cq (jfcs ?s 0x800)))"
    "?e = cqe_at ?s (jfc_cq (jfcs ?s 0x800)) (q_ci (jfc_cq (jfcs ?s 0x800)))" "cqe_fd ?e \<noteq> 0" "cqe_queue ?e \<noteq> NULL"
    "fst (cdma_get_cr_status (cqe_status ?e) (cqe_substatus ?e) DMA_CR_SUCCESS) = JFC_OK"
    "q_ci (jfc_cq (jfcs ?s 0x800)) = 6"
    by code_simp+
  ultimately show ?thesis using poll_jfc_flush_done [of "0x800" ?s ?e 5 "replicate 5 demo_cr"] by fastforce
qed

section \<open>Removing the entries of a queue\<close>

text \<open>
  Where the signed subtraction of the second loop does not overflow and the limit of the first one
  does not wrap around.
\<close>

definition clean_safe :: "u32 \<Rightarrow> nat \<Rightarrow> bool" where
  "clean_safe ci n \<longleftrightarrow> unat ci + n < 2147483648 \<or> 2147483648 < unat ci \<and> unat ci + n < 4294967296"

lemma int_sub_offset:
  assumes "clean_safe ci n" and "i \<le> n"
  shows "int_sub (ci + of_nat i) ci = Some (int i)"
proof -
  have "unat (ci + of_nat i) = unat ci + i" using assms by (intro unat_add_of_nat_u32) (auto simp: clean_safe_def)
  then show ?thesis using assms by (auto simp: int_sub_def Let_def sint_u32 clean_safe_def)
qed

lemma int_sub_before:
  assumes "clean_safe ci n"
  shows "int_sub (ci - 1) ci = Some (- 1)"
proof (cases "ci = 0")
  case True
  have "sint (- 1 :: u32) = - 1" by simp
  then show ?thesis using True by (simp add: int_sub_def)
next
  case False
  then have "unat (ci - 1) = unat ci - 1" "0 < unat ci" by (simp_all add: unat_minus_one unat_gt_0)
  then show ?thesis using assms by (auto simp: int_sub_def Let_def sint_u32 clean_safe_def)
qed

lemma clean_scan_new:
  assumes wf: "cq_wf (jfc_cq j)" and ns: "q = jfc_cq j"
    and new: "\<And>i. i < k \<Longrightarrow> (cqe_owner (cqe_at s q (q_ci q + of_nat i)) = 1) \<noteq> lap_odd q (q_ci q)"
    and stop: "(cqe_owner (cqe_at s q (q_ci q + of_nat k)) = 1) = lap_odd q (q_ci q)"
    and k: "k \<le> ring_cap q" and room: "unat (q_ci q) + ring_cap q < 4294967296"
  shows "i \<le> k \<Longrightarrow> clean_scan j s (q_ci q + of_nat i) = Some (q_ci q + of_nat k)"
proof (induction "k - i" arbitrary: i)
  case 0
  then have "i = k" by simp
  then show ?case using stop get_next_cqe_eq [OF wf, of "q_ci q + of_nat k" s]
    by (subst clean_scan.simps) (simp add: ns)
next
  case (Suc m)
  then have i: "i < k" by simp
  have "unat (q_ci q + of_nat i) = unat (q_ci q) + i" "unat (q_ci q + baseblk_cnt q) = unat (q_ci q) + ring_cap q"
    using room i k unat_add_u32_le [of "q_ci q" "baseblk_cnt q"]
    by (auto intro!: unat_add_of_nat_u32 simp: ring_cap_def)
  then have "\<not> q_ci q + of_nat i > q_ci q + baseblk_cnt q" using i k by (simp add: word_less_nat_alt)
  moreover have "clean_scan j s (q_ci q + of_nat i + 1) = Some (q_ci q + of_nat k)"
  proof -
    have "clean_scan j s (q_ci q + of_nat (Suc i)) = Some (q_ci q + of_nat k)" using Suc i by (intro Suc(1)) simp_all
    then show ?thesis by (simp add: ac_simps)
  qed
  ultimately show ?case using new [OF i] get_next_cqe_eq [OF wf, of "q_ci q + of_nat i" s] cq_entry_not_null [OF wf]
    by (subst clean_scan.simps) (simp add: ns)
qed

definition kept :: "u32 \<Rightarrow> cdma_u_jfc_cqe list \<Rightarrow> cdma_u_jfc_cqe list" where
  "kept jetty_id es = filter (\<lambda>e. cqe_local_id e \<noteq> jetty_id) es"

definition removed :: "u32 \<Rightarrow> cdma_u_jfc_cqe list \<Rightarrow> nat" where
  "removed jetty_id es = length (filter (\<lambda>e. cqe_local_id e = jetty_id) es)"

lemma removed_kept: "removed jid es + length (kept jid es) = length es"
  unfolding removed_def kept_def by (induction es) auto

text \<open>
  What holds when the entries from the \<open>i\<close>-th on have been looked at: those kept are packed at the
  end, the earlier ones and everything outside are as they were, and all have the same owner bit.
\<close>

definition clean_mid ::
  "cdma_u_jetty_queue \<Rightarrow> u32 \<Rightarrow> cdma_u_jfc_cqe list \<Rightarrow> 1 word \<Rightarrow> (ptr \<Rightarrow> cdma_u_jfc_cqe) \<Rightarrow> nat \<Rightarrow> (ptr \<Rightarrow> cdma_u_jfc_cqe) \<Rightarrow> bool" where
  "clean_mid q jid es own m0 i m \<longleftrightarrow>
     (\<forall>j<i. m (cdma_u_get_buf_entry q (q_ci q + of_nat j)) = es ! j)
     \<and> (let f = removed jid (drop i es); ks = kept jid (drop i es) in
          \<forall>j<length ks. m (cdma_u_get_buf_entry q (q_ci q + of_nat (i + f + j))) = ks ! j)
     \<and> (\<forall>j<length es. cqe_owner (m (cdma_u_get_buf_entry q (q_ci q + of_nat j))) = own)
     \<and> (\<forall>a. a \<notin> (\<lambda>j. cdma_u_get_buf_entry q (q_ci q + of_nat j)) ` {..<length es} \<longrightarrow> m a = m0 a)"

lemma clean_back_step:
  assumes ring: "ring_wf q" and len: "length es \<le> ring_cap q" and i: "i < length es"
    and mid: "clean_mid q jid es own m0 (Suc i) m" and own: "\<forall>e\<in>set es. cqe_owner e = own"
  shows "cqe_local_id (es ! i) = jid \<Longrightarrow> clean_mid q jid es own m0 i m"
    and "cqe_local_id (es ! i) \<noteq> jid \<Longrightarrow> clean_mid q jid es own m0 i
          (m(cdma_u_get_buf_entry q (q_ci q + of_nat (i + removed jid (drop (Suc i) es))) := es ! i))"
proof -
  let ?a = "\<lambda>j. cdma_u_get_buf_entry q (q_ci q + of_nat j)"
  have d: "drop i es = es ! i # drop (Suc i) es" using i by (rule Cons_nth_drop_Suc [symmetric])
  let ?f = "removed jid (drop (Suc i) es)" let ?ks = "kept jid (drop (Suc i) es)"
  have fk: "?f + length ?ks = length es - Suc i" using removed_kept [of jid "drop (Suc i) es"] by simp
  have inj: "?a x = ?a y \<longleftrightarrow> x = y" if "x < length es" "y < length es" for x y
    using blocks.slot_distinct [OF ring, of x y "q_ci q"] that len by simp
  have A: "\<And>j. j < Suc i \<Longrightarrow> m (?a j) = es ! j"
    and B: "\<And>j. j < length ?ks \<Longrightarrow> m (?a (Suc i + ?f + j)) = ?ks ! j"
    and C: "\<And>j. j < length es \<Longrightarrow> cqe_owner (m (?a j)) = own"
    and D: "\<And>a. a \<notin> ?a ` {..<length es} \<Longrightarrow> m a = m0 a"
    using mid unfolding clean_mid_def Let_def by blast+
  show "clean_mid q jid es own m0 i m" if "cqe_local_id (es ! i) = jid"
  proof -
    have "removed jid (drop i es) = Suc ?f" "kept jid (drop i es) = ?ks" using that by (simp_all add: d removed_def kept_def)
    then show ?thesis unfolding clean_mid_def Let_def using A B C D by simp
  qed
  show "clean_mid q jid es own m0 i (m(?a (i + ?f) := es ! i))" if "cqe_local_id (es ! i) \<noteq> jid"
  proof -
    have r: "removed jid (drop i es) = ?f" "kept jid (drop i es) = es ! i # ?ks" using that by (simp_all add: d removed_def kept_def)
    have t: "i + ?f < length es" using fk i by linarith
    have "(m(?a (i + ?f) := es ! i)) (?a j) = es ! j" if "j < i" for j
      using A [of j] inj [of j "i + ?f"] that t i by auto
    moreover have "(m(?a (i + ?f) := es ! i)) (?a (i + ?f + j)) = (es ! i # ?ks) ! j" if "j < Suc (length ?ks)" for j
    proof (cases j)
      case (Suc l)
      then have "l < length ?ks" "Suc i + ?f + l < length es" using that fk i by simp_all
      then show ?thesis using B [of l] inj [of "Suc i + ?f + l" "i + ?f"] t Suc by auto
    qed simp
    moreover have "cqe_owner ((m(?a (i + ?f) := es ! i)) (?a j)) = own" if "j < length es" for j
      using C [OF that] own i by auto
    moreover have "(m(?a (i + ?f) := es ! i)) a = m0 a" if "a \<notin> ?a ` {..<length es}" for a
    proof -
      have "?a (i + ?f) \<in> ?a ` {..<length es}" using t by (intro imageI) simp
      then have "a \<noteq> ?a (i + ?f)" using that by blast
      then show ?thesis using D [OF that] by simp
    qed
    ultimately show ?thesis unfolding clean_mid_def Let_def r by simp
  qed
qed

lemma cqe_owner_same: "cqe_owner e = own \<Longrightarrow> e\<lparr>cqe_owner := own\<rparr> = (e :: cdma_u_jfc_cqe)"
  by (cases e) simp

lemma clean_back_run:
  assumes ring: "ring_wf q" and len: "length es \<le> ring_cap q" and safe: "clean_safe (q_ci q) (length es)"
    and own: "\<forall>e\<in>set es. cqe_owner e = own" and i: "i \<le> length es"
    and mid: "clean_mid q jid es own m0 i (cqes s)"
  shows "\<exists>s'. clean_back q jid (q_ci q + of_nat i) (of_nat (removed jid (drop i es))) s = Some (of_nat (removed jid es), s')
     \<and> clean_mid q jid es own m0 0 (cqes s') \<and> s' = s\<lparr>cqes := cqes s', tr := tr s'\<rparr>"
  using i mid
proof (induction i arbitrary: s)
  case 0
  have "clean_back q jid (q_ci q + of_nat 0) (of_nat (removed jid (drop 0 es))) s = Some (of_nat (removed jid es), s)"
    using int_sub_before [OF safe] by (subst clean_back.simps) simp
  then show ?case using 0 by (intro exI [of _ s]) simp
next
  case (Suc i)
  let ?f = "removed jid (drop (Suc i) es)" let ?p = "cdma_u_get_buf_entry q (q_ci q + of_nat i)"
  let ?d = "cdma_u_get_buf_entry q (q_ci q + of_nat (i + ?f))"
  have i: "i < length es" using Suc.prems by simp
  note step = clean_back_step [OF ring len i Suc.prems(2) own]
  have dr: "drop i es = es ! i # drop (Suc i) es" using i by (rule Cons_nth_drop_Suc [symmetric])
  have fle: "i + ?f < length es" using removed_kept [of jid "drop (Suc i) es"] i by simp
  have f32: "?f < 2 ^ 32" using fle safe by (auto simp: clean_safe_def)
  then have f0: "(of_nat ?f :: u32) = 0 \<longleftrightarrow> ?f = 0"
    using unat_of_nat [of ?f, where 'a = 32] by (simp add: word_unat_eq_iff)
  have pi: "q_ci q + of_nat (Suc i) - 1 = q_ci q + of_nat i" by simp
  have d: "int_sub (q_ci q + of_nat i) (q_ci q) = Some (int i)" by (rule int_sub_offset [OF safe]) (use i in simp)
  have e: "cqes s ?p = es ! i" and od: "cqe_owner (cqes s ?d) = own"
    using Suc.prems(2) fle unfolding clean_mid_def Let_def by blast+
  have oe: "cqe_owner (es ! i) = own" using own i by simp
  have out: "q_ci q + of_nat i + of_nat ?f = q_ci q + of_nat (i + ?f)" by (simp add: add.assoc)
  show ?case
  proof (cases "cqe_local_id (es ! i) = jid")
    case True
    then have r: "(of_nat ?f :: u32) + 1 = of_nat (removed jid (drop i es))" by (simp add: dr removed_def)
    have "clean_back q jid (q_ci q + of_nat (Suc i)) (of_nat ?f) s
        = clean_back q jid (q_ci q + of_nat i) (of_nat (removed jid (drop i es))) (emit EvBarrierLd s)"
      unfolding r [symmetric] by (subst clean_back.simps) (simp only: pi d, simp add: e True Let_def)
    then show ?thesis using Suc.IH [of "emit EvBarrierLd s"] step(1) True i by (fastforce simp: emit_def)
  next
    case False
    then have r: "?f = removed jid (drop i es)" by (simp add: dr removed_def)
    let ?s = "(if ?f = 0 then emit EvBarrierLd s
      else (emit EvBarrierLd (emit EvBarrierLd s))\<lparr>cqes := (cqes s)(?d := es ! i)\<rparr>)"
    have "clean_back q jid (q_ci q + of_nat (Suc i)) (of_nat ?f) s
        = clean_back q jid (q_ci q + of_nat i) (of_nat (removed jid (drop i es))) ?s"
      unfolding r [symmetric]
      by (subst clean_back.simps) (simp only: pi d out, simp add: e od oe False f0 Let_def cqe_owner_same del: of_nat_add)
    moreover have "clean_mid q jid es own m0 i (cqes ?s)"
    proof (cases "?f = 0")
      case True
      then have "(cqes s)(?d := es ! i) = cqes s" using e by (simp add: fun_upd_idem)
      then show ?thesis using step(2) [OF False] True by simp
    qed (use step(2) [OF False] in simp)
    ultimately show ?thesis using Suc.IH [of ?s] i by (fastforce simp: emit_def split: if_splits)
  qed
qed

lemma lap_same:
  assumes g: "ring_geometry_is c sh q" and i: "unat (q_ci q) mod 2 ^ c + i < 2 ^ c"
    and room: "unat (q_ci q) + i < 4294967296"
  shows "lap_odd q (q_ci q + of_nat i) = lap_odd q (q_ci q)"
proof -
  have "(unat (q_ci q) + i) div 2 ^ c = unat (q_ci q) div 2 ^ c"
  proof -
    have "unat (q_ci q) + i = 2 ^ c * (unat (q_ci q) div 2 ^ c) + (unat (q_ci q) mod 2 ^ c + i)" by simp
    then have "(unat (q_ci q) + i) div 2 ^ c = unat (q_ci q) div 2 ^ c + (unat (q_ci q) mod 2 ^ c + i) div 2 ^ c"
      by (metis div_mult_self4 power_not_zero zero_neq_numeral)
    then show ?thesis using i by simp
  qed
  then show ?thesis
    unfolding lap_odd_def ring_geometry_facts(6) [OF g] unat_add_of_nat_u32 [OF room] by simp
qed

lemma lap_next:
  assumes g: "ring_geometry_is c sh q" and i: "2 ^ c \<le> unat (q_ci q) mod 2 ^ c + i" "i \<le> 2 ^ c"
    and room: "unat (q_ci q) + i < 4294967296"
  shows "lap_odd q (q_ci q + of_nat i) \<longleftrightarrow> \<not> lap_odd q (q_ci q)"
proof -
  have "unat (q_ci q) mod 2 ^ c < 2 ^ c" by simp
  then have "unat (q_ci q) mod 2 ^ c + i - 2 ^ c < 2 ^ c" "2 ^ c \<le> unat (q_ci q) mod 2 ^ c + i" using i by linarith+
  then have "(unat (q_ci q) mod 2 ^ c + i) div 2 ^ c = 1" by (simp add: le_div_geq)
  moreover have "unat (q_ci q) + i = 2 ^ c * (unat (q_ci q) div 2 ^ c) + (unat (q_ci q) mod 2 ^ c + i)" by simp
  then have "(unat (q_ci q) + i) div 2 ^ c = unat (q_ci q) div 2 ^ c + (unat (q_ci q) mod 2 ^ c + i) div 2 ^ c"
    by (metis div_mult_self4 power_not_zero zero_neq_numeral)
  ultimately have "(unat (q_ci q) + i) div 2 ^ c = Suc (unat (q_ci q) div 2 ^ c)" by simp
  then show ?thesis
    unfolding lap_odd_def ring_geometry_facts(6) [OF g] unat_add_of_nat_u32 [OF room] by simp
qed

text \<open>
  The entries that the first loop takes for new, by the parity of the lap of the consumer index, are
  cleaned by the second one.
\<close>

lemma clean_jfc_run:
  assumes nn: "jfc \<noteq> NULL" and wf: "cq_wf q" and q: "q = jfc_cq (jfcs s jfc)"
    and at: "\<And>i. i < length es \<Longrightarrow> cqe_at s q (q_ci q + of_nat i) = es ! i"
    and valid: "\<forall>e\<in>set es. (cqe_owner e = 1) \<noteq> lap_odd q (q_ci q)"
    and stop: "(cqe_owner (cqe_at s q (q_ci q + of_nat (length es))) = 1) = lap_odd q (q_ci q)"
    and le: "length es \<le> ring_cap q" and safe: "clean_safe (q_ci q) (ring_cap q)"
  shows "\<exists>s'. cdma_u_clean_jfc jfc jid s = Some s'
     \<and> jfc_cq (jfcs s' jfc) = q\<lparr>q_ci := q_ci q + of_nat (removed jid es)\<rparr>
     \<and> clean_mid q jid es (of_bool (\<not> lap_odd q (q_ci q))) (cqes s) 0 (cqes s')
     \<and> swdbs s' = (if removed jid es = 0 then swdbs s
         else (swdbs s)(sw_db (jfcs s jfc) := (q_ci q + of_nat (removed jid es)) AND CDMA_JFC_DB_CI_IDX_M))"
proof -
  let ?n = "length es" let ?o = "\<not> lap_odd q (q_ci q)" let ?s = "emit (EvLock jfc) s"
  have room: "unat (q_ci q) + ring_cap q < 4294967296" using safe by (auto simp: clean_safe_def)
  have own: "\<forall>e\<in>set es. cqe_owner e = of_bool ?o"
  proof
    fix e assume "e \<in> set es"
    then show "cqe_owner e = of_bool ?o" using valid word1_cases [of "cqe_owner e"] by auto
  qed
  have "clean_scan (jfcs s jfc) ?s (q_ci q + of_nat 0) = Some (q_ci q + of_nat ?n)"
  proof (rule clean_scan_new [OF wf [unfolded q] q])
    show "(cqe_owner (cqe_at ?s q (q_ci q + of_nat i)) = 1) \<noteq> lap_odd q (q_ci q)" if "i < ?n" for i
      using at [OF that] valid that by (simp add: cqe_at_def)
    show "(cqe_owner (cqe_at ?s q (q_ci q + of_nat ?n)) = 1) = lap_odd q (q_ci q)"
      using stop by (simp add: cqe_at_def)
  qed (use le room in simp_all)
  then have scan: "clean_scan (jfcs s jfc) ?s (q_ci q) = Some (q_ci q + of_nat ?n)" by simp
  have safe': "clean_safe (q_ci q) ?n" using safe le by (auto simp: clean_safe_def)
  have "clean_mid q jid es (of_bool ?o) (cqes ?s) ?n (cqes ?s)"
    using at own by (auto simp: clean_mid_def cqe_at_def removed_def kept_def)
  from clean_back_run [OF cq_wf_ring [OF wf] le safe' own order_refl this] obtain s1 where
    bk: "clean_back q jid (q_ci q + of_nat ?n) 0 ?s = Some (of_nat (removed jid es), s1)"
    and mid: "clean_mid q jid es (of_bool ?o) (cqes ?s) 0 (cqes s1)" and fr: "s1 = ?s\<lparr>cqes := cqes s1, tr := tr s1\<rparr>"
    by (auto simp: removed_def)
  have j1: "jfcs s1 = jfcs s" "swdbs s1 = swdbs s" by (subst fr, simp)+
  have "removed jid es \<le> ?n" by (simp add: removed_def)
  then have "removed jid es < 2 ^ 32" using le room by simp
  then have r0: "(of_nat (removed jid es) :: u32) = 0 \<longleftrightarrow> removed jid es = 0"
    using unat_of_nat [of "removed jid es", where 'a = 32] by (simp add: word_unat_eq_iff)
  let ?r = "of_nat (removed jid es) :: u32"
  let ?s3 = "emit (EvUnlock jfc) (if ?r \<noteq> 0
      then write_sw_db jfc (emit EvBarrierSt (s1\<lparr>jfcs := (jfcs s1)(jfc :=
             (jfcs s1 jfc)\<lparr>jfc_cq := (jfc_cq (jfcs s1 jfc))\<lparr>q_ci := q_ci (jfc_cq (jfcs s1 jfc)) + ?r\<rparr>\<rparr>)\<rparr>))
      else s1)"
  have run: "cdma_u_clean_jfc jfc jid s = Some ?s3"
    using nn scan bk by (simp add: cdma_u_clean_jfc_def Let_def q)
  have q3: "jfc_cq (jfcs ?s3 jfc) = q\<lparr>q_ci := q_ci q + ?r\<rparr>"
    by (simp add: j1 write_sw_db_def q)
  have c3: "cqes ?s3 = cqes s1" by (simp add: write_sw_db_def)
  have d3: "swdbs ?s3 = (if removed jid es = 0 then swdbs s
      else (swdbs s)(sw_db (jfcs s jfc) := (q_ci q + ?r) AND CDMA_JFC_DB_CI_IDX_M))"
    using r0 by (simp add: write_sw_db_def j1 q)
  show ?thesis using run q3 mid d3 by (intro exI [of _ ?s3]) (simp only: c3, simp)
qed

text \<open>What is then in the ring: the kept ones of the prefix that was cleaned, and what came behind it.\<close>

lemma clean_mid_window:
  assumes ring: "ring_wf q" and len: "length es \<le> ring_cap q" and k: "k \<le> length es"
    and at: "\<And>i. i < length es \<Longrightarrow> m0 (cdma_u_get_buf_entry q (q_ci q + of_nat i)) = es ! i"
    and mid: "clean_mid q jid (take k es) own m0 0 m"
  shows "window cdma_u_get_buf_entry m (q\<lparr>q_ci := x\<rparr>) (q_ci q + of_nat (removed jid (take k es)))
      (length (kept jid (take k es)) + (length es - k)) = kept jid (take k es) @ drop k es"
proof (rule nth_equalityI)
  let ?a = "\<lambda>j. cdma_u_get_buf_entry q (q_ci q + of_nat j)"
  let ?f = "removed jid (take k es)" let ?ks = "kept jid (take k es)"
  have fk: "?f + length ?ks = k" using removed_kept [of jid "take k es"] k by simp
  have B: "\<And>j. j < length ?ks \<Longrightarrow> m (?a (?f + j)) = ?ks ! j"
    and D: "\<And>a. a \<notin> ?a ` {..<k} \<Longrightarrow> m a = m0 a"
    using mid k unfolding clean_mid_def Let_def by simp_all
  show "length (window cdma_u_get_buf_entry m (q\<lparr>q_ci := x\<rparr>) (q_ci q + of_nat ?f) (length ?ks + (length es - k)))
      = length (?ks @ drop k es)" by (simp add: window_def)
  fix i assume "i < length (window cdma_u_get_buf_entry m (q\<lparr>q_ci := x\<rparr>) (q_ci q + of_nat ?f) (length ?ks + (length es - k)))"
  then have i: "i < length ?ks + (length es - k)" by (simp add: window_def)
  then have w: "window cdma_u_get_buf_entry m (q\<lparr>q_ci := x\<rparr>) (q_ci q + of_nat ?f) (length ?ks + (length es - k)) ! i = m (?a (?f + i))"
    by (simp add: window_def add.assoc)
  show "window cdma_u_get_buf_entry m (q\<lparr>q_ci := x\<rparr>) (q_ci q + of_nat ?f) (length ?ks + (length es - k)) ! i
      = (?ks @ drop k es) ! i"
  proof (cases "i < length ?ks")
    case True
    then show ?thesis using w B by (simp add: nth_append)
  next
    case False
    then have p: "?f + i = k + (i - length ?ks)" "k \<le> ?f + i" "?f + i < length es" using fk i by linarith+
    have "?a (?f + i) \<notin> ?a ` {..<k}"
    proof
      assume "?a (?f + i) \<in> ?a ` {..<k}"
      then obtain j where "j < k" "?a (?f + i) = ?a j" by blast
      then show False using blocks.slot_distinct [OF ring, of "?f + i" j "q_ci q"] p(2,3) len by simp
    qed
    then have "m (?a (?f + i)) = es ! (?f + i)" using D at [OF p(3)] by simp
    also have "\<dots> = drop k es ! (i - length ?ks)" using p(1) k by simp
    finally show ?thesis using w False by (simp add: nth_append)
  qed
qed

text \<open>
  C19: \<open>cdma_u_clean_jfc\<close> removes the entries of the given queue up to the end of the ring, and only
  those. Of the new entries \<open>es\<close>, the first \<open>k\<close> lie before the end of the ring (all of them, unless they
  go on at its start): from these the entries of the queue are taken out, the other queues' ones are
  kept, unchanged and in their order, and the consumer index, with the software doorbell, moves up
  by the number of those taken out. The entries behind the end of the ring stay as they are, those
  of the removed queue included: there the loop takes the owner bit of the wrong lap. Excluded are new
  entries that end exactly where the ring ends, when the loop runs on into entries consumed before,
  and a consumer index within a ring of \<open>2 ^ 31\<close> or \<open>2 ^ 32\<close>.
\<close>

theorem clean_jfc_removes:
  assumes nn: "jfc \<noteq> NULL" and wf: "cq_wf q" and q: "q = jfc_cq (jfcs s jfc)" and new: "cq_new s jfc es"
    and stop: "\<not> cqe_new s q (q_ci q + of_nat (length es))" and len: "length es \<le> ring_cap q"
    and lap: "unat (q_ci q) mod ring_cap q + length es \<noteq> ring_cap q" and safe: "clean_safe (q_ci q) (ring_cap q)"
    and k: "k = min (length es) (ring_cap q - unat (q_ci q) mod ring_cap q)"
  shows "\<exists>s'. cdma_u_clean_jfc jfc jetty_id s = Some s'
     \<and> (let q' = jfc_cq (jfcs s' jfc); gone = removed jetty_id (take k es); left = kept jetty_id (take k es) @ drop k es in
        q' = q\<lparr>q_ci := q_ci q + of_nat gone\<rparr>
        \<and> window cdma_u_get_buf_entry (cqes s') q' (q_ci q') (length left) = left
        \<and> swdbs s' = (if gone = 0 then swdbs s
                      else (swdbs s)(sw_db (jfcs s jfc) := q_ci q' AND CDMA_JFC_DB_CI_IDX_M)))"
proof -
  obtain c sh where g: "ring_geometry_is c sh q" using wf by (auto simp: cq_wf_def)
  note cap = ring_geometry_facts(6) [OF g]
  let ?es = "take k es" let ?m = "unat (q_ci q) mod ring_cap q"
  have kl: "k \<le> length es" "k \<le> ring_cap q" using k by simp_all
  have room: "unat (q_ci q) + ring_cap q < 4294967296" using safe by (auto simp: clean_safe_def)
  have mlt: "?m < ring_cap q" unfolding cap by simp
  have odd: "lap_odd q (q_ci q + of_nat i) = lap_odd q (q_ci q)" if "i < ring_cap q - ?m" for i
    using that room by (intro lap_same [OF g]) (simp_all add: cap)
  have at: "cqe_at s q (q_ci q + of_nat i) = es ! i" and nw: "cqe_new s q (q_ci q + of_nat i)" if "i < length es" for i
    using new that by (simp_all add: cq_new_def Let_def q)
  have valid: "\<forall>e\<in>set ?es. (cqe_owner e = 1) \<noteq> lap_odd q (q_ci q)"
  proof
    fix e assume "e \<in> set ?es"
    then obtain i where i: "i < k" "e = es ! i" using kl by (auto simp: in_set_conv_nth)
    then show "(cqe_owner e = 1) \<noteq> lap_odd q (q_ci q)" using at [of i] nw [of i] odd [of i] k by (simp add: cqe_new_def)
  qed
  have "(cqe_owner (cqe_at s q (q_ci q + of_nat k)) = 1) = lap_odd q (q_ci q)"
  proof (cases "length es < ring_cap q - ?m")
    case True
    then have "k = length es" using k by simp
    then show ?thesis using stop odd [OF True] by (simp add: cqe_new_def)
  next
    case False
    then have kk: "ring_cap q \<le> ?m + k" and "k < length es" using k lap mlt by linarith+
    have "unat (q_ci q) + k < 4294967296" using room kl(2) by linarith
    from lap_next [OF g kk [unfolded cap] kl(2) [unfolded cap] this] nw [OF \<open>k < length es\<close>] show ?thesis
      by (simp add: cqe_new_def)
  qed
  then have st: "(cqe_owner (cqe_at s q (q_ci q + of_nat (length ?es))) = 1) = lap_odd q (q_ci q)" using kl by simp
  have "length ?es \<le> ring_cap q" using kl by simp
  from clean_jfc_run [OF nn wf q _ valid st this safe, of jetty_id] at obtain s' where
    s': "cdma_u_clean_jfc jfc jetty_id s = Some s'" "jfc_cq (jfcs s' jfc) = q\<lparr>q_ci := q_ci q + of_nat (removed jetty_id ?es)\<rparr>"
      "clean_mid q jetty_id ?es (of_bool (\<not> lap_odd q (q_ci q))) (cqes s) 0 (cqes s')"
      "swdbs s' = (if removed jetty_id ?es = 0 then swdbs s
         else (swdbs s)(sw_db (jfcs s jfc) := (q_ci q + of_nat (removed jetty_id ?es)) AND CDMA_JFC_DB_CI_IDX_M))"
    by auto
  from clean_mid_window [OF cq_wf_ring [OF wf] len kl(1) _ s'(3)] at show ?thesis
    unfolding Let_def by (intro exI [of _ s'] conjI s'(1)) (simp_all add: s'(2,4) cqe_at_def)
qed

text \<open>
  The ring has eight entries and the consumer index is 6: two entries lie before the end of the ring,
  two behind it, and of each pair the second is of queue 5. The first of the two is removed, the one
  behind the end is left.
\<close>

definition demo_clean_st :: st where
  "demo_clean_st = demo_cq_st\<lparr>
     cqes := (\<lambda>_. demo_cqe 0 0 0)(0x600180 := demo_cqe 1 6 0, 0x6001c0 := (demo_cqe 1 7 0)\<lparr>cqe_local_num_l := 5\<rparr>,
       0x600000 := demo_cqe 0 0 0, 0x600040 := (demo_cqe 0 1 0)\<lparr>cqe_local_num_l := 5\<rparr>, 0x600080 := demo_cqe 1 0 0)\<rparr>"

lemma clean_jfc_removes_witness:
  "\<exists>s'. cdma_u_clean_jfc 0x800 5 demo_clean_st = Some s' \<and> q_ci (jfc_cq (jfcs s' 0x800)) = 7
     \<and> window cdma_u_get_buf_entry (cqes s') (jfc_cq (jfcs s' 0x800)) 7 3
       = [demo_cqe 1 6 0, demo_cqe 0 0 0, (demo_cqe 0 1 0)\<lparr>cqe_local_num_l := 5\<rparr>]"
proof -
  let ?es = "[demo_cqe 1 6 0, (demo_cqe 1 7 0)\<lparr>cqe_local_num_l := 5\<rparr>, demo_cqe 0 0 0, (demo_cqe 0 1 0)\<lparr>cqe_local_num_l := 5\<rparr>]"
  let ?q = demo_cq
  have q: "?q = jfc_cq (jfcs demo_clean_st 0x800)" by (simp add: demo_clean_st_def demo_cq_st_def)
  have wf: "cq_wf ?q" using demo_cq_wf by (simp add: demo_cq_st_def)
  have "\<forall>i\<in>set [0..<4]. cqe_new demo_clean_st ?q (q_ci ?q + of_nat i) \<and> cqe_at demo_clean_st ?q (q_ci ?q + of_nat i) = ?es ! i"
    by code_simp
  then have new: "cq_new demo_clean_st 0x800 ?es" by (simp add: cq_new_def Let_def q [symmetric])
  have stop: "\<not> cqe_new demo_clean_st ?q (q_ci ?q + of_nat (length ?es))" by code_simp
  have len: "length ?es \<le> ring_cap ?q" "unat (q_ci ?q) mod ring_cap ?q + length ?es \<noteq> ring_cap ?q"
    "2 = min (length ?es) (ring_cap ?q - unat (q_ci ?q) mod ring_cap ?q)" by code_simp+
  have safe: "clean_safe (q_ci ?q) (ring_cap ?q)" by (simp add: clean_safe_def ring_cap_def demo_cq_def)
  have rk: "removed 5 (take 2 ?es) = 1" "kept 5 (take 2 ?es) = [demo_cqe 1 6 0]" "q_ci ?q = 6" by code_simp+
  have "(0x800 :: ptr) \<noteq> NULL" by simp
  from clean_jfc_removes [OF this wf q new stop len(1,2) safe len(3), of 5]
  obtain s' where "cdma_u_clean_jfc 0x800 5 demo_clean_st = Some s'" "jfc_cq (jfcs s' 0x800) = ?q\<lparr>q_ci := 6 + 1\<rparr>"
    "window cdma_u_get_buf_entry (cqes s') (jfc_cq (jfcs s' 0x800)) (q_ci (jfc_cq (jfcs s' 0x800))) 3
       = [demo_cqe 1 6 0, demo_cqe 0 0 0, (demo_cqe 0 1 0)\<lparr>cqe_local_num_l := 5\<rparr>]"
    unfolding rk Let_def by (auto simp: numeral_3_eq_3)
  then show ?thesis by (intro exI [of _ s']) simp
qed

text \<open>
  C20: in the last lap before the 32-bit consumer index wraps around, the limit of the first loop
  wraps around too: the loop stops at once and no entry is removed, whatever is in the queue.
\<close>

theorem clean_jfc_last_lap:
  assumes nn: "jfc \<noteq> NULL" and wf: "cq_wf q" and q: "q = jfc_cq (jfcs s jfc)"
    and last: "4294967296 \<le> unat (q_ci q) + ring_cap q"
  shows "cdma_u_clean_jfc jfc jetty_id s = Some (emit (EvUnlock jfc) (emit (EvLock jfc) s))"
proof -
  let ?s = "emit (EvLock jfc) s"
  obtain c sh where g: "ring_geometry_is c sh q" "6 \<le> sh" using wf by (auto simp: cq_wf_def)
  have "c \<le> 25" using g by (simp add: ring_geometry_is_def)
  then have "(2 :: nat) ^ c \<le> 2 ^ 25" by (intro power_increasing) auto
  then have cap: "ring_cap q \<le> 33554432" "0 < ring_cap q" using ring_geometry_facts(6) [OF g(1)] by simp_all
  have "unat (q_ci q + baseblk_cnt q) = unat (q_ci q) + ring_cap q - 4294967296"
  proof -
    have "unat (q_ci q + baseblk_cnt q) = (unat (q_ci q) + ring_cap q) mod 4294967296"
      by (simp only: unat_add_u32 ring_cap_def)
    also have "\<dots> = (unat (q_ci q) + ring_cap q - 4294967296) mod 4294967296" using last by (rule le_mod_geq)
    also have "\<dots> = unat (q_ci q) + ring_cap q - 4294967296"
      using cap unat_u32_less [of "q_ci q"] by (intro mod_less) linarith
    finally show ?thesis .
  qed
  then have gt: "q_ci q > q_ci q + baseblk_cnt q"
    using cap unat_u32_less [of "q_ci q"] last by (simp add: word_less_nat_alt)
  have scan: "clean_scan (jfcs s jfc) ?s (q_ci q) = Some (q_ci q)"
    using gt get_next_cqe_eq [OF wf [unfolded q], of "q_ci q" ?s] by (subst clean_scan.simps) (simp add: q)
  have "clean_safe (q_ci q) 0" using last cap unat_u32_less [of "q_ci q"] by (simp add: clean_safe_def)
  then have "int_sub (q_ci q - 1) (q_ci q) = Some (- 1)" by (rule int_sub_before)
  then have "clean_back q jetty_id (q_ci q) 0 ?s = Some (0, ?s)" by (subst clean_back.simps) simp
  then show ?thesis using nn scan by (simp add: cdma_u_clean_jfc_def q)
qed

lemma clean_jfc_last_lap_witness:
  "map_option tr (cdma_u_clean_jfc 0x800 7 (demo_cq_st\<lparr>jfcs := (jfcs demo_cq_st)(0x800 :=
     (jfcs demo_cq_st 0x800)\<lparr>jfc_cq := demo_cq\<lparr>q_ci := 0xfffffffa\<rparr>\<rparr>)\<rparr>)) = Some [EvUnlock 0x800, EvLock 0x800]"
proof -
  let ?q = "demo_cq\<lparr>q_ci := 0xfffffffa\<rparr>"
  have wf: "cq_wf ?q" using demo_cq_wf by (simp add: demo_cq_st_def)
  have "4294967296 \<le> unat (q_ci ?q) + ring_cap ?q" by (simp add: ring_cap_def demo_cq_def)
  from clean_jfc_last_lap [OF _ wf _ this, of "0x800" "demo_cq_st\<lparr>jfcs := (jfcs demo_cq_st)(0x800 :=
     (jfcs demo_cq_st 0x800)\<lparr>jfc_cq := ?q\<rparr>)\<rparr>" 7]
  show ?thesis by (simp add: demo_cq_st_def demo_post_st_def init_st_def)
qed

section \<open>The arm doorbell\<close>

definition get_field :: "nat \<Rightarrow> nat \<Rightarrow> u64 \<Rightarrow> u64" where
  "get_field off w x = take_bit w (drop_bit off x)"

lemma get_put_same: "off + w \<le> 64 \<Longrightarrow> get_field off w (put_field off w v x) = take_bit w (ucast v)"
  unfolding get_field_def put_field_def by (auto intro!: bit_word_eqI simp: bit_simps)

lemma get_put_other:
  assumes "off + w \<le> off' \<or> off' + w' \<le> off" and "off + w \<le> 64"
  shows "get_field off w (put_field off' w' v x) = get_field off w x"
  using assms unfolding get_field_def put_field_def by (auto intro!: bit_word_eqI simp: bit_simps)

text \<open>
  C21: rearming stores one 64-bit word to the doorbell of the context, with the consumer index, the
  \<open>solicited only\<close> bit, the arm sequence number, the type bit and the number of the queue in their
  fields; the reserved bits are whatever the stack held.
\<close>

theorem rearm_jfc_doorbell:
  assumes "jfc \<noteq> NULL" and "jfc_dma_ctx (jfcs s jfc) \<noteq> NULL"
  shows "\<exists>v. cdma_u_rearm_jfc E jfc sol s = (DMA_STATUS_OK, emit (EvMmio64
       (db_addr (ctx_db (ctxs s (jfc_dma_ctx (jfcs s jfc)))) + CDMA_JFC_HW_DB_OFFSET) v) s)
     \<and> get_field 0 24 v = ucast (q_ci (jfc_cq (jfcs s jfc)) AND CDMA_JFC_DB_CI_IDX_M)
     \<and> get_field 24 1 v = of_bool sol \<and> get_field 25 2 v = take_bit 2 (ucast (arm_sn (jfcs s jfc)))
     \<and> get_field 27 1 v = 1 \<and> get_field 32 20 v = take_bit 20 (ucast (q_idx (jfc_cq (jfcs s jfc))))
     \<and> get_field 28 4 v = get_field 28 4 (e_stack E (tr s)) \<and> get_field 52 12 v = get_field 52 12 (e_stack E (tr s))"
proof -
  let ?j = "jfcs s jfc"
  let ?v = "jfc_db_value (e_stack E (tr s)) ?j sol"
  have "take_bit 24 (ucast (q_ci (jfc_cq ?j) AND CDMA_JFC_DB_CI_IDX_M) :: u64) = ucast (q_ci (jfc_cq ?j) AND CDMA_JFC_DB_CI_IDX_M)"
  proof -
    have m: "(0x3fffff :: u32) = mask 22" by (simp add: mask_eq_exp_minus_1)
    show ?thesis unfolding m by (auto intro!: bit_word_eqI simp: bit_simps)
  qed
  moreover have "take_bit 1 (ucast (of_bool sol :: u32) :: u64) = of_bool sol" "take_bit 1 (ucast (1 :: u32) :: u64) = 1"
    by (cases sol; simp)+
  ultimately show ?thesis
    using assms by (intro exI [of _ ?v]) (simp add: cdma_u_rearm_jfc_def Let_def jfc_db_value_def get_put_same get_put_other)
qed

lemma rearm_jfc_doorbell_witness:
  "\<exists>v. cdma_u_rearm_jfc demo_sys 0x800 True demo_cq_st = (DMA_STATUS_OK, emit (EvMmio64 0x40 v) demo_cq_st)
     \<and> get_field 0 24 v = 6 \<and> get_field 24 1 v = 1 \<and> get_field 32 20 v = 9"
proof -
  have "jfcs demo_cq_st 0x800 = zero_jfc\<lparr>jfc_dma_ctx := 0x40, jfc_cq := demo_cq, sw_db := 0x700000, arm_sn := 1\<rparr>"
    "db_addr (ctx_db (ctxs demo_cq_st 0x40)) = 0"
    by (simp_all add: demo_cq_st_def demo_post_st_def zero_defs)
  moreover have "(6 :: u32) AND 0x3fffff = 6" "take_bit 20 (9 :: u64) = 9" by code_simp+
  ultimately show ?thesis using rearm_jfc_doorbell [of "0x800" demo_cq_st demo_sys True]
    by (simp add: demo_cq_def) blast
qed

end
