(* ===== verification/Cdma_Bitmap.thy ===== *)
theory Cdma_Bitmap
  imports Cdma_Types Cdma_Interfaces
begin

text \<open>
  The bitmap of free doorbells of a page (\<open>cdma_bitmap_*\<close> of \<open>cdma_u_db.c\<close>): a set bit
  is a free doorbell. \<open>free_bits bm n\<close> is the set of free indices below \<open>n\<close>; taking an
  index removes the least of them, giving one back inserts it.
\<close>

unbundle bit_operations_syntax

definition ffsl :: "u64 \<Rightarrow> nat" where
  "ffsl w = (if w = 0 then 0 else Suc (length (takeWhile (\<lambda>i. \<not> bit w i) [0..<64])))"

definition cdma_bitmap_use_idx ::
  "u64 list \<Rightarrow> u32 \<Rightarrow> u32 \<Rightarrow> u32 \<Rightarrow> int \<times> u32 \<times> u64 list" where
  "cdma_bitmap_use_idx bitmap bitmap_cnt n_bits idx =
     (let i = length (takeWhile (\<lambda>w. w = 0) (take (unat bitmap_cnt) bitmap)) in
      if i = unat bitmap_cnt then (- ENOMEM, idx, bitmap)
      else (let bit_num = ffsl (bitmap ! i);
                idx' = push_bit CDMA_BITS_PER_LONG_SHIFT (of_nat i) + of_nat bit_num - 1 in
            if n_bits \<le> idx' then (- ENOMEM, idx', bitmap)
            else (0, idx', bitmap[i := bitmap ! i AND NOT (push_bit (bit_num - 1) 1)])))"

definition cdma_bitmap_free_idx :: "u64 list \<Rightarrow> u32 \<Rightarrow> u32 \<Rightarrow> u64 list" where
  "cdma_bitmap_free_idx bitmap bitmap_cnt idx =
     (let bitmap_num = drop_bit CDMA_BITS_PER_LONG_SHIFT idx in
      if bitmap_cnt \<le> bitmap_num then bitmap
      else (let n = unat bitmap_num; bit_num = unat (idx mod CDMA_BITS_PER_LONG) in
            bitmap[n := bitmap ! n OR push_bit bit_num 1]))"

definition free_bits :: "u64 list \<Rightarrow> nat \<Rightarrow> nat set" where
  "free_bits bm n = {i. i < n \<and> i div 64 < length bm \<and> bit (bm ! (i div 64)) (i mod 64)}"

lemma finite_free_bits [simp]: "finite (free_bits bm n)"
  by (simp add: free_bits_def)

lemma ffsl_least:
  assumes "w \<noteq> 0"
  shows "\<exists>b<64. ffsl w = Suc b \<and> bit w b \<and> (\<forall>j<b. \<not> bit w j)"
proof -
  let ?t = "takeWhile (\<lambda>i. \<not> bit w i) [0..<64]"
  let ?b = "length ?t"
  have "\<exists>i\<in>set [0..<64]. bit w i"
  proof -
    obtain i where "bit w i" using assms by (auto simp: bit_eq_iff)
    moreover from this have "i < 64" using bit_imp_le_length [of w i] by simp
    ultimately show ?thesis by auto
  qed
  then have lt: "?b < length [0..<64]"
    by (metis length_takeWhile_le le_neq_implies_less takeWhile_eq_all_conv takeWhile_eq_take take_all order_refl)
  have "bit w ([0..<64] ! ?b)" using nth_length_takeWhile [of "\<lambda>i. \<not> bit w i" "[0..<64]"] lt by simp
  then have b: "bit w ?b" using lt by simp
  have "\<forall>j<?b. \<not> bit w j"
  proof (intro allI impI)
    fix j assume j: "j < ?b"
    have "\<not> bit w ([0..<64] ! j)" using j by (rule takeWhile_prefix_P)
    then show "\<not> bit w j" using j lt by simp
  qed
  then show ?thesis using lt b assms by (auto simp: ffsl_def)
qed

lemma free_bits_use:
  assumes "i < length bm" and "b < 64"
  shows "free_bits (bm[i := bm ! i AND NOT (push_bit b 1)]) n = free_bits bm n - {i * 64 + b}"
  using assms by (auto simp: free_bits_def nth_list_update bit_and_not_exp)

lemma free_bits_free:
  assumes "i < length bm" and "b < 64" and "i * 64 + b < n"
  shows "free_bits (bm[i := bm ! i OR push_bit b 1]) n = insert (i * 64 + b) (free_bits bm n)"
  using assms by (auto simp: free_bits_def nth_list_update bit_or_exp)

definition bitmap_wf :: "u64 list \<Rightarrow> u32 \<Rightarrow> u32 \<Rightarrow> bool" where
  "bitmap_wf bm cnt n \<longleftrightarrow> length bm = unat cnt \<and> unat n \<le> 64 * unat cnt \<and> 64 * unat cnt < 2 ^ 32"

lemma cdma_bitmap_use_idx_eval:
  assumes wf: "bitmap_wf bm cnt n" and i: "i = length (takeWhile (\<lambda>w. w = 0) bm)"
    and lt: "i < length bm"
  obtains b where "b < 64" and "bit (bm ! i) b" and "\<forall>j<b. \<not> bit (bm ! i) j"
    and "unat (of_nat (i * 64 + b) :: u32) = i * 64 + b"
    and "cdma_bitmap_use_idx bm cnt n idx =
       (if unat n \<le> i * 64 + b then (- ENOMEM, of_nat (i * 64 + b), bm)
        else (0, of_nat (i * 64 + b), bm[i := bm ! i AND NOT (push_bit b 1)]))"
proof -
  have len: "length bm = unat cnt" and cap: "64 * unat cnt < 2 ^ 32"
    using wf by (simp_all add: bitmap_wf_def)
  obtain b where b: "b < 64" "ffsl (bm ! i) = Suc b" "bit (bm ! i) b" "\<forall>j<b. \<not> bit (bm ! i) j"
    using ffsl_least [OF first_word(3) [OF i lt]] by blast
  let ?m = "i * 64 + b"
  have "?m < 64 * unat cnt" using lt len b(1) by simp
  then have um: "unat (of_nat ?m :: u32) = ?m"
    using cap unat_of_nat [of ?m, where 'a = 32] by (simp del: of_nat_add of_nat_mult)
  have idx: "push_bit CDMA_BITS_PER_LONG_SHIFT (of_nat i :: u32) + of_nat (Suc b) - 1 = of_nat ?m"
    by (simp add: push_bit_eq_mult)
  have "cdma_bitmap_use_idx bm cnt n idx =
      (if n \<le> of_nat ?m then (- ENOMEM, of_nat ?m, bm)
       else (0, of_nat ?m, bm[i := bm ! i AND NOT (push_bit b 1)]))"
    using lt len b(2) idx
    by (simp add: cdma_bitmap_use_idx_def i [symmetric] Let_def
        del: of_nat_add of_nat_mult of_nat_Suc push_bit_of_1)
  then show ?thesis
    using that b um by (simp add: word_le_nat_alt del: of_nat_add of_nat_mult push_bit_of_1)
qed

lemma free_bits_first_word:
  assumes g: "g \<in> free_bits bm n" and i: "i = length (takeWhile (\<lambda>w. w = 0) bm)"
    and b: "b < 64" "\<forall>j<b. \<not> bit (bm ! i) j"
  shows "i < length bm" and "i * 64 + b \<le> g"
proof -
  note fw = first_word [OF i]
  have gb: "bit (bm ! (g div 64)) (g mod 64)" "g div 64 < length bm"
    using g by (auto simp: free_bits_def)
  have "bm ! (g div 64) \<noteq> 0" using gb(1) by (metis bit_0_eq bot_apply bot_bool_def)
  then have nl: "\<not> g div 64 < i" using fw(2) by blast
  then show "i < length bm" using gb(2) by simp
  have split: "g = g div 64 * 64 + g mod 64" by simp
  show "i * 64 + b \<le> g"
  proof (cases "g div 64 = i")
    case True
    then have "\<not> g mod 64 < b" using gb b(2) by metis
    then show ?thesis using split True by linarith
  next
    case False
    then have "i + 1 \<le> g div 64" using nl by simp
    then show ?thesis using split b(1) by linarith
  qed
qed

lemma cdma_bitmap_use_idx_spec:
  assumes wf: "bitmap_wf bm cnt n" and ne: "free_bits bm (unat n) \<noteq> {}"
  shows "\<exists>bm'. cdma_bitmap_use_idx bm cnt n idx = (0, of_nat (Min (free_bits bm (unat n))), bm')
           \<and> bitmap_wf bm' cnt n
           \<and> free_bits bm' (unat n) = free_bits bm (unat n) - {Min (free_bits bm (unat n))}"
proof -
  let ?F = "free_bits bm (unat n)"
  define i where "i = length (takeWhile (\<lambda>w. w = 0) bm)"
  obtain f where f: "f \<in> ?F" using ne by blast
  have lt: "i < length bm" using free_bits_first_word(1) [OF f i_def, of 0] by simp
  obtain b where b: "b < 64" "bit (bm ! i) b" "\<forall>j<b. \<not> bit (bm ! i) j"
    and ev: "cdma_bitmap_use_idx bm cnt n idx =
       (if unat n \<le> i * 64 + b then (- ENOMEM, of_nat (i * 64 + b), bm)
        else (0, of_nat (i * 64 + b), bm[i := bm ! i AND NOT (push_bit b 1)]))"
    using cdma_bitmap_use_idx_eval [OF wf i_def lt, of idx] by metis
  have below: "i * 64 + b \<le> g" if "g \<in> ?F" for g
    using free_bits_first_word(2) [OF that i_def b(1,3)] .
  then have m: "i * 64 + b < unat n" using f by (force simp: free_bits_def)
  then have "i * 64 + b \<in> ?F" using lt b(1,2) by (simp add: free_bits_def)
  then have "Min ?F = i * 64 + b" using below by (intro Min_eqI) auto
  then show ?thesis
    using ev m free_bits_use [OF lt b(1)] wf by (simp add: bitmap_wf_def)
qed

lemma cdma_bitmap_use_idx_full:
  assumes wf: "bitmap_wf bm cnt n" and none: "free_bits bm (unat n) = {}"
  shows "fst (cdma_bitmap_use_idx bm cnt n idx) = - ENOMEM
           \<and> snd (snd (cdma_bitmap_use_idx bm cnt n idx)) = bm"
proof (cases "length (takeWhile (\<lambda>w. w = 0) bm) < length bm")
  case True
  define i where "i = length (takeWhile (\<lambda>w. w = 0) bm)"
  have lt: "i < length bm" using True by (simp add: i_def)
  obtain b where b: "b < 64" "bit (bm ! i) b" and ev: "cdma_bitmap_use_idx bm cnt n idx =
       (if unat n \<le> i * 64 + b then (- ENOMEM, of_nat (i * 64 + b), bm)
        else (0, of_nat (i * 64 + b), bm[i := bm ! i AND NOT (push_bit b 1)]))"
    using cdma_bitmap_use_idx_eval [OF wf i_def lt, of idx] by metis
  have "i * 64 + b \<notin> free_bits bm (unat n)" using none by simp
  then have "unat n \<le> i * 64 + b" using lt b by (simp add: free_bits_def)
  then show ?thesis using ev by simp
next
  case False
  then have "length (takeWhile (\<lambda>w. w = 0) bm) = length bm"
    by (metis length_takeWhile_le le_neq_implies_less)
  then show ?thesis using wf by (simp add: cdma_bitmap_use_idx_def bitmap_wf_def)
qed

lemma cdma_bitmap_free_idx_spec:
  assumes wf: "bitmap_wf bm cnt n" and m: "m < unat n"
  shows "bitmap_wf (cdma_bitmap_free_idx bm cnt (of_nat m)) cnt n"
    and "free_bits (cdma_bitmap_free_idx bm cnt (of_nat m)) (unat n) = insert m (free_bits bm (unat n))"
proof -
  have cap: "length bm = unat cnt" "unat n \<le> 64 * unat cnt" "64 * unat cnt < 2 ^ 32"
    using wf by (simp_all add: bitmap_wf_def)
  have um: "unat (of_nat m :: u32) = m"
    using m cap unat_of_nat [of m, where 'a = 32] by simp
  have lt: "m div 64 < length bm" using m cap by simp
  have "unat (drop_bit 6 (of_nat m :: u32)) = m div 64" using um by (simp add: unat_drop_bit)
  moreover have "unat (of_nat m mod 64 :: u32) = m mod 64"
    using um by (simp add: unat_mod_distrib)
  ultimately have eq: "cdma_bitmap_free_idx bm cnt (of_nat m)
      = bm[m div 64 := bm ! (m div 64) OR push_bit (m mod 64) 1]"
    using lt cap by (simp add: cdma_bitmap_free_idx_def Let_def word_le_nat_alt not_le)
  show "bitmap_wf (cdma_bitmap_free_idx bm cnt (of_nat m)) cnt n"
    using wf by (simp add: eq bitmap_wf_def)
  show "free_bits (cdma_bitmap_free_idx bm cnt (of_nat m)) (unat n) = insert m (free_bits bm (unat n))"
    using free_bits_free [OF lt, of "m mod 64" "unat n"] m by (simp add: eq)
qed


section \<open>The bitmap as a pool of slots\<close>

definition bitmap_used :: "u32 \<Rightarrow> u64 list \<Rightarrow> u32 set" where
  "bitmap_used n bm = {x. unat x < unat n \<and> unat x \<notin> free_bits bm (unat n)}"

interpretation bitmap: slot_pool "\<lambda>bm. bitmap_wf bm cnt n" "bitmap_used n"
    "\<lambda>bm x bm'. cdma_bitmap_use_idx bm cnt n 0 = (0, x, bm')"
    "\<lambda>bm x bm'. bm' = cdma_bitmap_free_idx bm cnt x" for cnt n
proof
  fix s x s'
  assume wf: "bitmap_wf s cnt n" and t: "cdma_bitmap_use_idx s cnt n 0 = (0, x, s')"
  let ?F = "free_bits s (unat n)"
  have ne: "?F \<noteq> {}"
  proof
    assume "?F = {}"
    then show False using cdma_bitmap_use_idx_full [OF wf, of 0] t by simp
  qed
  have bound: "Min ?F < unat n" and mem: "Min ?F \<in> ?F"
    using Min_in [OF finite_free_bits ne] by (auto simp: free_bits_def)
  have x: "x = of_nat (Min ?F)" "bitmap_wf s' cnt n" "free_bits s' (unat n) = ?F - {Min ?F}"
    using cdma_bitmap_use_idx_spec [OF wf ne, of 0] t by auto
  have "Min ?F < 4294967296" using bound unat_u32_less [of n] by linarith
  then have ux: "unat x = Min ?F"
    using unat_of_nat [of "Min ?F", where 'a = 32] by (simp add: x(1))
  show "bitmap_wf s' cnt n" by (rule x(2))
  show "x \<notin> bitmap_used n s" using mem ux by (simp add: bitmap_used_def)
  show "bitmap_used n s' = insert x (bitmap_used n s)"
  proof (rule set_eqI)
    fix y :: u32
    have "y = x \<longleftrightarrow> unat y = Min ?F" by (simp only: word_unat_eq_iff ux)
    moreover have "unat y = Min ?F \<Longrightarrow> unat y < unat n" using bound by simp
    ultimately show "y \<in> bitmap_used n s' \<longleftrightarrow> y \<in> insert x (bitmap_used n s)"
      unfolding bitmap_used_def x(3) by blast
  qed
next
  fix s x s'
  assume wf: "bitmap_wf s cnt n" and u: "x \<in> bitmap_used n s" and g: "s' = cdma_bitmap_free_idx s cnt x"
  then have b: "unat x < unat n" by (simp add: bitmap_used_def)
  have e: "s' = cdma_bitmap_free_idx s cnt (of_nat (unat x))" using g by simp
  show "bitmap_wf s' cnt n" unfolding e by (rule cdma_bitmap_free_idx_spec(1) [OF wf b])
  show "bitmap_used n s' = bitmap_used n s - {x}"
    using cdma_bitmap_free_idx_spec(2) [OF wf b] by (auto simp: e bitmap_used_def word_unat_eq_iff)
qed


section \<open>Properties\<close>

text \<open>
  C34: over any sequence of taking and giving back indices in which callers give back only
  indices they hold, no index is handed out while it is in use, and the bits in use at the
  end are those held.
\<close>

theorem bitmap_exclusive:
  assumes "pool_run (\<lambda>bm x bm'. cdma_bitmap_use_idx bm cnt n 0 = (0, x, bm'))
             (\<lambda>bm x bm'. bm' = cdma_bitmap_free_idx bm cnt x) bm ops bm'"
    and "bitmap_wf bm cnt n" and "gives_held (bitmap_used n bm) ops"
  shows "exclusive (bitmap_used n bm) ops \<and> bitmap_wf bm' cnt n
         \<and> bitmap_used n bm' = held_after (bitmap_used n bm) ops"
  by (rule bitmap.run_exclusive [OF assms])

lemma bitmap_exclusive_witness:
  "exclusive (bitmap_used 64 [NOT 0]) [Take 0, Take 1, Give 0, Take 0 :: u32 pool_op]"
proof -
  have "pool_run (\<lambda>bm x bm'. cdma_bitmap_use_idx bm 1 64 0 = (0, x, bm'))
      (\<lambda>bm x bm'. bm' = cdma_bitmap_free_idx bm 1 x) [NOT 0]
      [Take 0, Take 1, Give 0, Take 0] [NOT 3]"
    by (rule run_take [of _ _ _ "[NOT 1]"], code_simp, rule run_take [of _ _ _ "[NOT 3]"], code_simp,
        rule run_give, rule refl, rule run_take [of _ _ _ "[NOT 3]"], code_simp, rule run_nil)
  then show ?thesis
    using bitmap_exclusive [of 1 64 "[NOT 0]" "[Take 0, Take 1, Give 0, Take 0]" "[NOT 3]"]
    by (simp add: bitmap_wf_def)
qed

end
