(* ===== verification/Cdma_Db.thy ===== *)
theory Cdma_Db
  imports Cdma_Queue_Buf Cdma_Bitmap
begin

text \<open>
  \<open>cdma_u_db.c\<close>. A context keeps a doubly linked list of pages of software doorbells (the
  records the device reads completion-queue consumer indices from); \<open>cdma_u_alloc_sw_db\<close>
  and \<open>cdma_u_free_sw_db\<close> hand the 64-byte slots of these pages out. \<open>cdma_u_alloc_db\<close> and
  \<open>cdma_u_free_db\<close> map the doorbell page of a queue of the device. \<open>db_inv\<close> is the
  invariant of the list (the links, one bitmap per page whose clear bits are the slots in
  use, the count of them, the resources owned), \<open>db_used\<close> the abstract view: the set of
  doorbells handed out.
\<close>

unbundle bit_operations_syntax

definition cdma_bitmap_alloc :: "env \<Rightarrow> u32 \<Rightarrow> st \<Rightarrow> (ptr \<times> u64 list \<times> u32) \<times> st" where
  "cdma_bitmap_alloc E n_bits s =
     (let bitmap_cnt = (ucast (align (ucast n_bits) 64 div 64) :: u32);
          (bitmap, s1) = sys_alloc E ObjBitmap s in
      if bitmap = NULL then ((NULL, [], bitmap_cnt), s1)
      else ((bitmap, replicate (unat bitmap_cnt) (NOT 0), bitmap_cnt), s1))"

definition cdma_bitmap_free :: "ptr \<Rightarrow> st \<Rightarrow> st" where
  "cdma_bitmap_free bitmap s = sys_free bitmap s"

definition cdma_add_db_page :: "env \<Rightarrow> ptr \<Rightarrow> st \<Rightarrow> ptr \<times> st" where
  "cdma_add_db_page E ctx s =
     (let page_size = ctx_page_size (ctxs s ctx);
          (db_page, s1) = sys_alloc E ObjDbPage s in
      if db_page = NULL then (NULL, s1)
      else
        (let num_db = page_size div CDMA_DB_SIZE;
             ((bitmap, ws, cnt), s2) = cdma_bitmap_alloc E num_db s1 in
         if bitmap = NULL then (NULL, sys_free db_page s2)
         else
           (let (buf, s3) = cdma_u_alloc_buf E page_size s2 in
            if buf = NULL then (NULL, sys_free db_page (cdma_bitmap_free bitmap s3))
            else
              (let nxt = ctx_page (ctxs s3 ctx);
                   pg = \<lparr>pg_prev = NULL, pg_next = nxt, pg_buf = buf, pg_length = page_size,
                         pg_num_db = num_db, pg_use_cnt = 0, pg_bitmap_ptr = bitmap,
                         pg_bitmap = ws, pg_bitmap_cnt = cnt\<rparr>;
                   s4 = s3\<lparr>pages := (pages s3)(db_page := pg),
                           ctxs := (ctxs s3)(ctx := (ctxs s3 ctx)\<lparr>ctx_page := db_page\<rparr>)\<rparr>;
                   s5 = (if nxt \<noteq> NULL
                         then s4\<lparr>pages := (pages s4)(nxt := (pages s4 nxt)\<lparr>pg_prev := db_page\<rparr>)\<rparr>
                         else s4)
               in (db_page, s5)))))"

definition cdma_clear_db_page :: "ptr \<Rightarrow> st \<Rightarrow> st" where
  "cdma_clear_db_page db_page s =
     (let pg = pages s db_page;
          s1 = (if pg_buf pg \<noteq> NULL then cdma_u_free_buf (pg_buf pg) (pg_length pg) s else s)
      in sys_free db_page (cdma_bitmap_free (pg_bitmap_ptr pg) s1))"

partial_function (option) find_db_page ::
  "(ptr \<Rightarrow> cdma_u_db_page) \<Rightarrow> (cdma_u_db_page \<Rightarrow> bool) \<Rightarrow> ptr \<Rightarrow> ptr option" where
  "find_db_page pg P p =
     (if p = NULL then Some NULL
      else if P (pg p) then Some p
      else find_db_page pg P (pg_next (pg p)))"

lemma find_db_page_code [code]:
  "find_db_page pg P p =
     (if p = NULL then Some NULL
      else if P (pg p) then Some p
      else find_db_page pg P (pg_next (pg p)))"
  by (rule find_db_page.simps)

definition cdma_u_alloc_sw_db :: "env \<Rightarrow> ptr \<Rightarrow> st \<Rightarrow> (ptr \<times> st) option" where
  "cdma_u_alloc_sw_db E ctx s = do {
     let s1 = emit (EvLock ctx) s;
     found \<leftarrow> find_db_page (pages s1) (\<lambda>pg. pg_use_cnt pg < pg_num_db pg) (ctx_page (ctxs s1 ctx));
     let (db_page, s2) = (if found \<noteq> NULL then (found, s1) else cdma_add_db_page E ctx s1);
     if db_page = NULL then Some (NULL, emit (EvUnlock ctx) s2)
     else do {
       let pg = pages s2 db_page;
       let (_, npos, bm) =
         cdma_bitmap_use_idx (pg_bitmap pg) (pg_bitmap_cnt pg) (pg_num_db pg) 0;
       let db = pg_buf pg + ucast (npos * CDMA_DB_SIZE);
       let s3 = s2\<lparr>pages := (pages s2)(db_page :=
                  pg\<lparr>pg_bitmap := bm, pg_use_cnt := pg_use_cnt pg + 1\<rparr>)\<rparr>;
       Some (db, emit (EvUnlock ctx) s3)
     }
   }"

definition unlink_db_page :: "ptr \<Rightarrow> ptr \<Rightarrow> st \<Rightarrow> st" where
  "unlink_db_page ctx db_page s =
     (let prv = pg_prev (pages s db_page); nxt = pg_next (pages s db_page);
          s1 = (if prv \<noteq> NULL
                then s\<lparr>pages := (pages s)(prv := (pages s prv)\<lparr>pg_next := nxt\<rparr>)\<rparr>
                else s\<lparr>ctxs := (ctxs s)(ctx := (ctxs s ctx)\<lparr>ctx_page := nxt\<rparr>)\<rparr>)
      in if nxt \<noteq> NULL
         then s1\<lparr>pages := (pages s1)(nxt := (pages s1 nxt)\<lparr>pg_prev := prv\<rparr>)\<rparr>
         else s1)"

definition cdma_u_free_sw_db :: "ptr \<Rightarrow> ptr \<Rightarrow> st \<Rightarrow> st option" where
  "cdma_u_free_sw_db ctx db s = do {
     let s1 = emit (EvLock ctx) s;
     let page_size = ctx_page_size (ctxs s1 ctx);
     db_page \<leftarrow> find_db_page (pages s1) (\<lambda>pg. db AND NOT (ucast page_size - 1) = pg_buf pg)
                  (ctx_page (ctxs s1 ctx));
     if db_page = NULL then Some (emit (EvUnlock ctx) s1)
     else do {
       let pg = (pages s1 db_page)\<lparr>pg_use_cnt := pg_use_cnt (pages s1 db_page) - 1\<rparr>;
       let s2 = s1\<lparr>pages := (pages s1)(db_page := pg)\<rparr>;
       if pg_use_cnt pg = 0
       then Some (emit (EvUnlock ctx) (cdma_clear_db_page db_page (unlink_db_page ctx db_page s2)))
       else do {
         let npos = (ucast ((db - pg_buf pg) div ucast CDMA_DB_SIZE) :: u32);
         let bm = cdma_bitmap_free_idx (pg_bitmap pg) (pg_bitmap_cnt pg) npos;
         Some (emit (EvUnlock ctx)
           (s2\<lparr>pages := (pages s2)(db_page := pg\<lparr>pg_bitmap := bm\<rparr>)\<rparr>))
       }
     }
   }"


subsection \<open>The list of pages\<close>

fun dseg :: "(ptr \<Rightarrow> cdma_u_db_page) \<Rightarrow> ptr \<Rightarrow> ptr \<Rightarrow> ptr list \<Rightarrow> ptr \<Rightarrow> ptr \<Rightarrow> bool" where
  "dseg pg prv p [] l q \<longleftrightarrow> l = prv \<and> p = q"
| "dseg pg prv p (a # as) l q \<longleftrightarrow>
     p = a \<and> a \<noteq> NULL \<and> pg_prev (pg a) = prv \<and> dseg pg a (pg_next (pg a)) as l q"

definition dll :: "(ptr \<Rightarrow> cdma_u_db_page) \<Rightarrow> ptr \<Rightarrow> ptr list \<Rightarrow> bool" where
  "dll pg p as \<longleftrightarrow> (\<exists>l. dseg pg NULL p as l NULL)"

lemma dseg_append:
  "dseg pg prv p (xs @ ys) l q \<longleftrightarrow> (\<exists>m r. dseg pg prv p xs m r \<and> dseg pg m r ys l q)"
  by (induction xs arbitrary: prv p) auto

lemma dseg_cong:
  assumes "\<And>a. a \<in> set as \<Longrightarrow> pg_prev (pg' a) = pg_prev (pg a) \<and> pg_next (pg' a) = pg_next (pg a)"
  shows "dseg pg' prv p as l q = dseg pg prv p as l q"
  using assms by (induction as arbitrary: prv p) auto

lemma dseg_upd [simp]:
  "a \<notin> set as \<Longrightarrow> dseg (pg(a := v)) prv p as l q = dseg pg prv p as l q"
  by (rule dseg_cong) auto

lemma dseg_last: "dseg pg prv p as l q \<Longrightarrow> l = last (prv # as)"
  by (induction as arbitrary: prv p) (auto split: if_splits)

lemma dll_code [code]: "dll pg p as = dseg pg NULL p as (last (NULL # as)) NULL"
  unfolding dll_def by (metis dseg_last)

lemma find_db_page_dll:
  assumes "dseg pg prv p as l NULL"
  shows "find_db_page pg P p = Some (case List.find (\<lambda>a. P (pg a)) as of None \<Rightarrow> NULL | Some a \<Rightarrow> a)"
  using assms
proof (induction as arbitrary: prv p)
  case Nil
  then show ?case by (simp add: find_db_page.simps [of pg P NULL])
next
  case (Cons a as)
  then have p: "p = a" "a \<noteq> NULL" and
    IH: "find_db_page pg P (pg_next (pg a)) =
      Some (case List.find (\<lambda>a. P (pg a)) as of None \<Rightarrow> NULL | Some a \<Rightarrow> a)"
    by auto
  then show ?case by (simp add: find_db_page.simps [of pg P a])
qed

lemma dll_insert:
  assumes "dll pg h as" and "a \<noteq> NULL" and "a \<notin> set as" and "distinct as"
    and "pg_prev v = NULL" and "pg_next v = h"
  shows "dll (let pg1 = pg(a := v) in
              if h \<noteq> NULL then pg1(h := (pg1 h)\<lparr>pg_prev := a\<rparr>) else pg1) a (a # as)"
proof (cases as)
  case Nil
  then show ?thesis using assms by (auto simp: dll_def)
next
  case (Cons b bs)
  then have "h = b" "b \<noteq> NULL" "a \<noteq> b" "a \<notin> set bs" "b \<notin> set bs"
    using assms by (auto simp: dll_def)
  then show ?thesis using assms Cons by (auto simp: dll_def Let_def)
qed

definition unlinked :: "(ptr \<Rightarrow> cdma_u_db_page) \<Rightarrow> ptr \<Rightarrow> ptr \<Rightarrow> cdma_u_db_page" where
  "unlinked pg a =
     (let prv = pg_prev (pg a); nxt = pg_next (pg a);
          pg1 = (if prv \<noteq> NULL then pg(prv := (pg prv)\<lparr>pg_next := nxt\<rparr>) else pg)
      in if nxt \<noteq> NULL then pg1(nxt := (pg1 nxt)\<lparr>pg_prev := prv\<rparr>) else pg1)"

lemma dll_unlink:
  assumes d: "dll pg h (xs @ a # ys)" and dist: "distinct (xs @ a # ys)"
  shows "dll (unlinked pg a) (if pg_prev (pg a) = NULL then pg_next (pg a) else h) (xs @ ys)"
proof -
  obtain l m where
    x: "dseg pg NULL h xs m a" and m: "pg_prev (pg a) = m" and a: "a \<noteq> NULL"
    and y: "dseg pg a (pg_next (pg a)) ys l NULL"
    using d by (auto simp: dll_def dseg_append)
  show ?thesis
  proof (cases xs rule: rev_cases)
    case Nil
    then have "m = NULL" "h = a" using x by auto
    then show ?thesis using m y Nil dist
      by (cases ys) (auto simp: unlinked_def dll_def Let_def)
  next
    case (snoc zs z)
    then have z: "z = m" "m \<noteq> NULL" "pg_next (pg m) = a" and zs: "\<exists>k. dseg pg NULL h zs k m \<and> pg_prev (pg m) = k"
      using x by (auto simp: dseg_append)
    then obtain k where k: "dseg pg NULL h zs k m" "pg_prev (pg m) = k" by blast
    have "dseg (unlinked pg a) NULL h xs m (pg_next (pg a))"
      using k z snoc m y dist by (cases ys) (auto simp: unlinked_def Let_def dseg_append)
    moreover have "\<exists>l. dseg (unlinked pg a) m (pg_next (pg a)) ys l NULL"
      using z snoc m y dist by (cases ys) (auto simp: unlinked_def Let_def)
    ultimately show ?thesis using m z by (auto simp: dll_def dseg_append)
  qed
qed

lemma unlink_db_page_unlinked:
  "unlink_db_page ctx a s = s\<lparr>pages := unlinked (pages s) a,
     ctxs := (if pg_prev (pages s a) = NULL
              then (ctxs s)(ctx := (ctxs s ctx)\<lparr>ctx_page := pg_next (pages s a)\<rparr>) else ctxs s)\<rparr>"
  by (simp add: unlink_db_page_def unlinked_def Let_def)


subsection \<open>One page\<close>

definition page_free :: "cdma_u_db_page \<Rightarrow> nat set" where
  "page_free pg = free_bits (pg_bitmap pg) (unat (pg_num_db pg))"

definition db_slot :: "cdma_u_db_page \<Rightarrow> nat \<Rightarrow> ptr" where
  "db_slot pg i = pg_buf pg + of_nat (i * 64)"

definition page_used :: "cdma_u_db_page \<Rightarrow> ptr set" where
  "page_used pg = db_slot pg ` ({..<unat (pg_num_db pg)} - page_free pg)"

definition page_base_wf :: "nat \<Rightarrow> cdma_u_db_page \<Rightarrow> bool" where
  "page_base_wf k pg \<longleftrightarrow> pg_length pg = 2 ^ k \<and> pg_num_db pg = 2 ^ (k - 6)
     \<and> bitmap_wf (pg_bitmap pg) (pg_bitmap_cnt pg) (pg_num_db pg)
     \<and> unat (pg_use_cnt pg) + card (page_free pg) = unat (pg_num_db pg)
     \<and> pg_bitmap_ptr pg \<noteq> NULL \<and> pg_buf pg \<noteq> NULL \<and> pg_buf pg AND mask k = 0"

definition page_wf :: "nat \<Rightarrow> cdma_u_db_page \<Rightarrow> bool" where
  "page_wf k pg \<longleftrightarrow> page_base_wf k pg \<and> pg_use_cnt pg \<noteq> 0"

lemma aligned_room:
  assumes k: "k < 64" and al: "(b :: u64) AND mask k = 0"
  shows "2 ^ k dvd unat b" and "unat b + 2 ^ k \<le> 2 ^ 64"
proof -
  have "unat b mod 2 ^ k = 0"
    using al unat_and_mask [of b k] by simp
  then show dv: "2 ^ k dvd unat b" by (simp add: dvd_eq_mod_eq_0)
  then obtain c where c: "unat b = 2 ^ k * c" by (rule dvdE)
  have pw: "(2 :: nat) ^ 64 = 2 ^ k * 2 ^ (64 - k)"
    using k by (simp only: power_add [symmetric]) simp
  have "unat b < 2 ^ 64" using unat_u64_less [of b] by simp
  then have "2 ^ k * c < 2 ^ k * 2 ^ (64 - k)" using c pw by simp
  then have "c + 1 \<le> 2 ^ (64 - k)" by simp
  then have "2 ^ k * (c + 1) \<le> 2 ^ k * (2 ^ (64 - k) :: nat)" by (rule mult_le_mono2)
  then show "unat b + 2 ^ k \<le> 2 ^ 64" using c pw by (simp add: distrib_left)
qed

lemma aligned_offset:
  assumes k: "k < 64" and al: "(b :: u64) AND mask k = 0" and j: "j < 2 ^ k"
  shows "unat (b + of_nat j) = unat b + j" and "(b + of_nat j) AND NOT (mask k) = b"
proof -
  note room = aligned_room [OF k al]
  have "(2 :: nat) ^ k \<le> 2 ^ 64" using k by (simp only: power_increasing)
  then have uj: "unat (of_nat j :: u64) = j"
    using j unat_of_nat [of j, where 'a = 64] by simp
  then show eq: "unat (b + of_nat j) = unat b + j"
    using room(2) j by (subst unat_add_u64_le) simp_all
  have "(unat b + j) div 2 ^ k * 2 ^ k = unat b"
    using room(1) j by (simp add: div_plus_div_distrib_dvd_left)
  then have "unat ((b + of_nat j) AND NOT (mask k)) = unat b"
    by (simp add: unat_and_not_mask eq)
  then show "(b + of_nat j) AND NOT (mask k) = b" by (simp add: word_unat_eq_iff)
qed

lemma slot_in_page:
  assumes k: "6 \<le> k" "k \<le> 31" and i: "i < 2 ^ (k - 6)"
  shows "i * 64 < (2 :: nat) ^ k"
proof -
  have "(2 :: nat) ^ k = 2 ^ (k - 6) * 2 ^ 6" using k by (simp only: power_add [symmetric]) simp
  then show ?thesis using i by simp
qed

lemma db_slot_props:
  assumes wf: "page_base_wf k pg" and k: "6 \<le> k" "k \<le> 31" and i: "i < unat (pg_num_db pg)"
  shows "db_slot pg i AND NOT (mask k) = pg_buf pg"
    and "unat (db_slot pg i) = unat (pg_buf pg) + i * 64"
    and "(ucast ((db_slot pg i - pg_buf pg) div 64) :: u32) = of_nat i"
    and "db_slot pg i = pg_buf pg + ucast ((of_nat i :: u32) * 64)"
proof -
  have i': "i < 2 ^ (k - 6)" using wf i k by (simp add: page_base_wf_def)
  have al: "pg_buf pg AND mask k = 0" using wf by (simp add: page_base_wf_def)
  have lt: "i * 64 < 2 ^ k" by (rule slot_in_page [OF k i'])
  then have lt31: "i * 64 < 2 ^ 31" using pow2_le_31 [OF k(2)] by simp
  have k64: "k < 64" using k by simp
  show "db_slot pg i AND NOT (mask k) = pg_buf pg" "unat (db_slot pg i) = unat (pg_buf pg) + i * 64"
    using aligned_offset [OF k64 al lt] by (simp_all add: db_slot_def del: of_nat_mult)
  have u: "unat (of_nat (i * 64) :: u64) = i * 64"
    using lt31 unat_of_nat [of "i * 64", where 'a = 64] by (simp del: of_nat_mult)
  have "unat ((db_slot pg i - pg_buf pg) div 64) = i"
    using u by (simp add: db_slot_def unat_div_distrib del: of_nat_mult)
  then show "(ucast ((db_slot pg i - pg_buf pg) div 64) :: u32) = of_nat i"
    using lt31 by (simp add: word_unat_eq_iff unat_ucast unat_of_nat)
  have "unat (of_nat (i * 64) :: u32) = i * 64"
    using lt31 unat_of_nat [of "i * 64", where 'a = 32] by (simp del: of_nat_mult)
  then have "(ucast (of_nat (i * 64) :: u32) :: u64) = of_nat (i * 64)"
    using u by (simp only: word_unat_eq_iff unat_ucast_u64)
  then show "db_slot pg i = pg_buf pg + ucast ((of_nat i :: u32) * 64)"
    by (simp add: db_slot_def)
qed

lemma db_slot_inj:
  assumes "page_base_wf k pg" and "6 \<le> k" "k \<le> 31"
  shows "inj_on (db_slot pg) {..<unat (pg_num_db pg)}"
  using db_slot_props(2) [OF assms] by (intro inj_onI) (metis add_left_cancel lessThan_iff mult_cancel2 zero_neq_numeral)


lemma page_free_bound: "page_free pg \<subseteq> {..<unat (pg_num_db pg)}"
  by (auto simp: page_free_def free_bits_def)

lemma finite_page_free [simp]: "finite (page_free pg)"
  by (simp add: page_free_def)

lemma take_db:
  assumes wf: "page_base_wf k pg" and k: "6 \<le> k" "k \<le> 31" and room: "pg_use_cnt pg < pg_num_db pg"
  obtains bm' npos where
    "cdma_bitmap_use_idx (pg_bitmap pg) (pg_bitmap_cnt pg) (pg_num_db pg) 0 = (0, npos, bm')"
    and "let pg' = pg\<lparr>pg_bitmap := bm', pg_use_cnt := pg_use_cnt pg + 1\<rparr>;
             db = pg_buf pg + ucast (npos * CDMA_DB_SIZE)
         in page_wf k pg' \<and> db \<notin> page_used pg \<and> page_used pg' = insert db (page_used pg)
            \<and> db AND NOT (mask k) = pg_buf pg"
proof -
  let ?F = "page_free pg" and ?n = "unat (pg_num_db pg)"
  have cnt: "unat (pg_use_cnt pg) + card ?F = ?n" and bwf: "bitmap_wf (pg_bitmap pg) (pg_bitmap_cnt pg) (pg_num_db pg)"
    using wf unfolding page_base_wf_def by blast+
  have lt: "unat (pg_use_cnt pg) < ?n" using room by (simp add: word_less_nat_alt)
  then have ne: "?F \<noteq> {}" using cnt by force
  let ?i = "Min ?F"
  have iF: "?i \<in> ?F" using ne by (intro Min_in) simp_all
  then have i: "?i < ?n" using page_free_bound by auto
  obtain bm' where bm': "cdma_bitmap_use_idx (pg_bitmap pg) (pg_bitmap_cnt pg) (pg_num_db pg) 0
        = (0, of_nat ?i, bm')" "bitmap_wf bm' (pg_bitmap_cnt pg) (pg_num_db pg)"
      "free_bits bm' ?n = ?F - {?i}"
    using cdma_bitmap_use_idx_spec [OF bwf] ne unfolding page_free_def by blast
  let ?pg' = "pg\<lparr>pg_bitmap := bm', pg_use_cnt := pg_use_cnt pg + 1\<rparr>"
  have free': "page_free ?pg' = ?F - {?i}" using bm'(3) by (simp add: page_free_def)
  have "unat (pg_use_cnt pg) + 1 < 4294967296"
    using lt unat_u32_less [of "pg_num_db pg"] by linarith
  then have uc: "unat (pg_use_cnt pg + 1) = unat (pg_use_cnt pg) + 1"
    by (simp add: unat_add_u32_le)
  have "card (?F - {?i}) + 1 = card ?F" using card.remove [OF finite_page_free iF] by simp
  then have "page_wf k ?pg'"
    using wf bm'(2) free' uc cnt by (auto simp: page_wf_def page_base_wf_def word_unat_eq_iff)
  moreover have slot: "pg_buf pg + ucast ((of_nat ?i :: u32) * CDMA_DB_SIZE) = db_slot pg ?i"
    using db_slot_props(4) [OF wf k i] by simp
  moreover have "db_slot pg ?i \<notin> page_used pg"
    using db_slot_inj [OF wf k] iF i by (auto simp: page_used_def dest: inj_onD)
  moreover have "page_used ?pg' = insert (db_slot pg ?i) (page_used pg)"
  proof -
    have "{..<?n} - (?F - {?i}) = insert ?i ({..<?n} - ?F)" using i by auto
    then show ?thesis by (simp add: page_used_def free' db_slot_def image_def) auto
  qed
  ultimately show ?thesis
    using that [OF bm'(1)] db_slot_props(1) [OF wf k i] by (simp add: Let_def)
qed

lemma give_db:
  assumes wf: "page_wf k pg" and k: "6 \<le> k" "k \<le> 31" and db: "db \<in> page_used pg"
    and more: "pg_use_cnt pg - 1 \<noteq> 0"
  defines "npos \<equiv> (ucast ((db - pg_buf pg) div ucast CDMA_DB_SIZE) :: u32)"
  defines "pg' \<equiv> pg\<lparr>pg_use_cnt := pg_use_cnt pg - 1,
             pg_bitmap := cdma_bitmap_free_idx (pg_bitmap pg) (pg_bitmap_cnt pg) npos\<rparr>"
  shows "page_wf k pg'" and "page_used pg' = page_used pg - {db}"
proof -
  let ?F = "page_free pg" and ?n = "unat (pg_num_db pg)"
  have base: "page_base_wf k pg" using wf by (simp add: page_wf_def)
  then have cnt: "unat (pg_use_cnt pg) + card ?F = ?n" and bwf: "bitmap_wf (pg_bitmap pg) (pg_bitmap_cnt pg) (pg_num_db pg)"
    unfolding page_base_wf_def by blast+
  obtain i where i: "i < ?n" "i \<notin> ?F" "db = db_slot pg i" using db by (auto simp: page_used_def)
  have npos: "npos = of_nat i"
    using db_slot_props(3) [OF base k i(1)] i(3) by (simp add: npos_def)
  have free': "page_free pg' = insert i ?F"
    using cdma_bitmap_free_idx_spec(2) [OF bwf i(1)] npos by (simp add: page_free_def pg'_def)
  have "pg_use_cnt pg \<noteq> 0" using wf by (simp add: page_wf_def)
  then have uc: "unat (pg_use_cnt pg - 1) = unat (pg_use_cnt pg) - 1" "0 < unat (pg_use_cnt pg)"
    by (simp_all add: unat_minus_one unat_gt_0)
  then show "page_wf k pg'"
    using base cdma_bitmap_free_idx_spec(1) [OF bwf i(1)] npos free' cnt more i(2)
    by (simp add: page_wf_def page_base_wf_def pg'_def)
  have "{..<?n} - insert i ?F = ({..<?n} - ?F) - {i}" by auto
  then have "page_used pg' = db_slot pg ` (({..<?n} - ?F) - {i})"
    by (simp add: page_used_def free') (simp add: pg'_def db_slot_def)
  also have "\<dots> = page_used pg - {db}"
    using db_slot_inj [OF base k] i by (auto simp: page_used_def dest: inj_onD)
  finally show "page_used pg' = page_used pg - {db}" .
qed

lemma last_db:
  assumes wf: "page_wf k pg" and k: "6 \<le> k" "k \<le> 31" and db: "db \<in> page_used pg"
    and one: "pg_use_cnt pg - 1 = 0"
  shows "page_used pg = {db}"
proof -
  let ?F = "page_free pg" and ?n = "unat (pg_num_db pg)"
  have "pg_use_cnt pg = 1" using one by (metis eq_iff_diff_eq_0)
  moreover have "unat (pg_use_cnt pg) + card ?F = ?n"
    using wf unfolding page_wf_def page_base_wf_def by blast
  ultimately have "card ({..<?n} - ?F) = 1"
    using page_free_bound [of pg] by (simp add: card_Diff_subset)
  then obtain i where "{..<?n} - ?F = {i}" by (auto simp: card_1_singleton_iff)
  then show ?thesis using db by (auto simp: page_used_def)
qed


subsection \<open>All pages of a context\<close>

definition page_res :: "ptr \<Rightarrow> cdma_u_db_page \<Rightarrow> resource multiset" where
  "page_res a pg = {#RMem a, RMem (pg_bitmap_ptr pg), RMap (pg_buf pg) (pg_length pg)#}"

definition pages_res :: "st \<Rightarrow> ptr list \<Rightarrow> resource multiset" where
  "pages_res s as = sum_list (map (\<lambda>a. page_res a (pages s a)) as)"

definition db_used :: "st \<Rightarrow> ptr list \<Rightarrow> ptr set" where
  "db_used s as = (\<Union>a\<in>set as. page_used (pages s a))"

definition db_inv :: "nat \<Rightarrow> st \<Rightarrow> ptr \<Rightarrow> ptr list \<Rightarrow> bool" where
  "db_inv k s ctx as \<longleftrightarrow> ctx_page_size (ctxs s ctx) = 2 ^ k
     \<and> dll (pages s) (ctx_page (ctxs s ctx)) as \<and> distinct as
     \<and> (\<forall>a\<in>set as. page_wf k (pages s a))
     \<and> distinct (map (\<lambda>a. pg_buf (pages s a)) as)
     \<and> pages_res s as \<subseteq># live s"

lemma pages_res_member:
  assumes "a \<in> set as"
  shows "page_res a (pages s a) \<subseteq># pages_res s as"
  using assms by (induction as) (auto simp: pages_res_def subset_mset.add_increasing subset_mset.add_increasing2)

lemma db_inv_live:
  assumes "db_inv k s ctx as" and "a \<in> set as"
  shows "RMem a \<in># live s" and "RMap (pg_buf (pages s a)) (pg_length (pages s a)) \<in># live s"
proof -
  have "page_res a (pages s a) \<subseteq># live s"
    using assms pages_res_member [of a as s] subset_mset.order_trans unfolding db_inv_def by blast
  then have sub: "r \<in># live s" if "r \<in># page_res a (pages s a)" for r
    using that by (rule mset_subset_eqD)
  show "RMem a \<in># live s" "RMap (pg_buf (pages s a)) (pg_length (pages s a)) \<in># live s"
    by (rule sub, simp add: page_res_def)+
qed

lemma dll_update_same:
  assumes "dll pg h as" and "pg_prev v = pg_prev (pg a)" and "pg_next v = pg_next (pg a)"
  shows "dll (pg(a := v)) h as"
  using assms dseg_cong [of as "pg(a := v)" pg] by (auto simp: dll_def)

lemma db_inv_update:
  assumes inv: "db_inv k s ctx as" and a: "a \<in> set as" and wf: "page_wf k v"
    and same: "pg_prev v = pg_prev (pages s a)" "pg_next v = pg_next (pages s a)"
      "pg_buf v = pg_buf (pages s a)" "pg_bitmap_ptr v = pg_bitmap_ptr (pages s a)"
  shows "db_inv k (s\<lparr>pages := (pages s)(a := v)\<rparr>) ctx as"
    and "pages_res (s\<lparr>pages := (pages s)(a := v)\<rparr>) as = pages_res s as"
proof -
  have len: "pg_length v = pg_length (pages s a)"
    using inv a wf by (auto simp: db_inv_def page_wf_def page_base_wf_def)
  show res: "pages_res (s\<lparr>pages := (pages s)(a := v)\<rparr>) as = pages_res s as"
    using same len by (auto simp: pages_res_def page_res_def intro!: arg_cong [where f = sum_list])
  have "(\<lambda>b. pg_buf (if b = a then v else pages s b)) = (\<lambda>b. pg_buf (pages s b))"
    using same by auto
  then show "db_inv k (s\<lparr>pages := (pages s)(a := v)\<rparr>) ctx as"
    using inv wf res dll_update_same [of "pages s" _ as v a, OF _ same(1,2)] by (simp add: db_inv_def live_simps)
qed

lemma db_used_update:
  assumes a: "a \<in> set as"
  shows "db_used (s\<lparr>pages := (pages s)(a := v)\<rparr>) as =
     page_used v \<union> (\<Union>b\<in>set as - {a}. page_used (pages s b))"
  using a by (auto simp: db_used_def split: if_splits)

lemma page_used_base:
  assumes "page_base_wf k pg" and "6 \<le> k" "k \<le> 31" and "db \<in> page_used pg"
  shows "db AND NOT (mask k) = pg_buf pg"
  using assms db_slot_props(1) by (auto simp: page_used_def)

lemma db_used_disjoint:
  assumes inv: "db_inv k s ctx as" and k: "6 \<le> k" "k \<le> 31"
    and ab: "a \<in> set as" "b \<in> set as" "a \<noteq> b"
    and db: "db AND NOT (mask k) = pg_buf (pages s a)"
  shows "db \<notin> page_used (pages s b)"
proof
  assume "db \<in> page_used (pages s b)"
  then have "db AND NOT (mask k) = pg_buf (pages s b)"
    using inv ab k by (intro page_used_base) (auto simp: db_inv_def page_wf_def)
  then show False
    using db inv ab by (auto simp: db_inv_def distinct_map dest: inj_onD)
qed


subsection \<open>Adding a page\<close>

lemma fresh_bitmap:
  assumes "12 \<le> k" and "k \<le> 30"
  shows "(2 ^ k :: u32) div CDMA_DB_SIZE = 2 ^ (k - 6)"
    and "(ucast (align (ucast (2 ^ (k - 6) :: u32)) 64 div 64) :: u32) = 2 ^ (k - 12)"
    and "bitmap_wf (replicate (2 ^ (k - 12)) (NOT 0)) (2 ^ (k - 12)) (2 ^ (k - 6))"
    and "free_bits (replicate (2 ^ (k - 12)) (NOT 0)) (2 ^ (k - 6)) = {..<2 ^ (k - 6)}"
proof -
  have k6: "(2 :: nat) ^ k = 2 ^ (k - 6) * 64" and k12: "(2 :: nat) ^ (k - 6) = 2 ^ (k - 12) * 64"
    using assms power_add [of "2 :: nat" "k - 6" 6] power_add [of "2 :: nat" "k - 12" 6] by simp_all
  have small: "(2 :: nat) ^ (k - 6) \<le> 2 ^ 24" using assms by (intro power_increasing) auto
  show "(2 ^ k :: u32) div CDMA_DB_SIZE = 2 ^ (k - 6)"
    using assms k6 by (simp add: word_unat_eq_iff unat_div_distrib)
  have "align (2 ^ (k - 6)) (2 ^ 6) = 2 ^ max (k - 6) 6"
    using assms by (intro align_pow2_pow2) auto
  moreover have "max (k - 6) 6 = k - 6" using assms by simp
  ultimately have "align (ucast (2 ^ (k - 6) :: u32)) 64 = 2 ^ (k - 6)"
    using assms ucast_pow2 [of "k - 6"] by simp
  then show "(ucast (align (ucast (2 ^ (k - 6) :: u32)) 64 div 64) :: u32) = 2 ^ (k - 12)"
    using assms k12 small by (simp add: word_unat_eq_iff unat_div_distrib unat_ucast)
  show "bitmap_wf (replicate (2 ^ (k - 12)) (NOT 0)) (2 ^ (k - 12)) (2 ^ (k - 6))"
    using assms k12 small by (simp add: bitmap_wf_def)
  show "free_bits (replicate (2 ^ (k - 12)) (NOT 0)) (2 ^ (k - 6)) = {..<2 ^ (k - 6)}"
    using k12 by (auto simp: free_bits_def bit_simps less_mult_imp_div_less)
qed

lemma cdma_u_alloc_buf_result:
  assumes "cdma_u_alloc_buf E n s = (p, s')" and "p \<noteq> NULL"
  shows "p = e_mmap_anon E (tr s) n \<and> p \<noteq> MAP_FAILED"
  using assms by (auto simp: cdma_u_alloc_buf_def sys_defs Let_def split: if_splits)

lemma cdma_u_alloc_buf_frame:
  "\<exists>t. snd (cdma_u_alloc_buf E n s) = s\<lparr>tr := t\<rparr>"
  by (auto simp: cdma_u_alloc_buf_def sys_defs Let_def emit_def split: prod.splits intro: exI)

definition new_page :: "nat \<Rightarrow> ptr \<Rightarrow> ptr \<Rightarrow> ptr \<Rightarrow> cdma_u_db_page" where
  "new_page k nxt buf bitmap = \<lparr>pg_prev = NULL, pg_next = nxt, pg_buf = buf, pg_length = 2 ^ k,
     pg_num_db = 2 ^ (k - 6), pg_use_cnt = 0, pg_bitmap_ptr = bitmap,
     pg_bitmap = replicate (2 ^ (k - 12)) (NOT 0), pg_bitmap_cnt = 2 ^ (k - 12)\<rparr>"

definition push_page :: "ptr \<Rightarrow> ptr \<Rightarrow> cdma_u_db_page \<Rightarrow> st \<Rightarrow> st" where
  "push_page ctx a v s =
     (let h = ctx_page (ctxs s ctx); pg1 = (pages s)(a := v) in
      s\<lparr>pages := (if h \<noteq> NULL then pg1(h := (pg1 h)\<lparr>pg_prev := a\<rparr>) else pg1),
        ctxs := (ctxs s)(ctx := (ctxs s ctx)\<lparr>ctx_page := a\<rparr>)\<rparr>)"

lemma cdma_add_db_page_cases:
  assumes ok: "sys_ok E k" and ps: "ctx_page_size (ctxs s ctx) = 2 ^ k"
  obtains (fail) t where "cdma_add_db_page E ctx s = (NULL, s\<lparr>tr := t\<rparr>)" and "live_of t = live s"
  | (added) a bitmap buf t where
      "cdma_add_db_page E ctx s =
         (a, push_page ctx a (new_page k (ctx_page (ctxs s ctx)) buf bitmap) (s\<lparr>tr := t\<rparr>))"
      and "live_of t = live s + page_res a (new_page k (ctx_page (ctxs s ctx)) buf bitmap)"
      and "a \<noteq> NULL" "RMem a \<notin># live s" "bitmap \<noteq> NULL" "buf \<noteq> NULL" "buf AND mask k = 0"
      and "\<forall>n. RMap buf n \<notin># live s"
proof -
  have k: "12 \<le> k" "k \<le> 30" and mm: "mmap_ok E"
    and fresh: "\<And>t ob. e_alloc E t ob \<noteq> NULL \<Longrightarrow> RMem (e_alloc E t ob) \<notin># live_of t"
    and anon: "\<And>t n. e_mmap_anon E t n \<noteq> MAP_FAILED \<Longrightarrow>
        e_mmap_anon E t n AND mask k = 0 \<and> (\<forall>n'. RMap (e_mmap_anon E t n) n' \<notin># live_of t)"
    using ok unfolding sys_ok_def by blast+
  note fb = fresh_bitmap [OF k]
  define a where "a = e_alloc E (tr s) ObjDbPage"
  define s1 where "s1 = emit (EvAlloc ObjDbPage a) s"
  define b where "b = e_alloc E (tr s1) ObjBitmap"
  define s2 where "s2 = emit (EvAlloc ObjBitmap b) s1"
  obtain p s3 where p: "cdma_u_alloc_buf E (2 ^ k) s2 = (p, s3)" by (cases "cdma_u_alloc_buf E (2 ^ k) s2")
  then obtain t where t: "s3 = s2\<lparr>tr := t\<rparr>" using cdma_u_alloc_buf_frame [of E "2 ^ k" s2] by auto
  then have s3: "s3 = s\<lparr>tr := t\<rparr>" by (simp add: s2_def s1_def emit_def)
  have l3: "live_of t = live s2 + (if p = NULL then {#} else {#RMap p (2 ^ k)#})"
    using cdma_u_alloc_buf_live [OF p mm] by (simp add: t live_def)
  have l1: "live s1 = live s + (if a = NULL then {#} else {#RMem a#})"
    and l2: "live s2 = live s1 + (if b = NULL then {#} else {#RMem b#})"
    by (simp_all add: s1_def s2_def live_simps)
  let ?r = "cdma_add_db_page E ctx s"
  have r: "?r =
     (if a = NULL then (NULL, s1) else if b = NULL then (NULL, sys_free a s2)
      else if p = NULL then (NULL, sys_free a (sys_free b s3))
      else (a, push_page ctx a (new_page k (ctx_page (ctxs s ctx)) p b) s3))"
    using fb(1,2) k p s3
    by (auto simp: cdma_add_db_page_def cdma_bitmap_alloc_def cdma_bitmap_free_def ps sys_alloc_def a_def
        s1_def b_def s2_def Let_def new_page_def push_page_def)
  show thesis
  proof (cases "a = NULL \<or> b = NULL \<or> p = NULL")
    case True
    have "?r = (NULL, s\<lparr>tr := tr (snd ?r)\<rparr>)"
      using True r s3 by (auto simp: s1_def s2_def sys_free_def emit_def)
    moreover have "live (snd ?r) = live s"
      using True r l1 l2 l3 by (auto simp: sys_free_def live_simps live_def s3)
    ultimately show ?thesis using fail by (metis live_def)
  next
    case False
    then have pr: "p = e_mmap_anon E (tr s2) (2 ^ k)" "p \<noteq> MAP_FAILED"
      using cdma_u_alloc_buf_result [OF p] by auto
    have "RMem a \<notin># live s" using fresh [of "tr s" ObjDbPage] False by (simp add: a_def live_def)
    moreover have "p AND mask k = 0 \<and> (\<forall>n'. RMap p n' \<notin># live s)"
      using anon [of "tr s2" "2 ^ k"] pr l1 l2 False by (auto simp: live_def)
    moreover have "live_of t = live s + page_res a (new_page k (ctx_page (ctxs s ctx)) p b)"
      using l1 l2 l3 False by (simp add: page_res_def new_page_def)
    ultimately show ?thesis using added [of a p b t] r False s3 by auto
  qed
qed

lemma pg_prev_update_same [simp]:
  "page_base_wf k (pg\<lparr>pg_prev := x\<rparr>) = page_base_wf k pg"
  "page_wf k (pg\<lparr>pg_prev := x\<rparr>) = page_wf k pg"
  "page_used (pg\<lparr>pg_prev := x\<rparr>) = page_used pg"
  "page_res a (pg\<lparr>pg_prev := x\<rparr>) = page_res a pg"
  "page_free (pg\<lparr>pg_prev := x\<rparr>) = page_free pg"
  by (simp_all add: page_wf_def page_base_wf_def page_free_def page_used_def page_res_def db_slot_def)

lemma push_page_same:
  assumes "b \<noteq> a"
  shows "\<exists>x. pages (push_page ctx a v s) b = (pages s b)\<lparr>pg_prev := x\<rparr>"
proof -
  have "\<exists>x. pages s b = (pages s b)\<lparr>pg_prev := x\<rparr>"
    by (rule exI [of _ "pg_prev (pages s b)"]) simp
  then show ?thesis using assms by (auto simp: push_page_def Let_def)
qed

lemma push_page_sel:
  assumes "b \<noteq> a"
  shows "page_wf k (pages (push_page ctx a v s) b) = page_wf k (pages s b)"
    and "page_used (pages (push_page ctx a v s) b) = page_used (pages s b)"
    and "page_res b (pages (push_page ctx a v s) b) = page_res b (pages s b)"
    and "pg_buf (pages (push_page ctx a v s) b) = pg_buf (pages s b)"
  using push_page_same [OF assms, of ctx v s] by auto

lemma push_page_update:
  assumes "a \<noteq> ctx_page (ctxs s ctx)"
  shows "(push_page ctx a v s)\<lparr>pages := (pages (push_page ctx a v s))(a := w)\<rparr> = push_page ctx a w s"
    and "pages (push_page ctx a v s) a = v"
  using assms by (auto simp: push_page_def Let_def fun_upd_twist)

lemma dll_head:
  assumes "dll pg h as"
  shows "h = NULL \<or> h \<in> set as"
  using assms by (cases as) (auto simp: dll_def)

lemma db_inv_push:
  assumes inv: "db_inv k s ctx as" and wf: "page_wf k v" and a: "a \<noteq> NULL" "RMem a \<notin># live s"
    and l: "pg_prev v = NULL" "pg_next v = ctx_page (ctxs s ctx)"
    and buf: "\<forall>n. RMap (pg_buf v) n \<notin># live s" and t: "live_of t = live s + page_res a v"
  defines "s' \<equiv> push_page ctx a v (s\<lparr>tr := t\<rparr>)"
  shows "db_inv k s' ctx (a # as)"
    and "live s' = live s + page_res a v"
    and "pages_res s' (a # as) = pages_res s as + page_res a v"
    and "db_used s' (a # as) = db_used s as \<union> page_used v" and "a \<notin> set as"
proof -
  show a': "a \<notin> set as" using db_inv_live(1) [OF inv] a(2) by blast
  have h: "a \<noteq> ctx_page (ctxs s ctx)"
    using dll_head [of "pages s" _ as] inv a' a(1) by (auto simp: db_inv_def)
  have self: "pages s' a = v" using h push_page_update(2) [of a "s\<lparr>tr := t\<rparr>"] by (simp add: s'_def)
  have other: "page_wf k (pages s' b) = page_wf k (pages s b)"
    "page_used (pages s' b) = page_used (pages s b)"
    "page_res b (pages s' b) = page_res b (pages s b)"
    "pg_buf (pages s' b) = pg_buf (pages s b)" if "b \<in> set as" for b
  proof -
    have "b \<noteq> a" using that a' by blast
    from push_page_sel [OF this, where s = "s\<lparr>tr := t\<rparr>"]
    show "page_wf k (pages s' b) = page_wf k (pages s b)"
      "page_used (pages s' b) = page_used (pages s b)"
      "page_res b (pages s' b) = page_res b (pages s b)"
      "pg_buf (pages s' b) = pg_buf (pages s b)"
      by (simp_all add: s'_def)
  qed
  show live: "live s' = live s + page_res a v"
    using t by (simp add: s'_def push_page_def Let_def live_def)
  have same: "map (\<lambda>b. page_res b (pages s' b)) as = map (\<lambda>b. page_res b (pages s b)) as"
    "map (\<lambda>b. pg_buf (pages s' b)) as = map (\<lambda>b. pg_buf (pages s b)) as"
    using other by simp_all
  show res: "pages_res s' (a # as) = pages_res s as + page_res a v"
    using other(3) by (simp add: pages_res_def self cong: map_cong)
  show "db_used s' (a # as) = db_used s as \<union> page_used v"
    using other(2) by (auto simp: db_used_def self)
  have nb: "pg_buf v \<noteq> pg_buf (pages s b)" if "b \<in> set as" for b
    using db_inv_live(2) [OF inv that] buf by metis
  have "distinct (map (\<lambda>b. pg_buf (pages s' b)) as)"
    unfolding same(2) using inv by (simp add: db_inv_def)
  moreover have "pg_buf v \<noteq> pg_buf (pages s' b)" if "b \<in> set as" for b
    using nb [OF that] other(4) [OF that] by simp
  ultimately have bufs: "distinct (map (\<lambda>b. pg_buf (pages s' b)) (a # as))"
    by (auto simp: self)
  have "dll (pages s') a (a # as)"
    using dll_insert [of "pages s" "ctx_page (ctxs s ctx)" as a v] inv a(1) a' l
    by (simp add: s'_def push_page_def Let_def db_inv_def)
  moreover have "ctx_page (ctxs s' ctx) = a" "ctx_page_size (ctxs s' ctx) = ctx_page_size (ctxs s ctx)"
    by (simp_all add: s'_def push_page_def Let_def)
  ultimately show "db_inv k s' ctx (a # as)"
    using inv wf other(1) a' bufs res live by (simp add: db_inv_def self)
qed

subsection \<open>Allocation\<close>

definition db_frame :: "ptr \<Rightarrow> st \<Rightarrow> st \<Rightarrow> bool" where
  "db_frame ctx s s' \<longleftrightarrow> devs s' = devs s \<and> jfces s' = jfces s \<and> jfcs s' = jfcs s \<and> jfss s' = jfss s
     \<and> tps s' = tps s \<and> queues s' = queues s \<and> segs s' = segs s \<and> wqebbs s' = wqebbs s
     \<and> cqes s' = cqes s \<and> wrids s' = wrids s \<and> swdbs s' = swdbs s \<and> umem s' = umem s
     \<and> (\<forall>c. (ctxs s' c)\<lparr>ctx_page := NULL\<rparr> = (ctxs s c)\<lparr>ctx_page := NULL\<rparr>
            \<and> (c \<noteq> ctx \<longrightarrow> ctxs s' c = ctxs s c))"

lemma db_inv_emit [simp]:
  "acquired e = {#} \<Longrightarrow> released e = {#} \<Longrightarrow> db_inv k (emit e s) ctx as = db_inv k s ctx as"
  by (simp add: db_inv_def pages_res_def live_simps)

lemma db_used_emit [simp]: "db_used (emit e s) as = db_used s as"
  by (simp add: db_used_def)

lemma pages_res_emit [simp]: "pages_res (emit e s) as = pages_res s as"
  by (simp add: pages_res_def)

lemma new_page_wf:
  assumes "12 \<le> k" "k \<le> 30" and "bitmap \<noteq> NULL" "buf \<noteq> NULL" "buf AND mask k = 0"
  shows "page_base_wf k (new_page k h buf bitmap)" and "page_used (new_page k h buf bitmap) = {}"
    and "pg_use_cnt (new_page k h buf bitmap) < pg_num_db (new_page k h buf bitmap)"
  using fresh_bitmap [OF assms(1,2)] assms
  by (simp_all add: page_base_wf_def page_used_def page_free_def new_page_def word_less_nat_alt)

text \<open>Both branches of \<open>found:\<close>: a doorbell taken from a page with room.\<close>

lemma db_slot_not_null:
  assumes "db AND NOT (mask k) = pg_buf pg" and "pg_buf pg \<noteq> (NULL :: ptr)"
  shows "db \<noteq> NULL"
  using assms by auto


lemma dseg_nonnull:
  assumes "dseg pg prv p as l q" and "a \<in> set as"
  shows "a \<noteq> NULL"
  using assms by (induction as arbitrary: prv p) auto

lemma sys_ok_page: "sys_ok E k \<Longrightarrow> 12 \<le> k \<and> k \<le> 30"
  by (simp add: sys_ok_def)

lemma db_frame_simps [simp]:
  "db_frame ctx s s"
  "db_frame ctx s (emit e s') = db_frame ctx s s'"
  "db_frame ctx (emit e s) s' = db_frame ctx s s'"
  "db_frame ctx s (s'\<lparr>pages := ps\<rparr>) = db_frame ctx s s'"
  "db_frame ctx s (s'\<lparr>tr := t\<rparr>) = db_frame ctx s s'"
  "db_frame ctx s (push_page ctx a v s') = db_frame ctx s s'"
  by (auto simp: db_frame_def push_page_def Let_def)

theorem cdma_u_alloc_sw_db_spec:
  assumes ok: "sys_ok E k" and inv: "db_inv k s ctx as"
  shows "\<exists>db s' as'. cdma_u_alloc_sw_db E ctx s = Some (db, s') \<and> db_inv k s' ctx as'
     \<and> live s' + pages_res s as = live s + pages_res s' as' \<and> db_frame ctx s s'
     \<and> (if db = NULL then as' = as \<and> pages s' = pages s \<and> live s' = live s
        else db \<notin> db_used s as \<and> db_used s' as' = insert db (db_used s as))"
proof -
  have k: "6 \<le> k" "k \<le> 31" and k': "12 \<le> k" "k \<le> 30" using sys_ok_page [OF ok] by simp_all
  let ?s1 = "emit (EvLock ctx) s"
  let ?P = "\<lambda>pg. pg_use_cnt pg < pg_num_db pg"
  have inv1: "db_inv k ?s1 ctx as" using inv by simp
  obtain l where l: "dseg (pages s) NULL (ctx_page (ctxs s ctx)) as l NULL"
    using inv by (auto simp: db_inv_def dll_def)
  have find: "find_db_page (pages s) ?P (ctx_page (ctxs s ctx)) =
      Some (case List.find (\<lambda>a. ?P (pages s a)) as of None \<Rightarrow> NULL | Some a \<Rightarrow> a)"
    by (rule find_db_page_dll [OF l])
  show ?thesis
  proof (cases "List.find (\<lambda>a. ?P (pages s a)) as")
    case (Some a)
    then have a: "a \<in> set as" "?P (pages s a)" by (auto simp: find_Some_iff)
    have anz: "a \<noteq> NULL" using dseg_nonnull [OF l a(1)] .
    have wf: "page_base_wf k (pages s a)" using inv a by (auto simp: db_inv_def page_wf_def)
    obtain bm npos where use: "cdma_bitmap_use_idx (pg_bitmap (pages s a)) (pg_bitmap_cnt (pages s a))
           (pg_num_db (pages s a)) 0 = (0, npos, bm)"
      and pg': "let v = (pages s a)\<lparr>pg_bitmap := bm, pg_use_cnt := pg_use_cnt (pages s a) + 1\<rparr>;
             db = pg_buf (pages s a) + ucast (npos * CDMA_DB_SIZE)
         in page_wf k v \<and> db \<notin> page_used (pages s a) \<and> page_used v = insert db (page_used (pages s a))
            \<and> db AND NOT (mask k) = pg_buf (pages s a)"
      by (rule take_db [OF wf k a(2)])
    define v where "v = (pages s a)\<lparr>pg_bitmap := bm, pg_use_cnt := pg_use_cnt (pages s a) + 1\<rparr>"
    define db where "db = pg_buf (pages s a) + ucast (npos * CDMA_DB_SIZE)"
    note pg = pg' [folded v_def db_def, unfolded Let_def, folded v_def db_def]
    have vs: "pg_prev v = pg_prev (pages s a)" "pg_next v = pg_next (pages s a)"
      "pg_buf v = pg_buf (pages s a)" "pg_bitmap_ptr v = pg_bitmap_ptr (pages s a)" by (simp_all add: v_def)
    let ?s3 = "?s1\<lparr>pages := (pages s)(a := v)\<rparr>"
    have "cdma_u_alloc_sw_db E ctx s = Some (db, emit (EvUnlock ctx) ?s3)"
      using find Some anz use by (simp add: cdma_u_alloc_sw_db_def v_def db_def Let_def)
    moreover have "db_inv k ?s3 ctx as" "pages_res ?s3 as = pages_res s as"
      using db_inv_update [OF inv1 a(1), of v] pg vs by simp_all
    moreover have "db_used ?s3 as = insert db (db_used s as)"
      using db_used_update [OF a(1), of ?s1 v] pg a(1) by (auto simp: db_used_def)
    moreover have "db \<notin> db_used s as"
      using db_used_disjoint [OF inv k a(1)] pg by (auto simp: db_used_def)
    moreover have "db \<noteq> NULL"
      using db_slot_not_null [of db k "pages s a"] pg wf by (simp add: page_base_wf_def)
    ultimately show ?thesis
      by (intro exI [of _ db] exI [of _ "emit (EvUnlock ctx) ?s3"] exI [of _ as]) (simp add: live_simps)
  next
    case None
    have ps: "ctx_page_size (ctxs ?s1 ctx) = 2 ^ k" using inv by (simp add: db_inv_def)
    show ?thesis
    proof (cases rule: cdma_add_db_page_cases [OF ok ps])
      case (1 t)
      then show ?thesis using find None inv1
        by (intro exI [of _ NULL] exI [of _ "emit (EvUnlock ctx) (?s1\<lparr>tr := t\<rparr>)"] exI [of _ as])
          (simp add: cdma_u_alloc_sw_db_def live_simps db_inv_def pages_res_def live_def)
    next
      case (2 a bitmap buf t)
      let ?h = "ctx_page (ctxs ?s1 ctx)"
      let ?n = "new_page k ?h buf bitmap"
      note nw = new_page_wf [OF k' 2(5,6,7)]
      obtain bm npos where use: "cdma_bitmap_use_idx (pg_bitmap ?n) (pg_bitmap_cnt ?n)
             (pg_num_db ?n) 0 = (0, npos, bm)"
        and pg': "let v = ?n\<lparr>pg_bitmap := bm, pg_use_cnt := pg_use_cnt ?n + 1\<rparr>;
               db = pg_buf ?n + ucast (npos * CDMA_DB_SIZE)
           in page_wf k v \<and> db \<notin> page_used ?n \<and> page_used v = insert db (page_used ?n)
              \<and> db AND NOT (mask k) = pg_buf ?n"
        by (rule take_db [OF nw(1) k nw(3)])
      define v where "v = ?n\<lparr>pg_bitmap := bm, pg_use_cnt := pg_use_cnt ?n + 1\<rparr>"
      define db where "db = pg_buf ?n + ucast (npos * CDMA_DB_SIZE)"
      note pg = pg' [folded v_def db_def, unfolded Let_def, folded v_def db_def]
      have vs: "pg_prev v = NULL" "pg_next v = ?h" "pg_buf v = buf" "page_res a v = page_res a ?n"
        by (simp_all add: v_def new_page_def page_res_def)
      let ?s3 = "push_page ctx a v (?s1\<lparr>tr := t\<rparr>)"
      have push: "db_inv k ?s3 ctx (a # as)" "live ?s3 = live ?s1 + page_res a v"
          "pages_res ?s3 (a # as) = pages_res ?s1 as + page_res a v"
          "db_used ?s3 (a # as) = db_used ?s1 as \<union> page_used v" and a: "a \<notin> set as"
        using db_inv_push [OF inv1, of v a t] pg vs 2 by simp_all
      have "a \<noteq> ctx_page (ctxs (?s1\<lparr>tr := t\<rparr>) ctx)"
        using dll_head [of "pages s" "ctx_page (ctxs s ctx)" as] inv a 2(3) by (auto simp: db_inv_def)
      then have "cdma_u_alloc_sw_db E ctx s = Some (db, emit (EvUnlock ctx) ?s3)"
        using find None 2(1,3) use push_page_update [of a "?s1\<lparr>tr := t\<rparr>" ctx]
        by (simp add: cdma_u_alloc_sw_db_def v_def db_def Let_def)
      moreover have "db \<noteq> NULL" using db_slot_not_null [of db k ?n] pg 2(6) by (simp add: new_page_def)
      moreover have "db \<notin> db_used s as"
      proof
        assume "db \<in> db_used s as"
        then obtain b where b: "b \<in> set as" "db \<in> page_used (pages s b)" by (auto simp: db_used_def)
        have "db AND NOT (mask k) = pg_buf (pages s b)"
          using inv b k by (intro page_used_base) (auto simp: db_inv_def page_wf_def)
        then have "buf = pg_buf (pages s b)" using pg by (simp add: new_page_def)
        then show False using db_inv_live(2) [OF inv b(1)] 2(8) by (auto simp: live_simps)
      qed
      ultimately show ?thesis using push pg nw(2)
        by (intro exI [of _ db] exI [of _ "emit (EvUnlock ctx) ?s3"] exI [of _ "a # as"])
          (simp add: live_simps ac_simps)
    qed
  qed
qed


subsection \<open>Release\<close>

lemma ucast_page_mask:
  assumes "k \<le> 31"
  shows "NOT (ucast (2 ^ k :: u32) - 1) = (NOT (mask k) :: u64)"
  using ucast_pow2 [OF assms] by (simp add: mask_eq_exp_minus_1)

lemma unlinked_same:
  "(unlinked pg a b)\<lparr>pg_prev := NULL, pg_next := NULL\<rparr> = (pg b)\<lparr>pg_prev := NULL, pg_next := NULL\<rparr>"
  by (auto simp: unlinked_def Let_def)

lemma page_links_irrelevant:
  assumes "p\<lparr>pg_prev := NULL, pg_next := NULL\<rparr> = q\<lparr>pg_prev := NULL, pg_next := NULL\<rparr>"
  shows "page_wf k p = page_wf k q" and "page_used p = page_used q" and "page_res a p = page_res a q"
    and "pg_buf p = pg_buf q" and "pg_bitmap_ptr p = pg_bitmap_ptr q"
proof -
  have core: "page_wf k p = page_wf k (p\<lparr>pg_prev := NULL, pg_next := NULL\<rparr>)"
    "page_used p = page_used (p\<lparr>pg_prev := NULL, pg_next := NULL\<rparr>)"
    "page_res a p = page_res a (p\<lparr>pg_prev := NULL, pg_next := NULL\<rparr>)"
    "pg_buf p = pg_buf (p\<lparr>pg_prev := NULL, pg_next := NULL\<rparr>)"
    "pg_bitmap_ptr p = pg_bitmap_ptr (p\<lparr>pg_prev := NULL, pg_next := NULL\<rparr>)" for p
    by (simp_all add: page_wf_def page_base_wf_def page_free_def page_used_def page_res_def db_slot_def)
  show "page_wf k p = page_wf k q" "page_used p = page_used q" "page_res a p = page_res a q"
    "pg_buf p = pg_buf q" "pg_bitmap_ptr p = pg_bitmap_ptr q"
    unfolding core [of p] core [of q] assms by (rule refl)+
qed

lemmas unlinked_core = page_links_irrelevant [OF unlinked_same]

lemma db_frame_unlink [simp]: "db_frame ctx s (unlink_db_page ctx a s') = db_frame ctx s s'"
  by (auto simp: db_frame_def unlink_db_page_unlinked)

lemma db_frame_clear [simp]: "db_frame ctx s (cdma_clear_db_page a s') = db_frame ctx s s'"
  by (simp add: cdma_clear_db_page_def cdma_bitmap_free_def cdma_u_free_buf_def sys_free_def sys_munmap_def Let_def)

lemma cdma_clear_db_page_eq:
  assumes "pg_buf (pages s a) \<noteq> NULL" "pg_bitmap_ptr (pages s a) \<noteq> NULL" and "a \<noteq> NULL"
  shows "pages (cdma_clear_db_page a s) = pages s" "ctxs (cdma_clear_db_page a s) = ctxs s"
    and "live (cdma_clear_db_page a s) = live s - page_res a (pages s a)"
  using assms
  by (simp_all add: cdma_clear_db_page_def cdma_bitmap_free_def cdma_u_free_buf_def sys_free_def
      sys_munmap_def Let_def page_base_wf_def page_res_def live_simps add_mset_commute)

theorem cdma_u_free_sw_db_spec:
  assumes k: "6 \<le> k" "k \<le> 31" and inv: "db_inv k s ctx as" and db: "db \<in> db_used s as"
  shows "\<exists>s' as'. cdma_u_free_sw_db ctx db s = Some s' \<and> db_inv k s' ctx as' \<and> set as' \<subseteq> set as
     \<and> db_used s' as' = db_used s as - {db}
     \<and> live s' + pages_res s as = live s + pages_res s' as' \<and> db_frame ctx s s'"
proof -
  let ?s1 = "emit (EvLock ctx) s"
  let ?P = "\<lambda>pg. db AND NOT (mask k) = pg_buf pg"
  have inv1: "db_inv k ?s1 ctx as" using inv by simp
  have ps: "ctx_page_size (ctxs s ctx) = 2 ^ k" using inv by (simp add: db_inv_def)
  obtain l where l: "dseg (pages s) NULL (ctx_page (ctxs s ctx)) as l NULL"
    using inv by (auto simp: db_inv_def dll_def)
  obtain a where a: "a \<in> set as" "db \<in> page_used (pages s a)" using db by (auto simp: db_used_def)
  have wf: "page_wf k (pages s a)" using inv a(1) by (auto simp: db_inv_def)
  then have base: "page_base_wf k (pages s a)" by (simp add: page_wf_def)
  have Pa: "?P (pages s a)" by (rule page_used_base [OF base k a(2)])
  have bufs: "distinct (map (\<lambda>a. pg_buf (pages s a)) as)" using inv by (simp add: db_inv_def)
  have only: "b = a" if "b \<in> set as" "?P (pages s b)" for b
    using that a(1) Pa bufs by (auto simp: distinct_map dest: inj_onD)
  have "List.find (\<lambda>a. ?P (pages s a)) as = Some a"
  proof (cases "List.find (\<lambda>a. ?P (pages s a)) as")
    case None
    then show ?thesis using a(1) Pa by (auto simp: find_None_iff)
  next
    case (Some b)
    then have "b \<in> set as" "?P (pages s b)" by (auto simp: find_Some_iff)
    then show ?thesis using only Some by auto
  qed
  then have find: "find_db_page (pages s) ?P (ctx_page (ctxs s ctx)) = Some a"
    using find_db_page_dll [OF l, of ?P] by simp
  have anz: "a \<noteq> NULL" by (rule dseg_nonnull [OF l a(1)])
  define v where "v = (pages s a)\<lparr>pg_use_cnt := pg_use_cnt (pages s a) - 1\<rparr>"
  let ?s2 = "?s1\<lparr>pages := (pages s)(a := v)\<rparr>"
  show ?thesis
  proof (cases "pg_use_cnt (pages s a) - 1 = 0")
    case False
    let ?npos = "(ucast ((db - pg_buf (pages s a)) div ucast CDMA_DB_SIZE) :: u32)"
    define w where "w = v\<lparr>pg_bitmap := cdma_bitmap_free_idx (pg_bitmap (pages s a)) (pg_bitmap_cnt (pages s a)) ?npos\<rparr>"
    have w: "page_wf k w" "page_used w = page_used (pages s a) - {db}"
      using give_db [OF wf k a(2) False] by (simp_all add: w_def v_def)
    have ws: "pg_prev w = pg_prev (pages s a)" "pg_next w = pg_next (pages s a)"
      "pg_buf w = pg_buf (pages s a)" "pg_bitmap_ptr w = pg_bitmap_ptr (pages s a)"
      by (simp_all add: w_def v_def)
    let ?s3 = "?s1\<lparr>pages := (pages s)(a := w)\<rparr>"
    have "cdma_u_free_sw_db ctx db s = Some (emit (EvUnlock ctx) ?s3)"
      using find anz False
      by (simp add: cdma_u_free_sw_db_def ps ucast_page_mask [OF k(2)] Let_def v_def w_def)
    moreover have "db_inv k ?s3 ctx as" "pages_res ?s3 as = pages_res s as"
      using db_inv_update [OF inv1 a(1) w(1)] ws by simp_all
    moreover have "db_used ?s3 as = db_used s as - {db}"
      using db_used_update [OF a(1), of ?s1 w] w(2) a db_used_disjoint [OF inv k a(1) _ _ Pa]
      by (auto simp: db_used_def)
    ultimately show ?thesis
      by (intro exI [of _ "emit (EvUnlock ctx) ?s3"] exI [of _ as]) (simp add: live_simps)
  next
    case True
    obtain xs ys where as: "as = xs @ a # ys" using a(1) by (metis split_list)
    have dist: "distinct as" using inv by (simp add: db_inv_def)
    have single: "page_used (pages s a) = {db}" by (rule last_db [OF wf k a(2) True])
    let ?s3 = "cdma_clear_db_page a (unlink_db_page ctx a ?s2)"
    have run: "cdma_u_free_sw_db ctx db s = Some (emit (EvUnlock ctx) ?s3)"
      using find anz True by (simp add: cdma_u_free_sw_db_def ps ucast_page_mask [OF k(2)] Let_def v_def)
    let ?pg = "(pages s)(a := v)"
    have dll2: "dll ?pg (ctx_page (ctxs s ctx)) as"
      using inv by (intro dll_update_same) (auto simp: db_inv_def v_def)
    have pages3: "pages ?s3 = unlinked ?pg a" "live ?s3 = live s - page_res a (pages s a)"
      "ctx_page (ctxs ?s3 ctx) = (if pg_prev (?pg a) = NULL then pg_next (?pg a) else ctx_page (ctxs s ctx))"
      "ctx_page_size (ctxs ?s3 ctx) = 2 ^ k"
    proof -
      let ?s4 = "unlink_db_page ctx a ?s2"
      have p4: "pages ?s4 = unlinked ?pg a" by (simp add: unlink_db_page_unlinked)
      have l4: "live ?s4 = live s" by (simp add: unlink_db_page_unlinked live_simps)
      have c4: "ctx_page (ctxs ?s4 ctx) = (if pg_prev (?pg a) = NULL then pg_next (?pg a) else ctx_page (ctxs s ctx))"
        "ctx_page_size (ctxs ?s4 ctx) = 2 ^ k"
        using ps by (simp_all add: unlink_db_page_unlinked)
      have core: "pg_buf (pages ?s4 a) = pg_buf (pages s a)"
        "pg_bitmap_ptr (pages ?s4 a) = pg_bitmap_ptr (pages s a)"
        "page_res a (pages ?s4 a) = page_res a (pages s a)"
        unfolding p4 unlinked_core by (simp_all add: v_def page_res_def)
      have "pg_buf (pages s a) \<noteq> NULL" "pg_bitmap_ptr (pages s a) \<noteq> NULL"
        using base by (simp_all add: page_base_wf_def)
      then have "pages ?s3 = pages ?s4" "ctxs ?s3 = ctxs ?s4" "live ?s3 = live ?s4 - page_res a (pages ?s4 a)"
        using cdma_clear_db_page_eq [of ?s4 a] core anz by auto
      then show "pages ?s3 = unlinked ?pg a" "live ?s3 = live s - page_res a (pages s a)"
        "ctx_page (ctxs ?s3 ctx) = (if pg_prev (?pg a) = NULL then pg_next (?pg a) else ctx_page (ctxs s ctx))"
        "ctx_page_size (ctxs ?s3 ctx) = 2 ^ k"
        using p4 l4 c4 core(3) by simp_all
    qed
    have other: "pages ?s3 b = unlinked ?pg a b" "b \<noteq> a" if "b \<in> set (xs @ ys)" for b
      using that dist as pages3(1) by auto
    have keep: "page_wf k (pages ?s3 b) = page_wf k (pages s b)" "page_used (pages ?s3 b) = page_used (pages s b)"
      "page_res b (pages ?s3 b) = page_res b (pages s b)" "pg_buf (pages ?s3 b) = pg_buf (pages s b)"
      if "b \<in> set (xs @ ys)" for b
      using other [OF that] by (simp_all add: unlinked_core)
    have res: "pages_res ?s3 (xs @ ys) = pages_res s (xs @ ys)"
      using keep(3) by (simp add: pages_res_def cong: map_cong)
    have split: "pages_res s as = page_res a (pages s a) + pages_res s (xs @ ys)"
      by (simp add: pages_res_def as)
    have sub: "page_res a (pages s a) + pages_res s (xs @ ys) \<subseteq># live s"
      using inv split by (simp add: db_inv_def)
    then have sub': "page_res a (pages s a) \<subseteq># live s" "pages_res s (xs @ ys) \<subseteq># live s - page_res a (pages s a)"
      by (rule sub_sum_mset)+
    have "map (\<lambda>b. pg_buf (pages ?s3 b)) (xs @ ys) = map (\<lambda>b. pg_buf (pages s b)) (xs @ ys)"
      by (rule map_cong) (simp_all only: keep(4))
    then have "distinct (map (\<lambda>b. pg_buf (pages ?s3 b)) (xs @ ys))" using bufs by (simp add: as del: map_eq_conv)
    moreover have "dll (pages ?s3) (ctx_page (ctxs ?s3 ctx)) (xs @ ys)"
      unfolding pages3 using dll_unlink [of ?pg _ xs a ys] dll2 dist as by simp
    moreover have "\<forall>b\<in>set (xs @ ys). page_wf k (pages ?s3 b)"
      using keep(1) inv as by (auto simp: db_inv_def)
    ultimately have "db_inv k ?s3 ctx (xs @ ys)"
      using dist as res sub' pages3(2,4) by (simp add: db_inv_def)
    moreover have "db_used ?s3 (xs @ ys) = db_used s as - {db}"
      using keep(2) single dist db_used_disjoint [OF inv k a(1) _ _ Pa]
      by (auto simp: db_used_def as)
    moreover have "live ?s3 + pages_res s as = live s + pages_res ?s3 (xs @ ys)"
      using sub'(1) pages3(2) split res by (simp add: subset_mset.add_diff_assoc2 add.commute) 
    ultimately show ?thesis
      using run as by (intro exI [of _ "emit (EvUnlock ctx) ?s3"] exI [of _ "xs @ ys"])
        (auto simp: live_simps)
  qed
qed


subsection \<open>The doorbells as a pool of slots\<close>

lemma dseg_unique:
  assumes "dseg pg prv p as l NULL" and "dseg pg prv' p bs l' NULL"
  shows "as = bs"
  using assms
proof (induction as arbitrary: prv prv' p bs)
  case Nil
  then show ?case by (cases bs) auto
next
  case (Cons a as)
  then show ?case by (cases bs) auto
qed

lemma dll_unique: "dll pg h as \<Longrightarrow> dll pg h bs \<Longrightarrow> as = bs"
  by (auto simp: dll_def dest: dseg_unique)

text \<open>
  The pool's state is the program state with the list of the context's pages, which the
  links determine.
\<close>

definition sw_db_takes :: "env \<Rightarrow> ptr \<Rightarrow> st \<times> ptr list \<Rightarrow> ptr \<Rightarrow> st \<times> ptr list \<Rightarrow> bool" where
  "sw_db_takes E ctx p db p' \<longleftrightarrow> cdma_u_alloc_sw_db E ctx (fst p) = Some (db, fst p') \<and> db \<noteq> NULL
     \<and> dll (pages (fst p')) (ctx_page (ctxs (fst p') ctx)) (snd p')"

definition sw_db_gives :: "ptr \<Rightarrow> st \<times> ptr list \<Rightarrow> ptr \<Rightarrow> st \<times> ptr list \<Rightarrow> bool" where
  "sw_db_gives ctx p db p' \<longleftrightarrow> cdma_u_free_sw_db ctx db (fst p) = Some (fst p')
     \<and> dll (pages (fst p')) (ctx_page (ctxs (fst p') ctx)) (snd p')"

interpretation sw_db: slot_pool "\<lambda>p. sys_ok E k \<and> db_inv k (fst p) ctx (snd p)"
    "\<lambda>p. db_used (fst p) (snd p)" "sw_db_takes E ctx" "sw_db_gives ctx" for E k ctx
proof (unfold_locales, goal_cases)
  case (1 s x s')
  then show ?case using cdma_u_alloc_sw_db_spec [of E k "fst s" ctx "snd s"]
    by (auto simp: sw_db_takes_def db_inv_def dest: dll_unique)
next
  case (2 s x s')
  then show ?case using cdma_u_alloc_sw_db_spec [of E k "fst s" ctx "snd s"]
    by (auto simp: sw_db_takes_def)
next
  case (3 s x s')
  then show ?case using cdma_u_alloc_sw_db_spec [of E k "fst s" ctx "snd s"]
    by (auto simp: sw_db_takes_def db_inv_def dest: dll_unique)
next
  case (4 s x s')
  then show ?case using cdma_u_free_sw_db_spec [of k "fst s" ctx "snd s" x] sys_ok_page [of E k]
    by (auto simp: sw_db_gives_def db_inv_def dest: dll_unique)
next
  case (5 s x s')
  then show ?case using cdma_u_free_sw_db_spec [of k "fst s" ctx "snd s" x] sys_ok_page [of E k]
    by (auto simp: sw_db_gives_def db_inv_def dest: dll_unique)
qed


section \<open>Doorbell pages of the device\<close>

definition cdma_get_dsqe_db_offset :: "u32 \<Rightarrow> cdma_u_doorbell \<Rightarrow> u32 option" where
  "cdma_get_dsqe_db_offset page_size db =
     (if db_type db \<noteq> CDMA_MMAP_JETTY_DSQE then Some 0
      else if page_size div CDMA_HW_PAGE_SIZE = 0 then None
      else Some ((db_id db + 1) mod (page_size div CDMA_HW_PAGE_SIZE) * CDMA_HW_PAGE_SIZE))"

definition cdma_u_alloc_db ::
  "env \<Rightarrow> ptr \<Rightarrow> cdma_u_doorbell \<Rightarrow> st \<Rightarrow> (int \<times> cdma_u_doorbell \<times> st) option" where
  "cdma_u_alloc_db E ctx db s = do {
     let page_size = ctx_page_size (ctxs s ctx);
     let offset = get_mmap_offset (db_id db) page_size (db_type_code (db_type db));
     let (addr, s1) =
       sys_mmap_dev E (dev_fd (devs s (dctx_dma_dev (ctx_dma_ctx (ctxs s ctx))))) page_size offset s;
     if addr = MAP_FAILED then Some (- EINVAL, db\<lparr>db_addr := addr\<rparr>, s1)
     else do {
       off \<leftarrow> cdma_get_dsqe_db_offset page_size db;
       Some (0, db\<lparr>db_addr := addr + ucast off\<rparr>, s1)
     }
   }"

definition cdma_u_free_db :: "ptr \<Rightarrow> cdma_u_doorbell \<Rightarrow> st \<Rightarrow> (cdma_u_doorbell \<times> st) option" where
  "cdma_u_free_db ctx db s =
     (if db_addr db = MAP_FAILED \<or> db_addr db = NULL then Some (db, s)
      else do {
        let page_size = ctx_page_size (ctxs s ctx);
        off \<leftarrow> cdma_get_dsqe_db_offset page_size db;
        Some (db\<lparr>db_addr := NULL\<rparr>, sys_munmap (db_addr db - ucast off) page_size s)
      })"

text \<open>What a mapped doorbell owns: the page its address lies in.\<close>

definition db_res :: "nat \<Rightarrow> cdma_u_doorbell \<Rightarrow> resource multiset" where
  "db_res k db = {#RMap (db_addr db AND NOT (mask k)) (2 ^ k)#}"

definition db_mapped :: "nat \<Rightarrow> cdma_u_doorbell \<Rightarrow> bool" where
  "db_mapped k db \<longleftrightarrow> db_addr db \<noteq> NULL \<and> db_addr db \<noteq> MAP_FAILED \<and>
     map_option ucast (cdma_get_dsqe_db_offset (2 ^ k) db) = Some (db_addr db AND mask k)"

lemma dsqe_offset_addr [simp]:
  "cdma_get_dsqe_db_offset n (db\<lparr>db_addr := x\<rparr>) = cdma_get_dsqe_db_offset n db"
  by (simp add: cdma_get_dsqe_db_offset_def)

lemma dsqe_offset:
  assumes k: "12 \<le> k" "k \<le> 31"
  obtains r where "r < 2 ^ (k - 12)" and "unat (of_nat (r * 4096) :: u32) = r * 4096" and "r * 4096 < 2 ^ k"
    and "cdma_get_dsqe_db_offset (2 ^ k) db =
           Some (if db_type db = CDMA_MMAP_JETTY_DSQE then of_nat (r * 4096) else 0)"
    and "r = unat (db_id db + 1) mod 2 ^ (k - 12)"
proof -
  have pw: "(2 :: nat) ^ k = 2 ^ (k - 12) * 4096"
    using k power_add [of "2 :: nat" "k - 12" 12] by simp
  define r where "r = unat (db_id db + 1) mod 2 ^ (k - 12)"
  have r: "r < 2 ^ (k - 12)" by (simp add: r_def)
  then have lt: "r * 4096 < 2 ^ k" using pw by simp
  then have lt32: "r * 4096 < 2 ^ 32" using pow2_le_31 [OF k(2)] by simp
  have u: "unat (of_nat (r * 4096) :: u32) = r * 4096"
    using lt32 unat_of_nat [of "r * 4096", where 'a = 32] by (simp del: of_nat_mult)
  have d: "(2 ^ k :: u32) div CDMA_HW_PAGE_SIZE = 2 ^ (k - 12)"
    using k pw by (simp add: word_unat_eq_iff unat_div_distrib)
  have ur: "unat (of_nat r :: u32) = r" using lt32 unat_of_nat [of r, where 'a = 32] by simp
  have "unat ((db_id db + 1) mod 2 ^ (k - 12)) = r"
    using k by (simp add: unat_mod_distrib r_def)
  then have "(db_id db + 1) mod 2 ^ (k - 12) = of_nat r" using ur by (simp add: word_unat_eq_iff)
  moreover have "(2 :: u32) ^ (k - 12) \<noteq> 0" using k by (simp add: word_unat_eq_iff)
  ultimately have "cdma_get_dsqe_db_offset (2 ^ k) db =
      Some (if db_type db = CDMA_MMAP_JETTY_DSQE then of_nat (r * 4096) else 0)"
    using d by (simp add: cdma_get_dsqe_db_offset_def mult.commute)
  then show thesis using that r u lt r_def by blast
qed

lemma aligned_offset_mask:
  assumes "k < 64" and "(b :: u64) AND mask k = 0" and "j < 2 ^ k"
  shows "unat ((b + of_nat j) AND mask k) = j"
  using aligned_offset [OF assms] aligned_room [OF assms(1,2)] assms(3)
  by (simp add: unat_and_mask mod_add_left_eq [symmetric]) 

lemma cdma_u_alloc_db_mapped:
  assumes ok: "sys_ok E k" and ps: "ctx_page_size (ctxs s ctx) = 2 ^ k"
  shows "\<exists>r db' s'. cdma_u_alloc_db E ctx db s = Some (r, db', s') \<and> (\<exists>t. s' = s\<lparr>tr := t\<rparr>)
     \<and> db_id db' = db_id db \<and> db_type db' = db_type db
     \<and> (if r = 0 then live s' = live s + db_res k db' \<and> db_mapped k db'
        else r = - EINVAL \<and> live s' = live s)"
proof -
  have k: "12 \<le> k" "k \<le> 31" "k < 64" using sys_ok_page [OF ok] by simp_all
  let ?fd = "dev_fd (devs s (dctx_dma_dev (ctx_dma_ctx (ctxs s ctx))))"
  let ?off = "get_mmap_offset (db_id db) (2 ^ k) (db_type_code (db_type db))"
  define p where "p = e_mmap_dev E (tr s) ?fd (2 ^ k) ?off"
  let ?s1 = "emit (EvMmapDev ?fd (2 ^ k) ?off p) s"
  have fr: "\<exists>t. ?s1 = s\<lparr>tr := t\<rparr>" by (auto simp: emit_def)
  obtain r where r: "r < 2 ^ (k - 12)" "unat (of_nat (r * 4096) :: u32) = r * 4096" "r * 4096 < 2 ^ k"
    "cdma_get_dsqe_db_offset (2 ^ k) db =
           Some (if db_type db = CDMA_MMAP_JETTY_DSQE then of_nat (r * 4096) else 0)"
    by (rule dsqe_offset [OF k(1,2)])
  show ?thesis
  proof (cases "p = MAP_FAILED")
    case True
    then show ?thesis using fr
      by (intro exI [of _ "- EINVAL"] exI [of _ "db\<lparr>db_addr := p\<rparr>"] exI [of _ ?s1])
        (simp add: cdma_u_alloc_db_def ps sys_mmap_dev_def p_def Let_def live_simps)
  next
    case False
    have p0: "p \<noteq> NULL" and al: "p AND mask k = 0"
      using ok False by (auto simp: sys_ok_def mmap_ok_def p_def)
    define j where "j = (if db_type db = CDMA_MMAP_JETTY_DSQE then r * 4096 else 0)"
    have j: "j < 2 ^ k" "4096 dvd j" "unat (of_nat j :: u32) = j" using r by (auto simp: j_def)
    have off: "cdma_get_dsqe_db_offset (2 ^ k) db = Some (of_nat j)" using r(4) by (simp add: j_def)
    have uc: "ucast (of_nat j :: u32) = (of_nat j :: u64)"
    proof -
      have "j < 2 ^ 31 * 2" using j(1) pow2_le_31 [OF k(2)] by simp
      then have "unat (of_nat j :: u64) = j" using unat_of_nat [of j, where 'a = 64] by simp
      then show ?thesis by (simp only: word_unat_eq_iff unat_ucast_u64 j(3))
    qed
    let ?db' = "db\<lparr>db_addr := p + of_nat j\<rparr>"
    have run: "cdma_u_alloc_db E ctx db s = Some (0, ?db', ?s1)"
      using False off uc by (simp add: cdma_u_alloc_db_def ps sys_mmap_dev_def p_def [symmetric] Let_def)
    have base: "(p + of_nat j) AND NOT (mask k) = p" by (rule aligned_offset(2) [OF k(3) al j(1)])
    have mk: "unat ((p + of_nat j) AND mask k) = j" by (rule aligned_offset_mask [OF k(3) al j(1)])
    have "(p + of_nat j) AND mask k = ucast (of_nat j :: u32)"
      unfolding uc using mk j(3) by (simp only: word_unat_eq_iff uc [symmetric] unat_ucast_u64)
    moreover have "p + of_nat j \<noteq> NULL" using base p0 by auto
    moreover have "p + of_nat j \<noteq> MAP_FAILED"
    proof
      assume "p + of_nat j = MAP_FAILED"
      then have "j = unat (MAP_FAILED AND mask k)" using mk by simp
      also have "\<dots> = 2 ^ k - 1" using k by (simp add: mask_eq_exp_minus_1 unat_minus_one)
      finally have "4096 dvd (2 ^ k - 1 :: nat)" using j(2) by simp
      moreover have "4096 dvd (2 ^ k :: nat)" using k(1) le_imp_power_dvd [of 12 k "2 :: nat"] by simp
      ultimately have "4096 dvd (2 ^ k - (2 ^ k - 1) :: nat)" by (rule dvd_diff_nat [rotated])
      then show False by simp
    qed
    ultimately have "db_mapped k ?db'" using off
      by (simp add: db_mapped_def)
    moreover have "live ?s1 = live s + db_res k ?db'"
      using False base by (simp add: live_simps db_res_def)
    ultimately show ?thesis using run fr
      by (intro exI [of _ 0] exI [of _ ?db'] exI [of _ ?s1]) simp
  qed
qed

lemma cdma_u_free_db_mapped:
  assumes "db_mapped k db" and ps: "ctx_page_size (ctxs s ctx) = 2 ^ k"
  shows "\<exists>t. cdma_u_free_db ctx db s = Some (db\<lparr>db_addr := NULL\<rparr>, s\<lparr>tr := t\<rparr>)
     \<and> live_of t = live s - db_res k db"
proof -
  obtain off where off: "cdma_get_dsqe_db_offset (2 ^ k) db = Some off" "ucast off = db_addr db AND mask k"
    and nn: "db_addr db \<noteq> NULL" "db_addr db \<noteq> MAP_FAILED"
    using assms(1) by (auto simp: db_mapped_def)
  have "(db_addr db AND NOT (mask k)) + (db_addr db AND mask k)
      = (db_addr db AND NOT (mask k)) OR (db_addr db AND mask k)"
    by (rule disjunctive_add) (auto simp: bit_simps)
  also have "\<dots> = db_addr db" by (rule bit_word_eqI) (auto simp: bit_simps)
  finally have "db_addr db - ucast off = db_addr db AND NOT (mask k)"
    unfolding off(2) by (metis add_diff_cancel_right')
  then show ?thesis using off(1) nn ps
    by (auto simp: cdma_u_free_db_def sys_munmap_def emit_def db_res_def live_def)
qed


section \<open>Properties\<close>

text \<open>
  C31: whatever the system answers, allocating a software doorbell ends, keeps the invariant of
  the pages and either returns NULL with the pages, the doorbells in use and the live
  resources unchanged, or returns a doorbell that was not in use, which is then the only
  new one in use; the live resources change only by what the pages own.
\<close>

theorem sw_db_alloc:
  assumes "sys_ok E k" and "db_inv k s ctx as"
  shows "\<exists>db s' as'. cdma_u_alloc_sw_db E ctx s = Some (db, s') \<and> db_inv k s' ctx as'
     \<and> live s' + pages_res s as = live s + pages_res s' as' \<and> db_frame ctx s s'
     \<and> (if db = NULL then as' = as \<and> pages s' = pages s \<and> live s' = live s
        else db \<notin> db_used s as \<and> db_used s' as' = insert db (db_used s as))"
  by (rule cdma_u_alloc_sw_db_spec [OF assms])

definition demo_ctx_st :: st where
  "demo_ctx_st = init_st\<lparr>ctxs := (ctxs init_st)(0x40 := zero_context\<lparr>ctx_page_size := 4096\<rparr>)\<rparr>"

lemma demo_ctx_inv: "db_inv 12 demo_ctx_st 0x40 []"
  by (simp add: db_inv_def demo_ctx_st_def init_st_def dll_def pages_res_def zero_context_def)

definition demo_db_take :: "st \<Rightarrow> st" where
  "demo_db_take s = snd (the (cdma_u_alloc_sw_db demo_sys 0x40 s))"

definition demo_db_give :: "ptr \<Rightarrow> st \<Rightarrow> st" where
  "demo_db_give db s = the (cdma_u_free_sw_db 0x40 db s)"

lemma demo_db_takes:
  assumes "map_option fst (cdma_u_alloc_sw_db demo_sys 0x40 s) = Some db" and "db \<noteq> NULL"
    and "dll (pages (demo_db_take s)) (ctx_page (ctxs (demo_db_take s) 0x40)) as'"
  shows "sw_db_takes demo_sys 0x40 (s, as) db (demo_db_take s, as')"
  using assms by (auto simp: sw_db_takes_def demo_db_take_def)

lemma sw_db_alloc_witness:
  "map_option fst (cdma_u_alloc_sw_db demo_sys 0x40 demo_ctx_st) = Some 0x40000
   \<and> (\<exists>as. db_used (demo_db_take demo_ctx_st) as = {0x40000})"
proof -
  have "map_option fst (cdma_u_alloc_sw_db demo_sys 0x40 demo_ctx_st) = Some 0x40000"
    by code_simp
  moreover obtain db s' as' where "cdma_u_alloc_sw_db demo_sys 0x40 demo_ctx_st = Some (db, s')"
    and "db \<noteq> NULL \<Longrightarrow> db_used s' as' = insert db (db_used demo_ctx_st [])"
    using sw_db_alloc [OF demo_sys_ok demo_ctx_inv] by meson
  ultimately show ?thesis by (auto simp: demo_db_take_def db_used_def)
qed

text \<open>
  C32: giving back a doorbell in use ends, keeps the invariant, makes exactly that doorbell
  unused, and releases the page (with its bitmap and its mapping) when it was the last one
  of its page.
\<close>

theorem sw_db_free:
  assumes "6 \<le> k" "k \<le> 31" and "db_inv k s ctx as" and "db \<in> db_used s as"
  shows "\<exists>s' as'. cdma_u_free_sw_db ctx db s = Some s' \<and> db_inv k s' ctx as' \<and> set as' \<subseteq> set as
     \<and> db_used s' as' = db_used s as - {db}
     \<and> live s' + pages_res s as = live s + pages_res s' as' \<and> db_frame ctx s s'"
  by (rule cdma_u_free_sw_db_spec [OF assms])

lemma sw_db_free_witness:
  "\<exists>s' as'. cdma_u_free_sw_db 0x40 0x40000 (demo_db_take demo_ctx_st) = Some s' \<and> db_used s' as' = {}"
proof -
  have "map_option fst (cdma_u_alloc_sw_db demo_sys 0x40 demo_ctx_st) = Some 0x40000"
    by code_simp
  moreover obtain db s' as' where "cdma_u_alloc_sw_db demo_sys 0x40 demo_ctx_st = Some (db, s')"
    and "db_inv 12 s' 0x40 as'"
    and "db \<noteq> NULL \<Longrightarrow> db_used s' as' = insert db (db_used demo_ctx_st [])"
    using cdma_u_alloc_sw_db_spec [OF demo_sys_ok demo_ctx_inv] by meson
  ultimately have inv: "db_inv 12 (demo_db_take demo_ctx_st) 0x40 as'"
    and used: "db_used (demo_db_take demo_ctx_st) as' = {0x40000}"
    by (auto simp: demo_db_take_def db_used_def)
  show ?thesis using sw_db_free [where db = "0x40000", OF _ _ inv] used by auto
qed

text \<open>
  C11: over any sequence of doorbell allocations and releases of a context in which callers
  release only doorbells they hold, no doorbell is handed out while it is in use.
\<close>

theorem sw_db_exclusive:
  assumes "pool_run (sw_db_takes E ctx) (sw_db_gives ctx) (s, as) ops (s', as')"
    and "sys_ok E k" and "db_inv k s ctx as" and "gives_held (db_used s as) ops"
  shows "exclusive (db_used s as) ops \<and> db_inv k s' ctx as'
     \<and> db_used s' as' = held_after (db_used s as) ops"
  using sw_db.run_exclusive [OF assms(1), of k] assms(2-4) by simp

lemma sw_db_exclusive_witness:
  "exclusive {} [Take 0x40000, Take 0x40040, Give 0x40000, Take (0x40000 :: ptr)]"
proof -
  let ?s1 = "demo_db_take demo_ctx_st" let ?s2 = "demo_db_take ?s1"
  let ?s3 = "demo_db_give 0x40000 ?s2" let ?s4 = "demo_db_take ?s3"
  have t1: "sw_db_takes demo_sys 0x40 (demo_ctx_st, []) 0x40000 (?s1, [0x20000])"
    by (rule demo_db_takes) code_simp+
  have t2: "sw_db_takes demo_sys 0x40 (?s1, [0x20000]) 0x40040 (?s2, [0x20000])"
    by (rule demo_db_takes) code_simp+
  have t3: "sw_db_gives 0x40 (?s2, [0x20000]) 0x40000 (?s3, [0x20000])"
  proof -
    have "\<exists>r. cdma_u_free_sw_db 0x40 0x40000 ?s2 = Some r"
      unfolding not_None_eq [symmetric] by code_simp
    moreover have "dll (pages ?s3) (ctx_page (ctxs ?s3 0x40)) [0x20000]" by code_simp
    ultimately show ?thesis by (auto simp: sw_db_gives_def demo_db_give_def)
  qed
  have t4: "sw_db_takes demo_sys 0x40 (?s3, [0x20000]) 0x40000 (?s4, [0x20000])"
    by (rule demo_db_takes) code_simp+
  note run = pool_run.intros [where takes = "sw_db_takes demo_sys 0x40" and gives = "sw_db_gives 0x40"]
  have "pool_run (sw_db_takes demo_sys 0x40) (sw_db_gives 0x40) (demo_ctx_st, [])
      [Take 0x40000, Take 0x40040, Give 0x40000, Take 0x40000] (?s4, [0x20000])"
    by (rule run(2) [OF t1 run(2) [OF t2 run(3) [OF t3
          run(2) [OF t4 run(1)]]]])
  moreover have "db_used demo_ctx_st [] = {}" by (simp add: db_used_def)
  ultimately show ?thesis
    using sw_db_exclusive [OF _ demo_sys_ok demo_ctx_inv] by simp
qed

text \<open>
  C33: mapping the doorbell page of a queue and unmapping it is a round trip. A successful
  mapping is of the page that contains the doorbell address, with the doorbell of a jetty at
  the 4K block \<open>(id + 1) mod (page size / 4096)\<close> of it and that of a JFC at its start; the
  release unmaps that page from its start, forgets the address and leaves the live resources
  as they were.
\<close>

theorem hw_db_roundtrip:
  assumes ok: "sys_ok E k" and ps: "ctx_page_size (ctxs s ctx) = 2 ^ k"
    and run: "cdma_u_alloc_db E ctx db s = Some (0, db', s')"
  shows "live s' = live s + {#RMap (db_addr db' AND NOT (mask k)) (2 ^ k)#}
     \<and> unat (db_addr db' AND mask k) =
           (if db_type db = CDMA_MMAP_JETTY_DSQE then unat (db_id db + 1) mod 2 ^ (k - 12) * 4096 else 0)
     \<and> (\<exists>t. cdma_u_free_db ctx db' s' = Some (db'\<lparr>db_addr := NULL\<rparr>, s'\<lparr>tr := t\<rparr>) \<and> live_of t = live s)"
proof (intro conjI)
  have k: "12 \<le> k" "k \<le> 31" using sys_ok_page [OF ok] by simp_all
  have sp: "live s' = live s + db_res k db'" "db_mapped k db'" "db_id db' = db_id db"
    "db_type db' = db_type db" "\<exists>t. s' = s\<lparr>tr := t\<rparr>"
    using cdma_u_alloc_db_mapped [OF ok ps, of db] run by auto
  then show "live s' = live s + {#RMap (db_addr db' AND NOT (mask k)) (2 ^ k)#}"
    by (simp add: db_res_def)
  obtain r where r: "unat (of_nat (r * 4096) :: u32) = r * 4096"
    "cdma_get_dsqe_db_offset (2 ^ k) db' =
       Some (if db_type db' = CDMA_MMAP_JETTY_DSQE then of_nat (r * 4096) else 0)"
    "r = unat (db_id db' + 1) mod 2 ^ (k - 12)"
    by (rule dsqe_offset [OF k])
  then have "db_addr db' AND mask k = ucast (if db_type db' = CDMA_MMAP_JETTY_DSQE then of_nat (r * 4096) else 0 :: u32)"
    using sp(2) by (simp add: db_mapped_def)
  then have "unat (db_addr db' AND mask k) = (if db_type db' = CDMA_MMAP_JETTY_DSQE then r * 4096 else 0)"
    by (cases "db_type db' = CDMA_MMAP_JETTY_DSQE")
      (simp_all only: unat_ucast_u64 if_True if_False simp_thms unsigned_0 r(1))
  then show "unat (db_addr db' AND mask k) =
      (if db_type db = CDMA_MMAP_JETTY_DSQE then unat (db_id db + 1) mod 2 ^ (k - 12) * 4096 else 0)"
    using sp(3,4) r(3) by simp
  have "ctx_page_size (ctxs s' ctx) = 2 ^ k" using sp(5) ps by auto
  then show "\<exists>t. cdma_u_free_db ctx db' s' = Some (db'\<lparr>db_addr := NULL\<rparr>, s'\<lparr>tr := t\<rparr>) \<and> live_of t = live s"
    using cdma_u_free_db_mapped [OF sp(2), of s' ctx] sp(1) by simp
qed

lemma hw_db_roundtrip_witness:
  "\<exists>db' s' t. cdma_u_alloc_db demo_sys 0x40 (zero_doorbell\<lparr>db_id := 7, db_type := CDMA_MMAP_JETTY_DSQE\<rparr>)
      demo_ctx_st = Some (0, db', s') \<and> cdma_u_free_db 0x40 db' s' = Some (db'\<lparr>db_addr := NULL\<rparr>, s'\<lparr>tr := t\<rparr>)
      \<and> live_of t = {#}"
proof -
  let ?db = "zero_doorbell\<lparr>db_id := 7, db_type := CDMA_MMAP_JETTY_DSQE\<rparr>"
  have ps: "ctx_page_size (ctxs demo_ctx_st 0x40) = 2 ^ 12" by (simp add: demo_ctx_st_def)
  have "map_option fst (cdma_u_alloc_db demo_sys 0x40 ?db demo_ctx_st) = Some 0" by code_simp
  then obtain db' s' where "cdma_u_alloc_db demo_sys 0x40 ?db demo_ctx_st = Some (0, db', s')" by auto
  moreover have "live demo_ctx_st = {#}" by (simp add: demo_ctx_st_def init_st_def live_def)
  ultimately show ?thesis using hw_db_roundtrip [OF demo_sys_ok ps] by metis
qed

end
