(* ===== verification/Cdma_Jfc.thy ===== *)
theory Cdma_Jfc
  imports Cdma_Cq Cdma_Db
begin

text \<open>
  Creating and deleting the completion objects (\<open>cdma_u_jfc.c\<close>, \<open>cdma_u_cmd.c\<close>): the completion
  event channel (JFCE) and the completion queue (JFC). An object is calloced, so its record starts
  zeroed; the errors leave as the code's \<open>goto\<close> chain does.
\<close>

unbundle bit_operations_syntax

definition ctx_dev :: "st \<Rightarrow> ptr \<Rightarrow> ptr" where
  "ctx_dev s ctx = dctx_dma_dev (ctx_dma_ctx (ctxs s ctx))"

definition ctx_fd :: "st \<Rightarrow> ptr \<Rightarrow> int" where
  "ctx_fd s ctx = dev_fd (devs s (ctx_dev s ctx))"

lemma ctx_fd_cong:
  assumes "devs s' = devs s" and "ctxs s' = ctxs s"
  shows "ctx_fd s' = ctx_fd s" and "ctx_dev s' = ctx_dev s"
  using assms by (simp_all add: fun_eq_iff ctx_fd_def ctx_dev_def)

section \<open>Event channels\<close>

definition cdma_cmd_create_jfce :: "env \<Rightarrow> ptr \<Rightarrow> ptr \<Rightarrow> st \<Rightarrow> int \<times> st" where
  "cdma_cmd_create_jfce E ctx jfce s =
     (if ctx = NULL \<or> ctx_dev s ctx = NULL \<or> ctx_fd s ctx < 0 then (- EINVAL, s)
      else (let ((ret, out), s1) = sys_ioctl E (ctx_fd s ctx) CDMA_CMD_CREATE_JFCE s in
            if ret \<noteq> 0 then (ret, s1)
            else (0, s1\<lparr>jfces := (jfces s1)(jfce :=
                   (jfces s1 jfce)\<lparr>jfce_fd := out_fd out, jfce_id := out_jfce_id out\<rparr>)\<rparr>)))"

definition cdma_u_create_jfce :: "env \<Rightarrow> ptr \<Rightarrow> st \<Rightarrow> ptr \<times> st" where
  "cdma_u_create_jfce E ctx s =
     (let (jfce, s1) = sys_alloc E ObjJfce s in
      if jfce = NULL then (NULL, s1)
      else (let s2 = s1\<lparr>jfces := (jfces s1)(jfce := zero_jfce\<lparr>jfce_dma_ctx := ctx\<rparr>)\<rparr>;
                (ret, s3) = cdma_cmd_create_jfce E ctx jfce s2
            in if ret \<noteq> 0 then (NULL, sys_free jfce s3) else (jfce, s3)))"

definition cdma_u_delete_jfce :: "ptr \<Rightarrow> st \<Rightarrow> dma_status \<times> st" where
  "cdma_u_delete_jfce jfce s =
     (if jfce = NULL \<or> jfce_fd (jfces s jfce) < 0 then (DMA_STATUS_INVAL, s)
      else (DMA_STATUS_OK, sys_free jfce (sys_close (jfce_fd (jfces s jfce)) s)))"

section \<open>Completion queues\<close>

text \<open>The configuration is a variable of the caller; its address is not NULL.\<close>

definition cdma_u_check_jfc_cfg :: "ptr \<Rightarrow> dma_jfc_cfg \<Rightarrow> st \<Rightarrow> int" where
  "cdma_u_check_jfc_cfg ctx cfg s =
     (if ctx = NULL \<or> ctx_dev s ctx = NULL \<or> jfc_cfg_jfce cfg = NULL then - EINVAL
      else (let cap = attr_dev_cap (dev_attr (devs s (ctx_dev s ctx))) in
            if jfc_cfg_depth cfg = 0 \<or> jfc_cfg_depth cfg > max_jfc_depth cap then - EINVAL
            else if jfc_cfg_ceqn cfg \<ge> ceq_cnt cap then - EINVAL
            else 0))"

definition set_cq :: "ptr \<Rightarrow> cdma_u_jetty_queue \<Rightarrow> st \<Rightarrow> st" where
  "set_cq jfc q s = s\<lparr>jfcs := (jfcs s)(jfc := (jfcs s jfc)\<lparr>jfc_cq := q\<rparr>)\<rparr>"

definition cdma_u_alloc_jfc_buf :: "env \<Rightarrow> ptr \<Rightarrow> dma_jfc_cfg \<Rightarrow> ptr \<Rightarrow> st \<Rightarrow> (int \<times> st) option" where
  "cdma_u_alloc_jfc_buf E ctx cfg jfc s = do {
     let depth = (if jfc_cfg_depth cfg < CDMA_U_MIN_JFC_DEPTH then CDMA_U_MIN_JFC_DEPTH else jfc_cfg_depth cfg);
     (ret, q, s1) \<leftarrow> cdma_u_alloc_queue_buf E (jfc_cq (jfcs s jfc)) depth (ucast (ctx_cqe_size (ctxs s ctx)))
                       CDMA_HW_PAGE_SIZE False s;
     let s2 = set_cq jfc q s1;
     if ret \<noteq> 0 then Some (ret, s2)
     else do {
       (db, s3) \<leftarrow> cdma_u_alloc_sw_db E ctx s2;
       let s4 = s3\<lparr>jfcs := (jfcs s3)(jfc := (jfcs s3 jfc)\<lparr>sw_db := db\<rparr>)\<rparr>;
       if db = NULL then
         (let (q', s5) = cdma_u_free_queue_buf (jfc_cq (jfcs s4 jfc)) s4 in Some (- ENOMEM, set_cq jfc q' s5))
       else Some (0, s4)
     }
   }"

definition cdma_u_free_jfc_buf :: "ptr \<Rightarrow> ptr \<Rightarrow> st \<Rightarrow> st option" where
  "cdma_u_free_jfc_buf ctx jfc s = do {
     s1 \<leftarrow> cdma_u_free_sw_db ctx (sw_db (jfcs s jfc)) s;
     let (q, s2) = cdma_u_free_queue_buf (jfc_cq (jfcs s1 jfc)) s1;
     Some (set_cq jfc q s2)
   }"

text \<open>The results of \<open>pthread_mutex_init\<close> and \<open>pthread_cond_init\<close> are not looked at.\<close>

definition cdma_ack_event_init :: "env \<Rightarrow> ptr \<Rightarrow> st \<Rightarrow> st" where
  "cdma_ack_event_init E jfc s =
     (let (_, s1) = sys_mutex_init E (jfc + 64)
            (s\<lparr>jfcs := (jfcs s)(jfc := (jfcs s jfc)\<lparr>async_events_acked := 0\<rparr>)\<rparr>)
      in snd (sys_cond_init E (jfc + 104) s1))"

definition cdma_fill_jfc :: "env \<Rightarrow> ptr \<Rightarrow> ptr \<Rightarrow> dma_jfc_cfg \<Rightarrow> kout \<Rightarrow> st \<Rightarrow> st" where
  "cdma_fill_jfc E jfc ctx cfg out s =
     cdma_ack_event_init E jfc (s\<lparr>jfcs := (jfcs s)(jfc := (jfcs s jfc)\<lparr>jfc_id := out_id out,
       jfc_handle := out_handle out, jfc_cfg := cfg\<lparr>jfc_cfg_depth := out_depth out\<rparr>, jfc_dma_ctx := ctx,
       comp_events_acked := 0\<rparr>)\<rparr>)"

definition cdma_cmd_create_jfc :: "env \<Rightarrow> ptr \<Rightarrow> ptr \<Rightarrow> dma_jfc_cfg \<Rightarrow> st \<Rightarrow> int \<times> st" where
  "cdma_cmd_create_jfc E ctx jfc cfg s =
     (if ctx_fd s ctx < 0 then (- EINVAL, s)
      else (let j = jfcs s jfc; e = jfces s (jfc_cfg_jfce cfg);
                ucmd = \<lparr>jfcu_buf_addr = qbuf (jfc_cq j), jfcu_buf_len = qbuf_size (jfc_cq j),
                  jfcu_db_addr = sw_db j, jfcu_tid = dctx_tid (ctx_dma_ctx (ctxs s ctx))\<rparr>;
                rin = \<lparr>jfci_depth = jfc_cfg_depth cfg, jfci_jfce_fd = jfce_fd e, jfci_jfce_id = jfce_id e,
                  jfci_ceqn = jfc_cfg_ceqn cfg, jfci_queue_id = jfc_cfg_queue_id cfg\<rparr>;
                ((ret, out), s1) = sys_ioctl E (ctx_fd s ctx) (CDMA_CMD_CREATE_JFC rin ucmd) s
            in if ret \<noteq> 0 then (ret, s1) else (0, cdma_fill_jfc E jfc ctx cfg out s1)))"

definition cdma_cmd_delete_jfc :: "env \<Rightarrow> ptr \<Rightarrow> st \<Rightarrow> int \<times> st" where
  "cdma_cmd_delete_jfc E jfc s =
     (let j = jfcs s jfc; fd = ctx_fd s (jfc_dma_ctx j) in
      if fd < 0 then (- EINVAL, s)
      else (let ((ret, _), s1) = sys_ioctl E fd
              (CDMA_CMD_DELETE_JFC (jfc_id j) (jfc_handle j) (jfc_cfg_queue_id (jfc_cfg j))) s
            in (ret, s1)))"

definition cdma_u_create_jfc :: "env \<Rightarrow> ptr \<Rightarrow> dma_jfc_cfg \<Rightarrow> st \<Rightarrow> (ptr \<times> st) option" where
  "cdma_u_create_jfc E ctx cfg s =
     (if cdma_u_check_jfc_cfg ctx cfg s \<noteq> 0 then Some (NULL, s)
      else (let (jfc, s1) = sys_alloc E ObjJfc s in
        if jfc = NULL then Some (NULL, s1)
        else (let (r, s2) = sys_spin_init E jfc (s1\<lparr>jfcs := (jfcs s1)(jfc := zero_jfc)\<rparr>) in
          if r \<noteq> 0 then Some (NULL, sys_free jfc s2)
          else do {
            (ret, s3) \<leftarrow> cdma_u_alloc_jfc_buf E ctx cfg jfc s2;
            if ret \<noteq> 0 then Some (NULL, sys_free jfc (emit (EvSpinDestroy jfc) s3))
            else (let (ret, s4) = cdma_cmd_create_jfc E ctx jfc cfg s3 in
              if ret \<noteq> 0 then do {
                s5 \<leftarrow> cdma_u_free_jfc_buf ctx jfc s4;
                Some (NULL, sys_free jfc (emit (EvSpinDestroy jfc) s5))
              }
              else (let j = jfcs s4 jfc in
                Some (jfc, s4\<lparr>jfcs := (jfcs s4)(jfc :=
                  j\<lparr>jfc_cq := (jfc_cq j)\<lparr>q_idx := jfc_id j\<rparr>, arm_sn := 1\<rparr>)\<rparr>)))
          })))"

definition cdma_u_delete_jfc :: "env \<Rightarrow> ptr \<Rightarrow> st \<Rightarrow> (dma_status \<times> st) option" where
  "cdma_u_delete_jfc E jfc s =
     (if jfc = NULL \<or> jfc_dma_ctx (jfcs s jfc) = NULL then Some (DMA_STATUS_INVAL, s)
      else do {
        let ctx = jfc_dma_ctx (jfcs s jfc);
        let (_, s1) = cdma_cmd_delete_jfc E jfc s;
        s2 \<leftarrow> cdma_u_free_jfc_buf ctx jfc s1;
        Some (DMA_STATUS_OK, sys_free jfc (emit (EvSpinDestroy jfc) s2))
      })"

section \<open>Event channels have a lifecycle\<close>

text \<open>The result of a creating call: an object or NULL.\<close>

definition outcome :: "ptr \<times> 's \<Rightarrow> ptr option \<Rightarrow> 's \<Rightarrow> bool" where
  "outcome r obj s' \<longleftrightarrow> snd r = s' \<and> obj = (if fst r = NULL then None else Some (fst r))"

lemma outcome_simps [simp]:
  "outcome r None s' \<longleftrightarrow> r = (NULL, s')"
  "outcome r (Some x) s' \<longleftrightarrow> r = (x, s') \<and> x \<noteq> NULL"
  by (cases r, auto simp: outcome_def)+

lemma outcomeE:
  assumes "outcome x r s'"
  obtains p where "x = (p, s')" "r = (if p = NULL then None else Some p)"
  using assms by (cases x) (simp add: outcome_def)

lemma sys_alloc_fresh:
  assumes "sys_ok E k" and "sys_alloc E ob s = (p, s')"
  shows "s' = emit (EvAlloc ob p) s \<and> (p \<noteq> NULL \<longrightarrow> RMem p \<notin># live s)"
  using assms by (auto simp: sys_ok_def sys_alloc_def Let_def live_def)

text \<open>Nothing but the event channels changed.\<close>

definition jfce_frame :: "st \<Rightarrow> st \<Rightarrow> bool" where
  "jfce_frame s s' \<longleftrightarrow> devs s' = devs s \<and> ctxs s' = ctxs s \<and> pages s' = pages s \<and> jfcs s' = jfcs s
     \<and> jfss s' = jfss s \<and> tps s' = tps s \<and> queues s' = queues s \<and> segs s' = segs s"

definition jfce_valid :: "st \<Rightarrow> ptr \<Rightarrow> bool" where
  "jfce_valid s x \<longleftrightarrow> x \<noteq> NULL \<and> 0 \<le> jfce_fd (jfces s x)"

definition jfce_res :: "st \<Rightarrow> ptr \<Rightarrow> resource multiset" where
  "jfce_res s x = {#RMem x, RFd (jfce_fd (jfces s x))#}"

lemma jfce_of_emit [simp]: "jfce_valid (emit e s) = jfce_valid s" "jfce_res (emit e s) = jfce_res s"
  "jfce_frame s (emit e s') = jfce_frame s s'" "ctx_fd (emit e s) = ctx_fd s" "ctx_dev (emit e s) = ctx_dev s"
  by (simp_all add: fun_eq_iff jfce_valid_def jfce_res_def jfce_frame_def ctx_fd_def ctx_dev_def)

lemma create_jfce_spec:
  assumes ok: "sys_ok E k" "jfce_ok E" and run: "cdma_u_create_jfce E ctx s = (p, s')"
  shows "jfce_frame s s' \<and> (\<forall>y. RMem y \<in># live s \<longrightarrow> jfces s' y = jfces s y)
     \<and> (if p = NULL then live s' = live s else RMem p \<notin># live s \<and> jfce_valid s' p \<and> live s' = live s + jfce_res s' p)"
proof -
  obtain q s1 where q: "sys_alloc E ObjJfce s = (q, s1)" by (cases "sys_alloc E ObjJfce s")
  note q' = sys_alloc_fresh [OF ok(1) q]
  have fd: "0 \<le> out_fd (snd (e_ioctl E t fd CDMA_CMD_CREATE_JFCE))"
    if "fst (e_ioctl E t fd CDMA_CMD_CREATE_JFCE) = 0" for t fd
    using ok(2) that by (simp add: jfce_ok_def)
  show ?thesis
    using run q q' fd
    by (auto simp: cdma_u_create_jfce_def cdma_cmd_create_jfce_def sys_ioctl_def sys_free_def Let_def split_beta
        jfce_valid_def jfce_res_def jfce_frame_def live_simps split: if_splits)
qed

lemma delete_jfce_spec:
  assumes "jfce_valid s x"
  shows "cdma_u_delete_jfce x s = (DMA_STATUS_OK, sys_free x (sys_close (jfce_fd (jfces s x)) s))"
    and "live (snd (cdma_u_delete_jfce x s)) = live s - jfce_res s x"
    and "jfce_frame s (snd (cdma_u_delete_jfce x s))" and "jfces (snd (cdma_u_delete_jfce x s)) = jfces s"
  using assms by (auto simp: cdma_u_delete_jfce_def jfce_valid_def jfce_res_def jfce_frame_def sys_free_def
      sys_close_def live_simps diff_diff_eq)

interpretation jfce: lifecycle "\<lambda>s. sys_ok E k \<and> jfce_ok E" live jfce_valid jfce_res
  "\<lambda>s. outcome (cdma_u_create_jfce E ctx s)" "\<lambda>s x s'. cdma_u_delete_jfce x s = (DMA_STATUS_OK, s')"
  for E k ctx
proof (unfold_locales, goal_cases)
  case (1 s x s')
  then show ?case using create_jfce_spec [of E k ctx s x s'] by simp
next
  case (2 s s')
  then show ?case using create_jfce_spec [of E k ctx s NULL s'] by simp
next
  case (3 s r s' y)
  obtain p where p: "cdma_u_create_jfce E ctx s = (p, s')" "r = (if p = NULL then None else Some p)"
    using 3(2) by (elim outcomeE)
  have y: "RMem y \<in># live s" using 3(4) by (auto simp: jfce_res_def dest: mset_subset_eqD)
  from create_jfce_spec [OF _ _ p(1)] 3(1)
  have "jfces s' y = jfces s y" "p \<noteq> NULL \<Longrightarrow> RMem p \<notin># live s" using y by (auto split: if_splits)
  then show ?case using 3(3) p(2) y by (auto simp: jfce_valid_def jfce_res_def)
next
  case (4 s x s')
  then show ?case using delete_jfce_spec [OF 4(2)] by simp
next
  case (5 s x y s')
  then show ?case using delete_jfce_spec [OF 5(2)] by (simp add: jfce_valid_def jfce_res_def)
qed

section \<open>Completion queues have a lifecycle\<close>

text \<open>
  The pages of software doorbells come and go with the doorbells; \<open>db_own\<close> is what is live besides
  them. An object owns its doorbell (\<open>Inr\<close>) beside its resources (\<open>Inl\<close>). The mutex \<open>event_mutex\<close> and
  the condition variable \<open>event_cond\<close> that \<open>cdma_ack_event_init\<close> initialises are destroyed by no operation:
  \<open>db_bal\<close> leaves them out, and \<open>syncs\<close> of the theory Cdma_Sync counts them.
\<close>

definition db_own :: "st \<Rightarrow> ptr list \<Rightarrow> resource multiset" where
  "db_own s as = live s - pages_res s as"

definition no_sync :: "resource \<Rightarrow> bool" where
  "no_sync r \<longleftrightarrow> (\<forall>p. r \<noteq> RMutex p \<and> r \<noteq> RCond p)"

definition db_bal :: "st \<times> ptr list \<Rightarrow> (resource + ptr) multiset" where
  "db_bal = (\<lambda>(s, as). image_mset Inl (filter_mset no_sync (db_own s as)) + image_mset Inr (mset_set (db_used s as)))"

lemma no_sync_simps [simp]:
  "no_sync (RMem p)" "no_sync (RSpin p)" "no_sync (RJfc fd i)" "no_sync (RMap p n)" "no_sync (RFd fd)"
  "no_sync (RCtp fd i)" "no_sync (RJfs fd i)" "no_sync (RQueue fd i)" "\<not> no_sync (RMutex p)" "\<not> no_sync (RCond p)"
  by (simp_all add: no_sync_def)

lemma db_inv_same:
  assumes "db_inv k s ctx as" and "ctxs s' = ctxs s" and "pages s' = pages s" and "pages_res s as \<subseteq># live s'"
  shows "db_inv k s' ctx as \<and> pages_res s' as = pages_res s as \<and> db_used s' as = db_used s as"
  using assms by (simp add: db_inv_def pages_res_def db_used_def)

lemma db_own_gain:
  assumes "db_inv k s ctx as" and "ctxs s' = ctxs s" and "pages s' = pages s" and "live s' = live s + r"
  shows "db_inv k s' ctx as \<and> db_own s' as = db_own s as + r \<and> db_used s' as = db_used s as"
proof -
  have sub: "pages_res s as \<subseteq># live s" using assms(1) by (simp add: db_inv_def)
  then have "pages_res s as \<subseteq># live s'" unfolding assms(4) by (simp add: subset_mset.add_increasing2)
  from db_inv_same [OF assms(1-3) this] show ?thesis using sub assms(4) by (simp add: db_own_def)
qed

lemma db_own_loss:
  assumes "db_inv k s ctx as" and "ctxs s' = ctxs s" and "pages s' = pages s" and "live s' = live s - r"
    and "r \<subseteq># db_own s as"
  shows "db_inv k s' ctx as \<and> db_own s as = db_own s' as + r \<and> db_used s' as = db_used s as"
proof -
  have sub: "pages_res s as \<subseteq># live s" using assms(1) by (simp add: db_inv_def)
  obtain R where R: "live s - pages_res s as = r + R"
    using assms(5) by (auto simp: db_own_def mset_subset_eq_exists_conv)
  then have l: "live s = pages_res s as + r + R" using sub by (metis subset_mset.add_diff_inverse union_assoc)
  then have "live s' = pages_res s as + R" using assms(4) by simp
  moreover from this have "pages_res s as \<subseteq># live s'" by simp
  ultimately show ?thesis using db_inv_same [OF assms(1-3)] R by (simp add: db_own_def add.commute)
qed

lemma db_own_pages:
  assumes "db_inv k s ctx as" and "db_inv k s' ctx as'" and "live s' + pages_res s as = live s + pages_res s' as'"
  shows "db_own s' as' = db_own s as"
proof -
  have "pages_res s as \<subseteq># live s" "pages_res s' as' \<subseteq># live s'" using assms(1,2) by (simp_all add: db_inv_def)
  then obtain A B where "live s = pages_res s as + A" "live s' = pages_res s' as' + B"
    by (auto simp: mset_subset_eq_exists_conv)
  then show ?thesis using assms(3) by (simp add: db_own_def ac_simps)
qed

lemma db_own_live: "r \<in># db_own s as \<Longrightarrow> r \<in># live s"
  unfolding db_own_def by (rule in_diffD)

lemma finite_db_used [simp]: "finite (db_used s as)"
  by (simp add: db_used_def page_used_def)

lemma db_used_nonnull:
  assumes "db_inv k s ctx as" and "6 \<le> k" "k \<le> 31" and "d \<in> db_used s as"
  shows "d \<noteq> NULL"
proof -
  obtain a where a: "a \<in> set as" "d \<in> page_used (pages s a)" using assms(4) by (auto simp: db_used_def)
  then have "page_base_wf k (pages s a)" using assms(1) by (auto simp: db_inv_def page_wf_def)
  from page_used_base [OF this assms(2,3) a(2)] this show ?thesis by (auto simp: page_base_wf_def)
qed

lemma queue_buf_res_idx [simp]: "queue_buf_res (q\<lparr>q_idx := i\<rparr>) = queue_buf_res q"
  by (simp add: queue_buf_res_def)

lemma alloc_queue_buf_frame:
  assumes "cdma_u_alloc_queue_buf E q n es ps en s = Some (r, q', s')"
  shows "\<exists>t. s' = s\<lparr>tr := t\<rparr>"
  using assms
  by (auto simp: cdma_u_alloc_queue_buf_def cdma_u_alloc_buf_def sys_defs emit_def bind_eq_Some_conv Let_def
      split: if_splits prod.splits)

lemma free_queue_buf_frame: "\<exists>t. snd (cdma_u_free_queue_buf q s) = s\<lparr>tr := t\<rparr>"
  by (rule exI [of _ "tr (snd (cdma_u_free_queue_buf q s))"])
    (simp add: cdma_u_free_queue_buf_def cdma_u_free_buf_def sys_defs emit_def Let_def)

definition jfc_frame :: "ptr \<Rightarrow> st \<Rightarrow> st \<Rightarrow> bool" where
  "jfc_frame ctx s s' \<longleftrightarrow> devs s' = devs s \<and> jfces s' = jfces s \<and> jfss s' = jfss s \<and> tps s' = tps s
     \<and> queues s' = queues s \<and> segs s' = segs s
     \<and> (\<forall>c. (ctxs s' c)\<lparr>ctx_page := NULL\<rparr> = (ctxs s c)\<lparr>ctx_page := NULL\<rparr> \<and> (c \<noteq> ctx \<longrightarrow> ctxs s' c = ctxs s c))"

lemma jfc_frame_refl [simp]: "jfc_frame ctx s s"
  by (simp add: jfc_frame_def)

lemma jfc_frame_trans: "jfc_frame ctx s s1 \<Longrightarrow> jfc_frame ctx s1 s2 \<Longrightarrow> jfc_frame ctx s s2"
  by (simp add: jfc_frame_def)

lemma jfc_frame_db: "db_frame ctx s s' \<Longrightarrow> jfc_frame ctx s s'"
  by (simp add: jfc_frame_def db_frame_def)

lemma jfc_frame_emit [simp]: "jfc_frame ctx s (emit e s') = jfc_frame ctx s s'"
  "jfc_frame ctx s (s'\<lparr>tr := t\<rparr>) = jfc_frame ctx s s'" "jfc_frame ctx s (s'\<lparr>jfcs := f\<rparr>) = jfc_frame ctx s s'"
  by (simp_all add: jfc_frame_def)

lemma ctx_page_upd_sel:
  assumes "c\<lparr>ctx_page := p\<rparr> = c'\<lparr>ctx_page := p\<rparr>"
  shows "ctx_dma_ctx c = ctx_dma_ctx c'" "ctx_page_size c = ctx_page_size c'" "ctx_db c = ctx_db c'"
    "ctx_cqe_size c = ctx_cqe_size c'" "ctx_async_fd c = ctx_async_fd c'"
  using arg_cong [OF assms, of ctx_dma_ctx] arg_cong [OF assms, of ctx_page_size] arg_cong [OF assms, of ctx_db]
    arg_cong [OF assms, of ctx_cqe_size] arg_cong [OF assms, of ctx_async_fd] by simp_all

lemma jfc_frame_ctx:
  assumes "jfc_frame ctx s s'"
  shows "ctx_fd s' c = ctx_fd s c" and "ctx_dev s' c = ctx_dev s c" and "ctx_page_size (ctxs s' c) = ctx_page_size (ctxs s c)"
    and "ctx_db (ctxs s' c) = ctx_db (ctxs s c)"
proof -
  have c: "(ctxs s' c)\<lparr>ctx_page := NULL\<rparr> = (ctxs s c)\<lparr>ctx_page := NULL\<rparr>" and d: "devs s' = devs s"
    using assms by (simp_all add: jfc_frame_def)
  show "ctx_fd s' c = ctx_fd s c" "ctx_dev s' c = ctx_dev s c" "ctx_page_size (ctxs s' c) = ctx_page_size (ctxs s c)"
    "ctx_db (ctxs s' c) = ctx_db (ctxs s c)"
    using ctx_page_upd_sel [OF c] d by (simp_all add: ctx_fd_def ctx_dev_def)
qed

definition jfc_own :: "ptr \<Rightarrow> st \<Rightarrow> ptr \<Rightarrow> resource multiset" where
  "jfc_own ctx s x = {#RMem x, RSpin x, RJfc (ctx_fd s ctx) (jfc_id (jfcs s x))#} + queue_buf_res (jfc_cq (jfcs s x))"

definition jfc_valid :: "ptr \<Rightarrow> st \<times> ptr list \<Rightarrow> ptr \<Rightarrow> bool" where
  "jfc_valid ctx = (\<lambda>(s, as) x. x \<noteq> NULL \<and> ctx \<noteq> NULL \<and> jfc_dma_ctx (jfcs s x) = ctx \<and> 0 \<le> ctx_fd s ctx
     \<and> sw_db (jfcs s x) \<in> db_used s as)"

definition jfc_res :: "ptr \<Rightarrow> st \<times> ptr list \<Rightarrow> ptr \<Rightarrow> (resource + ptr) multiset" where
  "jfc_res ctx = (\<lambda>(s, as) x. image_mset Inl (jfc_own ctx s x) + {#Inr (sw_db (jfcs s x))#})"

lemma queue_buf_res_no_sync [simp]: "filter_mset no_sync (queue_buf_res q) = queue_buf_res q"
  by (simp add: queue_buf_res_def)

lemma free_cq_spec:
  assumes inv: "db_inv k s ctx as" and sub: "queue_buf_res (jfc_cq (jfcs s x)) \<subseteq># db_own s as"
    and s': "s' = set_cq x (fst (cdma_u_free_queue_buf (jfc_cq (jfcs s x)) s)) (snd (cdma_u_free_queue_buf (jfc_cq (jfcs s x)) s))"
  shows "db_inv k s' ctx as \<and> db_own s as = db_own s' as + queue_buf_res (jfc_cq (jfcs s x)) \<and> db_used s' as = db_used s as
     \<and> jfc_frame ctx s s' \<and> (\<forall>y. y \<noteq> x \<longrightarrow> jfcs s' y = jfcs s y)"
proof -
  let ?f = "cdma_u_free_queue_buf (jfc_cq (jfcs s x)) s"
  obtain t where t: "snd ?f = s\<lparr>tr := t\<rparr>" using free_queue_buf_frame by blast
  have l: "live s' = live s - queue_buf_res (jfc_cq (jfcs s x))"
    using cdma_u_free_queue_buf_live [of "jfc_cq (jfcs s x)" s] unfolding s' t by (simp add: set_cq_def live_def)
  have c: "ctxs s' = ctxs s" "pages s' = pages s" unfolding s' t by (simp_all add: set_cq_def)
  show ?thesis using db_own_loss [OF inv c l sub] unfolding s' t by (simp add: set_cq_def)
qed

text \<open>The buffers of a new completion queue: the ring and the doorbell, or nothing.\<close>

lemma alloc_jfc_buf_spec:
  assumes ok: "sys_ok E k" and inv: "db_inv k s ctx as" and w: "q_wrid (jfc_cq (jfcs s jfc)) = NULL"
    and run: "cdma_u_alloc_jfc_buf E ctx cfg jfc s = Some (ret, s')"
  shows "\<exists>as'. db_inv k s' ctx as' \<and> jfc_frame ctx s s' \<and> (\<forall>y. y \<noteq> jfc \<longrightarrow> jfcs s' y = jfcs s y)
     \<and> (if ret = 0 then db_own s' as' = db_own s as + queue_buf_res (jfc_cq (jfcs s' jfc))
          \<and> sw_db (jfcs s' jfc) \<notin> db_used s as \<and> db_used s' as' = insert (sw_db (jfcs s' jfc)) (db_used s as)
        else db_own s' as' = db_own s as \<and> db_used s' as' = db_used s as)"
proof -
  let ?depth = "if jfc_cfg_depth cfg < CDMA_U_MIN_JFC_DEPTH then CDMA_U_MIN_JFC_DEPTH else jfc_cfg_depth cfg"
  have mm: "mmap_ok E" using ok by (simp add: sys_ok_def)
  obtain r q s1 where b: "cdma_u_alloc_queue_buf E (jfc_cq (jfcs s jfc)) ?depth (ucast (ctx_cqe_size (ctxs s ctx)))
       CDMA_HW_PAGE_SIZE False s = Some (r, q, s1)"
    using run by (auto simp: cdma_u_alloc_jfc_buf_def Let_def bind_eq_Some_conv)
  note bl = cdma_u_alloc_queue_buf_live [OF b mm w]
  obtain t where t: "s1 = s\<lparr>tr := t\<rparr>" using alloc_queue_buf_frame [OF b] by blast
  let ?s2 = "set_cq jfc q s1"
  have s2: "ctxs ?s2 = ctxs s" "pages ?s2 = pages s" "live ?s2 = live s1" "jfc_frame ctx s ?s2"
    by (simp_all add: set_cq_def t live_simps)
  show ?thesis
  proof (cases "r = 0")
    case False
    then have "ret = r" "s' = ?s2" using run b by (auto simp: cdma_u_alloc_jfc_buf_def Let_def)
    moreover have "live ?s2 = live s + {#}" using bl False s2(3) by simp
    from db_own_gain [OF inv s2(1,2) this] have "db_inv k ?s2 ctx as" "db_own ?s2 as = db_own s as"
      "db_used ?s2 as = db_used s as" by simp_all
    ultimately show ?thesis using s2(4) False by (intro exI [of _ as]) (simp add: set_cq_def t)
  next
    case True
    have l2: "live ?s2 = live s + queue_buf_res q" using bl True s2(3) by simp
    note g = db_own_gain [OF inv s2(1,2) l2]
    have inv2: "db_inv k ?s2 ctx as" using g by blast
    from cdma_u_alloc_sw_db_spec [OF ok inv2] obtain db s3 as3
      where a: "cdma_u_alloc_sw_db E ctx ?s2 = Some (db, s3)" "db_inv k s3 ctx as3"
        "live s3 + pages_res ?s2 as = live ?s2 + pages_res s3 as3" "db_frame ctx ?s2 s3"
        "if db = NULL then as3 = as \<and> pages s3 = pages ?s2 \<and> live s3 = live ?s2
         else db \<notin> db_used ?s2 as \<and> db_used s3 as3 = insert db (db_used ?s2 as)"
      by blast
    have own3: "db_own s3 as3 = db_own s as + queue_buf_res q"
      using db_own_pages [OF inv2 a(2,3)] g by simp
    let ?s4 = "s3\<lparr>jfcs := (jfcs s3)(jfc := (jfcs s3 jfc)\<lparr>sw_db := db\<rparr>)\<rparr>"
    have j3: "jfcs s3 = jfcs ?s2" using a(4) by (simp add: db_frame_def)
    have f4: "jfc_frame ctx s ?s4" using jfc_frame_trans [OF s2(4) jfc_frame_db [OF a(4)]] by simp
    have l4: "live ?s4 = live s3 + {#}" by (simp add: live_simps)
    note g4 = db_own_gain [OF a(2) _ _ l4, simplified]
    have q4: "jfc_cq (jfcs ?s4 jfc) = q" by (simp add: j3 set_cq_def t)
    show ?thesis
    proof (cases "db = NULL")
      case nn: False
      then have "ret = 0" "s' = ?s4" using run b True a(1) by (auto simp: cdma_u_alloc_jfc_buf_def Let_def)
      then show ?thesis using g4 own3 f4 g a(5) nn q4
        by (intro exI [of _ as3]) (auto simp: j3 set_cq_def t)
    next
      case n: True
      let ?f = "cdma_u_free_queue_buf q ?s4"
      have e: "ret = - ENOMEM" "s' = set_cq jfc (fst ?f) (snd ?f)"
        using run b True a(1) n q4 by (auto simp: cdma_u_alloc_jfc_buf_def Let_def split_beta)
      have i4: "db_inv k ?s4 ctx as3" and sub: "queue_buf_res (jfc_cq (jfcs ?s4 jfc)) \<subseteq># db_own ?s4 as3"
        using g4 own3 unfolding q4 by simp_all
      note f = free_cq_spec [OF i4 sub, unfolded q4, OF e(2)]
      have u: "db_used ?s4 as3 = db_used s as" "db_own ?s4 as3 = db_own s as + queue_buf_res q" using a(5) n g g4 own3 by (simp_all add: db_used_def)
      have "db_own s' as3 = db_own s as" using f u(2) by (metis add_right_cancel)
      moreover have "jfc_frame ctx s s'" using jfc_frame_trans [OF f4] f by blast
      moreover have "\<forall>y. y \<noteq> jfc \<longrightarrow> jfcs s' y = jfcs s y" using f by (simp add: j3 set_cq_def t)
      ultimately show ?thesis using f u(1) e(1) by (intro exI [of _ as3]) simp
    qed
  qed
qed

lemma free_jfc_buf_spec:
  assumes ok: "sys_ok E k" and inv: "db_inv k s ctx as" and sub: "queue_buf_res (jfc_cq (jfcs s x)) \<subseteq># db_own s as"
    and d: "sw_db (jfcs s x) \<in> db_used s as"
  shows "\<exists>s' as'. cdma_u_free_jfc_buf ctx x s = Some s' \<and> db_inv k s' ctx as' \<and> jfc_frame ctx s s'
     \<and> (\<forall>y. y \<noteq> x \<longrightarrow> jfcs s' y = jfcs s y) \<and> db_own s as = db_own s' as' + queue_buf_res (jfc_cq (jfcs s x))
     \<and> db_used s' as' = db_used s as - {sw_db (jfcs s x)}"
proof -
  have k: "6 \<le> k" "k \<le> 31" using sys_ok_page [OF ok] by simp_all
  from cdma_u_free_sw_db_spec [OF k inv d] obtain s1 as1 where s1: "cdma_u_free_sw_db ctx (sw_db (jfcs s x)) s = Some s1"
    "db_inv k s1 ctx as1" "db_used s1 as1 = db_used s as - {sw_db (jfcs s x)}"
    "live s1 + pages_res s as = live s + pages_res s1 as1" "db_frame ctx s s1" by blast
  have j1: "jfcs s1 = jfcs s" using s1(5) by (simp add: db_frame_def)
  have own1: "db_own s1 as1 = db_own s as" by (rule db_own_pages [OF inv s1(2,4)])
  define s2 where "s2 = set_cq x (fst (cdma_u_free_queue_buf (jfc_cq (jfcs s1 x)) s1)) (snd (cdma_u_free_queue_buf (jfc_cq (jfcs s1 x)) s1))"
  have "queue_buf_res (jfc_cq (jfcs s1 x)) \<subseteq># db_own s1 as1" using sub by (simp add: own1 j1)
  note f = free_cq_spec [OF s1(2) this s2_def]
  have "cdma_u_free_jfc_buf ctx x s = Some s2" using s1(1) by (simp add: cdma_u_free_jfc_buf_def s2_def split_beta Let_def)
  then show ?thesis using f s1(3) own1 j1 jfc_frame_trans [OF jfc_frame_db [OF s1(5)]]
    by (intro exI [of _ s2] exI [of _ as1]) simp
qed

lemma sys_ioctl_emit:
  assumes "sys_ioctl E fd rq s = ((r, out), s')"
  shows "s' = emit (EvIoctl fd rq r out) s"
  using assms by (auto simp: sys_ioctl_def split_beta)

lemma cmd_create_jfc_spec:
  assumes "cdma_cmd_create_jfc E ctx x cfg s = (0, s')"
  shows "\<exists>(out :: kout) M. filter_mset no_sync M = {#} \<and> 0 \<le> ctx_fd s ctx \<and> ctxs s' = ctxs s \<and> pages s' = pages s \<and> (\<forall>t. jfc_frame ctx t s' = jfc_frame ctx t s)
     \<and> live s' = live s + ({#RJfc (ctx_fd s ctx) (out_id out)#} + M)
     \<and> jfcs s' = (jfcs s)(x := (jfcs s x)\<lparr>jfc_id := out_id out, jfc_handle := out_handle out,
          jfc_cfg := cfg\<lparr>jfc_cfg_depth := out_depth out\<rparr>, jfc_dma_ctx := ctx, comp_events_acked := 0,
          async_events_acked := 0\<rparr>)"
proof -
  have fd: "0 \<le> ctx_fd s ctx" using assms by (auto simp: cdma_cmd_create_jfc_def split: if_splits)
  have "\<exists>rin ucmd. let x1 = sys_ioctl E (ctx_fd s ctx) (CDMA_CMD_CREATE_JFC rin ucmd) s in
      fst (fst x1) = 0 \<and> s' = cdma_fill_jfc E x ctx cfg (snd (fst x1)) (snd x1)"
    using assms fd unfolding cdma_cmd_create_jfc_def Let_def split_beta by (auto split: if_splits)
  then obtain rin ucmd out s1 where io: "sys_ioctl E (ctx_fd s ctx) (CDMA_CMD_CREATE_JFC rin ucmd) s = ((0, out), s1)"
    and s': "s' = cdma_fill_jfc E x ctx cfg out s1"
    unfolding Let_def by (metis prod.collapse)
  note e = sys_ioctl_emit [OF io]
  obtain r r2 where "s' = emit (EvCondInit (x + 104) r2) (emit (EvMutexInit (x + 64) r) (s1\<lparr>jfcs := (jfcs s1)(x := (jfcs s1 x)\<lparr>jfc_id := out_id out, jfc_handle := out_handle out,
          jfc_cfg := cfg\<lparr>jfc_cfg_depth := out_depth out\<rparr>, jfc_dma_ctx := ctx, comp_events_acked := 0,
          async_events_acked := 0\<rparr>)\<rparr>))"
    unfolding s' by (simp add: cdma_fill_jfc_def cdma_ack_event_init_def sys_mutex_init_def sys_cond_init_def Let_def)
  then show ?thesis using fd e
    by (intro exI [of _ out] exI [of _ "(if r = 0 then {#RMutex (x + 64)#} else {#}) + (if r2 = 0 then {#RCond (x + 104)#} else {#})"])
      (simp add: live_simps)
qed

lemma create_jfc_spec:
  assumes ok: "sys_ok E k" and inv: "db_inv k s ctx as" and run: "cdma_u_create_jfc E ctx cfg s = Some (p, s')"
  shows "\<exists>as'. db_inv k s' ctx as' \<and> jfc_frame ctx s s' \<and> (\<forall>y. RMem y \<in># live s \<longrightarrow> jfcs s' y = jfcs s y)
     \<and> (if p = NULL then db_own s' as' = db_own s as \<and> db_used s' as' = db_used s as
        else RMem p \<notin># live s \<and> jfc_valid ctx (s', as') p
          \<and> filter_mset no_sync (db_own s' as') = filter_mset no_sync (db_own s as) + jfc_own ctx s' p
          \<and> sw_db (jfcs s' p) \<notin> db_used s as \<and> db_used s' as' = insert (sw_db (jfcs s' p)) (db_used s as))"
proof (cases "cdma_u_check_jfc_cfg ctx cfg s \<noteq> 0")
  case True
  then have "p = NULL \<and> s' = s" using run by (simp add: cdma_u_create_jfc_def)
  then show ?thesis using inv by (intro exI [of _ as]) simp
next
  case chk: False
  then have ctx: "ctx \<noteq> NULL" by (auto simp: cdma_u_check_jfc_cfg_def)
  obtain x s1 where x: "sys_alloc E ObjJfc s = (x, s1)" by (cases "sys_alloc E ObjJfc s")
  note x' = sys_alloc_fresh [OF ok x]
  show ?thesis
  proof (cases "x = NULL")
    case True
    then have "p = NULL \<and> s' = s1" using run chk x by (simp add: cdma_u_create_jfc_def)
    then show ?thesis using inv x' True by (intro exI [of _ as]) (simp add: db_own_def live_simps)
  next
    case x0: False
    let ?z = "s1\<lparr>jfcs := (jfcs s1)(x := zero_jfc)\<rparr>"
    obtain r s2 where sp: "sys_spin_init E x ?z = (r, s2)" by (cases "sys_spin_init E x ?z")
    have s2: "ctxs s2 = ctxs s" "pages s2 = pages s" "jfcs s2 = (jfcs s)(x := zero_jfc)"
      "live s2 = live s + ({#RMem x#} + (if r = 0 then {#RSpin x#} else {#}))" "jfc_frame ctx s s2"
      using sp x' x0 by (auto simp: sys_spin_init_def Let_def live_simps jfc_frame_def)
    note g2 = db_own_gain [OF inv s2(1,2,4)]
    have fresh: "RMem y \<in># live s \<Longrightarrow> y \<noteq> x" for y using x' x0 by auto
    have leave: "\<exists>as'. db_inv k (sys_free x t) ctx as' \<and> jfc_frame ctx s (sys_free x t)
       \<and> (\<forall>y. RMem y \<in># live s \<longrightarrow> jfcs (sys_free x t) y = jfcs s y)
       \<and> db_own (sys_free x t) as' = db_own s as \<and> db_used (sys_free x t) as' = db_used s as"
      if "db_inv k t ctx bs" "jfc_frame ctx s t" "\<forall>y. y \<noteq> x \<longrightarrow> jfcs t y = jfcs s y"
        "db_own t bs = db_own s as + {#RMem x#}" "db_used t bs = db_used s as" for t bs
    proof -
      have l: "live (sys_free x t) = live t - {#RMem x#}" "ctxs (sys_free x t) = ctxs t" "pages (sys_free x t) = pages t"
        using x0 by (simp_all add: sys_free_def live_simps)
      have "{#RMem x#} \<subseteq># db_own t bs" using that(4) by simp
      from db_own_loss [OF that(1) l(2,3,1) this] have "db_inv k (sys_free x t) ctx bs"
        "db_own t bs = db_own (sys_free x t) bs + {#RMem x#}" "db_used (sys_free x t) bs = db_used t bs" by blast+
      then show ?thesis using that fresh
        by (intro exI [of _ bs]) (simp add: sys_free_def)
    qed
    show ?thesis
    proof (cases "r = 0")
      case False
      then have "p = NULL \<and> s' = sys_free x s2" using run chk x x0 sp by (simp add: cdma_u_create_jfc_def)
      then show ?thesis using leave [of s2 as] g2 s2 False by simp
    next
      case r0: True
      obtain ret s3 where b: "cdma_u_alloc_jfc_buf E ctx cfg x s2 = Some (ret, s3)"
        using run chk x x0 sp r0 by (auto simp: cdma_u_create_jfc_def bind_eq_Some_conv)
      have inv2: "db_inv k s2 ctx as" using g2 by blast
      have w2: "q_wrid (jfc_cq (jfcs s2 x)) = NULL" by (simp add: s2(3) zero_jfc_def zero_jetty_queue_def)
      from alloc_jfc_buf_spec [OF ok inv2 w2 b] obtain as3 where as3: "db_inv k s3 ctx as3" "jfc_frame ctx s2 s3"
        "\<forall>y. y \<noteq> x \<longrightarrow> jfcs s3 y = jfcs s2 y"
        "if ret = 0 then db_own s3 as3 = db_own s2 as + queue_buf_res (jfc_cq (jfcs s3 x))
           \<and> sw_db (jfcs s3 x) \<notin> db_used s2 as \<and> db_used s3 as3 = insert (sw_db (jfcs s3 x)) (db_used s2 as)
         else db_own s3 as3 = db_own s2 as \<and> db_used s3 as3 = db_used s2 as" by blast
      have f3: "jfc_frame ctx s s3" by (rule jfc_frame_trans [OF s2(5) as3(2)])
      have unlock: "db_inv k (emit (EvSpinDestroy x) t) ctx bs \<and> db_own (emit (EvSpinDestroy x) t) bs = db_own s as + {#RMem x#}
           \<and> db_used (emit (EvSpinDestroy x) t) bs = db_used t bs"
        if "db_inv k t ctx bs" "db_own t bs = db_own s as + {#RMem x#} + {#RSpin x#}" for t bs
      proof -
        have "live (emit (EvSpinDestroy x) t) = live t - {#RSpin x#}" by (simp add: live_simps)
        moreover have "{#RSpin x#} \<subseteq># db_own t bs" using that(2) by simp
        ultimately show ?thesis using db_own_loss [OF that(1), of "emit (EvSpinDestroy x) t" "{#RSpin x#}"] that(2) by simp
      qed
      show ?thesis
      proof (cases "ret = 0")
        case False
        then have e: "p = NULL" "s' = sys_free x (emit (EvSpinDestroy x) s3)"
          using run chk x x0 sp r0 b by (auto simp: cdma_u_create_jfc_def)
        have "db_own s3 as3 = db_own s as + {#RMem x#} + {#RSpin x#}" "db_used s3 as3 = db_used s as"
          using as3(4) False g2 r0 by simp_all
        with unlock [OF as3(1)] leave [of "emit (EvSpinDestroy x) s3" as3] f3 as3(3) s2(3) show ?thesis by (simp add: e)
      next
        case ret0: True
        obtain rc s4 where c: "cdma_cmd_create_jfc E ctx x cfg s3 = (rc, s4)" by (cases "cdma_cmd_create_jfc E ctx x cfg s3")
        let ?Q = "queue_buf_res (jfc_cq (jfcs s3 x))" let ?d = "sw_db (jfcs s3 x)"
        have own3: "db_own s3 as3 = db_own s as + {#RMem x#} + {#RSpin x#} + ?Q"
          and d: "?d \<notin> db_used s as" "db_used s3 as3 = insert ?d (db_used s as)"
          using as3(4) ret0 g2 r0 by simp_all
        show ?thesis
        proof (cases "rc = 0")
          case False
          have s4: "ctxs s4 = ctxs s3" "pages s4 = pages s3" "live s4 = live s3 + {#}" "jfcs s4 = jfcs s3" "jfc_frame ctx s s4"
            using c False f3 by (auto simp: cdma_cmd_create_jfc_def sys_ioctl_def Let_def split_beta live_simps split: if_splits)
          note g4 = db_own_gain [OF as3(1) s4(1-3)]
          obtain s5 where fb: "cdma_u_free_jfc_buf ctx x s4 = Some s5"
            and e: "p = NULL" "s' = sys_free x (emit (EvSpinDestroy x) s5)"
            using run chk x x0 sp r0 b ret0 c False by (auto simp: cdma_u_create_jfc_def bind_eq_Some_conv)
          from free_jfc_buf_spec [OF ok, of s4 ctx as3 x] fb g4 own3 d s4(4) obtain as5 where
            as5: "db_inv k s5 ctx as5" "jfc_frame ctx s4 s5" "\<forall>y. y \<noteq> x \<longrightarrow> jfcs s5 y = jfcs s4 y"
              "db_own s4 as3 = db_own s5 as5 + ?Q" "db_used s5 as5 = db_used s4 as3 - {?d}" by auto
          have "db_own s5 as5 + ?Q = (db_own s as + {#RMem x#} + {#RSpin x#}) + ?Q"
            using as5(4) g4 own3 by (metis add.right_neutral)
          then have "db_own s5 as5 = db_own s as + {#RMem x#} + {#RSpin x#}" by (simp only: add_right_cancel)
          moreover have "db_used s5 as5 = db_used s as" using as5(5) g4 d by auto
          ultimately show ?thesis
            using unlock [OF as5(1)] leave [of "emit (EvSpinDestroy x) s5" as5] jfc_frame_trans [OF s4(5) as5(2)]
              as5(3) as3(3) s2(3) s4(4) by (simp add: e)
        next
          case rc0: True
          let ?fd = "ctx_fd s3 ctx"
          obtain out :: kout and M where M: "filter_mset no_sync M = {#}" and s4: "ctxs s4 = ctxs s3" "pages s4 = pages s3" "0 \<le> ?fd" "jfc_frame ctx s s4"
              "live s4 = live s3 + ({#RJfc ?fd (out_id out)#} + M)"
              "jfcs s4 = (jfcs s3)(x := (jfcs s3 x)\<lparr>jfc_id := out_id out, jfc_handle := out_handle out,
                 jfc_cfg := cfg\<lparr>jfc_cfg_depth := out_depth out\<rparr>, jfc_dma_ctx := ctx, comp_events_acked := 0,
                 async_events_acked := 0\<rparr>)"
            using cmd_create_jfc_spec [OF c [unfolded rc0]] f3 by blast
          note g4 = db_own_gain [OF as3(1) s4(1,2,5)]
          let ?s5 = "s4\<lparr>jfcs := (jfcs s4)(x := (jfcs s4 x)\<lparr>jfc_cq := (jfc_cq (jfcs s4 x))\<lparr>q_idx := jfc_id (jfcs s4 x)\<rparr>, arm_sn := 1\<rparr>)\<rparr>"
          have e: "p = x" "s' = ?s5"
            using run chk x x0 sp r0 b ret0 c rc0 by (auto simp: cdma_u_create_jfc_def Let_def)
          have l5: "live ?s5 = live s4 + {#}" by (simp add: live_simps)
          note g5 = db_own_gain [OF _ _ _ l5, of k ctx as3, simplified]
          have fd: "ctx_fd ?s5 ctx = ?fd" "ctx_fd s3 ctx = ctx_fd s ctx"
            using s4(1) jfc_frame_ctx(1) [OF f3] jfc_frame_ctx(1) [OF s4(4)] by (simp_all add: ctx_fd_def ctx_dev_def)
          have own: "db_own ?s5 as3 = db_own s as + {#RMem x#} + {#RSpin x#} + ?Q
              + ({#RJfc ?fd (out_id out)#} + M)"
            using g5 g4 own3 by simp
          have jo: "jfc_own ctx ?s5 x = {#RMem x#} + {#RSpin x#} + ?Q + {#RJfc ?fd (out_id out)#}"
            using fd(1) s4(6) by (simp add: jfc_own_def)
          have "filter_mset no_sync (db_own ?s5 as3) = filter_mset no_sync (db_own s as) + jfc_own ctx ?s5 x"
            unfolding own jo using M by simp
          moreover have "jfc_valid ctx (?s5, as3) x" using x0 ctx s4(3,6) fd(1) g5 g4 d by (simp add: jfc_valid_def)
          moreover have "jfcs ?s5 y = jfcs s y" if "RMem y \<in># live s" for y
            using fresh [OF that] s4(6) as3(3) s2(3) by simp
          moreover have "sw_db (jfcs ?s5 x) = ?d" using s4(6) by simp
          ultimately show ?thesis using e x0 x' g5 g4 d s4(4) by (intro exI [of _ as3]) simp
        qed
      qed
    qed
  qed
qed

lemma delete_jfc_spec:
  assumes ok: "sys_ok E k" and inv: "db_inv k s ctx as" and v: "jfc_valid ctx (s, as) x"
    and sub: "jfc_own ctx s x \<subseteq># db_own s as"
  shows "\<exists>s' as'. cdma_u_delete_jfc E x s = Some (DMA_STATUS_OK, s') \<and> db_inv k s' ctx as' \<and> jfc_frame ctx s s'
     \<and> (\<forall>y. y \<noteq> x \<longrightarrow> jfcs s' y = jfcs s y) \<and> db_own s as = db_own s' as' + jfc_own ctx s x
     \<and> db_used s' as' = db_used s as - {sw_db (jfcs s x)}"
proof -
  let ?j = "jfcs s x" let ?Q = "queue_buf_res (jfc_cq (jfcs s x))"
  have v': "x \<noteq> NULL" "ctx \<noteq> NULL" "jfc_dma_ctx ?j = ctx" "0 \<le> ctx_fd s ctx" "sw_db ?j \<in> db_used s as"
    using v by (simp_all add: jfc_valid_def)
  obtain rc s1 where c: "cdma_cmd_delete_jfc E x s = (rc, s1)" by (cases "cdma_cmd_delete_jfc E x s")
  have s1: "ctxs s1 = ctxs s" "pages s1 = pages s" "live s1 = live s - {#RJfc (ctx_fd s ctx) (jfc_id ?j)#}" "jfcs s1 = jfcs s"
      "jfc_frame ctx s s1"
    using c v' by (auto simp: cdma_cmd_delete_jfc_def sys_ioctl_def Let_def split_beta live_simps)
  have "{#RJfc (ctx_fd s ctx) (jfc_id ?j)#} \<subseteq># jfc_own ctx s x" by (simp add: jfc_own_def)
  then have "{#RJfc (ctx_fd s ctx) (jfc_id ?j)#} \<subseteq># db_own s as" using sub by (rule subset_mset.order_trans)
  note g1 = db_own_loss [OF inv s1(1-3) this]
  obtain R where R: "db_own s as = jfc_own ctx s x + R" using sub by (auto simp: mset_subset_eq_exists_conv)
  have own1: "db_own s1 as = {#RMem x#} + {#RSpin x#} + ?Q + R"
  proof -
    have "db_own s1 as + {#RJfc (ctx_fd s ctx) (jfc_id ?j)#}
        = ({#RMem x#} + {#RSpin x#} + ?Q + R) + {#RJfc (ctx_fd s ctx) (jfc_id ?j)#}"
      using g1 R by (simp add: jfc_own_def ac_simps)
    then show ?thesis by (simp only: add_right_cancel)
  qed
  have i1: "db_inv k s1 ctx as" and q1: "queue_buf_res (jfc_cq (jfcs s1 x)) \<subseteq># db_own s1 as"
    and d1: "sw_db (jfcs s1 x) \<in> db_used s1 as"
    using g1 own1 s1(4) v'(5) by simp_all
  from free_jfc_buf_spec [OF ok i1 q1 d1] s1(4) obtain s2 as2 where s2: "cdma_u_free_jfc_buf ctx x s1 = Some s2"
    "db_inv k s2 ctx as2" "jfc_frame ctx s1 s2" "\<forall>y. y \<noteq> x \<longrightarrow> jfcs s2 y = jfcs s1 y"
    "db_own s1 as = db_own s2 as2 + ?Q" "db_used s2 as2 = db_used s1 as - {sw_db ?j}" by metis
  have own2: "db_own s2 as2 = {#RMem x#} + {#RSpin x#} + R"
  proof -
    have "db_own s2 as2 + ?Q = ({#RMem x#} + {#RSpin x#} + R) + ?Q" using s2(5) own1 by (simp add: ac_simps)
    then show ?thesis by (simp only: add_right_cancel)
  qed
  let ?s3 = "sys_free x (emit (EvSpinDestroy x) s2)"
  have l3: "live ?s3 = live s2 - ({#RSpin x#} + {#RMem x#})" "ctxs ?s3 = ctxs s2" "pages ?s3 = pages s2"
    using v'(1) by (simp_all add: sys_free_def live_simps)
  have "{#RSpin x#} + {#RMem x#} \<subseteq># db_own s2 as2" using own2 by (simp add: add_mset_commute)
  note g3 = db_own_loss [OF s2(2) l3(2,3,1) this]
  have "db_own ?s3 as2 + ({#RSpin x#} + {#RMem x#}) = R + ({#RSpin x#} + {#RMem x#})" using g3 own2 by (simp add: ac_simps)
  then have "db_own ?s3 as2 = R" by (simp only: add_right_cancel)
  moreover have "cdma_u_delete_jfc E x s = Some (DMA_STATUS_OK, ?s3)"
    using v' c s2(1) by (simp add: cdma_u_delete_jfc_def Let_def)
  ultimately show ?thesis using g3 R s2(4,6) s1(4) g1 jfc_frame_trans [OF s1(5) s2(3)]
    by (intro exI [of _ ?s3] exI [of _ as2]) (simp add: sys_free_def ac_simps)
qed

lemma db_bal_mset:
  assumes "filter_mset no_sync (db_own s' as') = filter_mset no_sync (db_own s as) + r"
    and "d \<notin> db_used s as" and "db_used s' as' = insert d (db_used s as)"
  shows "db_bal (s', as') = db_bal (s, as) + (image_mset Inl r + {#Inr d#})"
  using assms by (simp add: db_bal_def)

lemma count_sum_mset [simp]:
  "count (image_mset Inl M) (Inl x) = count M x" "count (image_mset Inr N) (Inr y) = count N y"
  "count (image_mset Inl M) (Inr y) = 0" "count (image_mset Inr N) (Inl x) = 0"
  by (induction M, simp_all) (induction N, simp_all)+

lemma db_bal_subset:
  assumes "image_mset Inl r + image_mset Inr (mset ds) \<subseteq># db_bal (s, as)"
  shows "r \<subseteq># db_own s as \<and> distinct ds \<and> set ds \<subseteq> db_used s as"
proof (intro conjI)
  show "r \<subseteq># db_own s as"
  proof (rule mset_subset_eqI)
    fix x
    have "count (image_mset Inl r + image_mset Inr (mset ds)) (Inl x) \<le> count (db_bal (s, as)) (Inl x)"
      using assms by (rule mset_subset_eq_count)
    then show "count r x \<le> count (db_own s as) x" by (simp add: db_bal_def split: if_splits)
  qed
  have c: "count (mset ds) d \<le> count (mset_set (db_used s as)) d" for d
    using mset_subset_eq_count [OF assms, of "Inr d"] by (simp add: db_bal_def)
  have le: "count (mset_set (db_used s as)) d \<le> 1" for d by (simp add: count_mset_set')
  have one: "count (mset ds) d \<le> 1" for d using c le by (rule order_trans)
  show "distinct ds"
  proof (subst distinct_count_atmost_1, intro allI)
    fix d
    show "count (mset ds) d = (if d \<in> set ds then 1 else 0)"
      using one [of d] count_greater_zero_iff [of "mset ds" d] by (cases "d \<in> set ds") (auto simp del: count_greater_zero_iff)
  qed
  show "set ds \<subseteq> db_used s as"
  proof
    fix d assume "d \<in> set ds"
    then have "0 < count (mset ds) d" by simp
    then have "0 < count (mset_set (db_used s as)) d" using c [of d] by (rule less_le_trans)
    then show "d \<in> db_used s as" by (simp add: count_mset_set' split: if_splits)
  qed
qed

lemma jfc_res_subset:
  assumes "jfc_res ctx (s, as) x \<subseteq># db_bal (s, as)"
  shows "jfc_own ctx s x \<subseteq># db_own s as" and "RMem x \<in># live s"
proof -
  have "image_mset Inl (jfc_own ctx s x) + image_mset Inr (mset [sw_db (jfcs s x)]) \<subseteq># db_bal (s, as)"
    using assms by (simp add: jfc_res_def)
  from db_bal_subset [OF this] show sub: "jfc_own ctx s x \<subseteq># db_own s as" by blast
  have "RMem x \<in># jfc_own ctx s x" by (simp add: jfc_own_def)
  then have "RMem x \<in># db_own s as" by (rule mset_subset_eqD [OF sub])
  then show "RMem x \<in># live s" by (rule db_own_live)
qed

lemma jfc_kept:
  assumes "jfc_valid ctx (s, as) y" and "jfcs s' y = jfcs s y" and "jfc_frame ctx s s'"
    and "sw_db (jfcs s y) \<in> db_used s' as'"
  shows "jfc_valid ctx (s', as') y \<and> jfc_res ctx (s', as') y = jfc_res ctx (s, as) y"
  using assms jfc_frame_ctx(1) [OF assms(3)] by (simp add: jfc_valid_def jfc_res_def jfc_own_def)

text \<open>The page list is determined by the state; a step relates the lists before and after.\<close>

definition with_pages :: "nat \<Rightarrow> ptr \<Rightarrow> st \<times> ptr list \<Rightarrow> bool" where
  "with_pages k ctx = (\<lambda>(s, as). db_inv k s ctx as)"

lemma db_inv_unique: "db_inv k s ctx as \<Longrightarrow> db_inv k s ctx bs \<Longrightarrow> as = bs"
  by (auto simp: db_inv_def dest: dll_unique)

interpretation jfc: lifecycle "\<lambda>x. sys_ok E k \<and> with_pages k ctx x" db_bal "jfc_valid ctx" "jfc_res ctx"
  "\<lambda>x obj x'. \<exists>cfg r. cdma_u_create_jfc E ctx cfg (fst x) = Some r \<and> outcome r obj (fst x') \<and> with_pages k ctx x'"
  "\<lambda>x jfc x'. cdma_u_delete_jfc E jfc (fst x) = Some (DMA_STATUS_OK, fst x') \<and> with_pages k ctx x'"
  for E k ctx
proof (unfold_locales, goal_cases)
  case (1 x p x')
  obtain s as s' bs where x: "x = (s, as)" "x' = (s', bs)" by (cases x; cases x')
  obtain cfg where c: "cdma_u_create_jfc E ctx cfg s = Some (p, s')" "p \<noteq> NULL" and bs: "db_inv k s' ctx bs"
    using 1(2) by (auto simp: x with_pages_def)
  from create_jfc_spec [OF _ _ c(1), of k as] 1(1) c(2) obtain as' where "db_inv k s' ctx as'" "jfc_valid ctx (s', as') p"
      "filter_mset no_sync (db_own s' as') = filter_mset no_sync (db_own s as) + jfc_own ctx s' p"
      "sw_db (jfcs s' p) \<notin> db_used s as" "db_used s' as' = insert (sw_db (jfcs s' p)) (db_used s as)"
    by (auto simp: x with_pages_def)
  then show ?case using 1(1) bs db_inv_unique [OF bs] db_bal_mset [of s' bs s as "jfc_own ctx s' p" "sw_db (jfcs s' p)"]
    by (auto simp: x with_pages_def jfc_res_def)
next
  case (2 x x')
  obtain s as s' bs where x: "x = (s, as)" "x' = (s', bs)" by (cases x; cases x')
  obtain cfg where c: "cdma_u_create_jfc E ctx cfg s = Some (NULL, s')" and bs: "db_inv k s' ctx bs"
    using 2(2) by (auto simp: x with_pages_def)
  from create_jfc_spec [OF _ _ c, of k as] 2(1) obtain as' where "db_inv k s' ctx as'"
      "db_own s' as' = db_own s as" "db_used s' as' = db_used s as"
    by (auto simp: x with_pages_def)
  then show ?case using 2(1) bs db_inv_unique [OF bs] by (auto simp: x with_pages_def db_bal_def)
next
  case (3 x r x' y)
  obtain s as s' bs where x: "x = (s, as)" "x' = (s', bs)" by (cases x; cases x')
  obtain cfg p where c: "cdma_u_create_jfc E ctx cfg s = Some (p, s')" "r = (if p = NULL then None else Some p)"
    and bs: "db_inv k s' ctx bs"
    using 3(2) by (auto simp: x with_pages_def elim: outcomeE)
  from create_jfc_spec [OF _ _ c(1), of k as] 3(1) obtain as' where a: "db_inv k s' ctx as'" "jfc_frame ctx s s'"
      "\<forall>y. RMem y \<in># live s \<longrightarrow> jfcs s' y = jfcs s y" "p \<noteq> NULL \<longrightarrow> RMem p \<notin># live s" "db_used s as \<subseteq> db_used s' as'"
    by (auto simp: x with_pages_def split: if_splits)
  note y = jfc_res_subset [of ctx s as y, OF 3(4) [unfolded x]]
  have "sw_db (jfcs s y) \<in> db_used s' bs" using a(5) db_inv_unique [OF bs a(1)] 3(3) by (auto simp: x jfc_valid_def)
  then have "jfc_valid ctx (s', bs) y \<and> jfc_res ctx (s', bs) y = jfc_res ctx (s, as) y"
    using a(2,3) y(2) 3(3) by (intro jfc_kept) (auto simp: x)
  then show ?case using c(2) a(4) y(2) by (auto simp: x)
next
  case (4 x p x')
  obtain s as s' bs where x: "x = (s, as)" "x' = (s', bs)" by (cases x; cases x')
  note y = jfc_res_subset [of ctx s as p, OF 4(3) [unfolded x]]
  from delete_jfc_spec [of E k s ctx as p] 4 y(1) obtain as' where a: "db_inv k s' ctx as'"
      "db_own s as = db_own s' as' + jfc_own ctx s p" "db_used s' as' = db_used s as - {sw_db (jfcs s p)}"
    by (auto simp: x with_pages_def)
  have d: "sw_db (jfcs s p) \<in> db_used s as" using 4(2) by (simp add: x jfc_valid_def)
  have j: "filter_mset no_sync (jfc_own ctx s p) = jfc_own ctx s p" by (simp add: jfc_own_def)
  have "mset_set (db_used s as) = add_mset (sw_db (jfcs s p)) (mset_set (db_used s' as'))"
    unfolding a(3) using d by (metis finite_db_used mset_set.remove)
  then show ?case using 4(1,4) a db_inv_unique [of k s' ctx as' bs]
    by (auto simp: x with_pages_def db_bal_def jfc_res_def j)
next
  case (5 x p y x')
  obtain s as s' bs where x: "x = (s, as)" "x' = (s', bs)" by (cases x; cases x')
  have "image_mset Inl (jfc_own ctx s p + jfc_own ctx s y) + image_mset Inr (mset [sw_db (jfcs s p), sw_db (jfcs s y)]) \<subseteq># db_bal (s, as)"
    using 5(5) by (simp add: x jfc_res_def add_mset_commute)
  from db_bal_subset [OF this] have sub: "jfc_own ctx s p + jfc_own ctx s y \<subseteq># db_own s as"
    and d: "sw_db (jfcs s p) \<noteq> sw_db (jfcs s y)" by simp_all
  have "jfc_own ctx s p \<subseteq># db_own s as" using sub by (rule sub_sum_mset)
  from delete_jfc_spec [of E k s ctx as p, OF _ _ _ this] 5 obtain as' where a: "db_inv k s' ctx as'" "jfc_frame ctx s s'"
      "\<forall>y. y \<noteq> p \<longrightarrow> jfcs s' y = jfcs s y" "db_used s' as' = db_used s as - {sw_db (jfcs s p)}"
    by (auto simp: x with_pages_def)
  have "sw_db (jfcs s y) \<in> db_used s' bs"
    using a(1,4) d 5(3,6) db_inv_unique [of k s' ctx as' bs] by (auto simp: x jfc_valid_def with_pages_def)
  then have "jfc_valid ctx (s', bs) y \<and> jfc_res ctx (s', bs) y = jfc_res ctx (s, as) y"
    using a(2,3) 5(3,4) by (intro jfc_kept) (auto simp: x)
  then show ?case by (simp add: x)
qed

section \<open>What a created completion queue contains\<close>

lemma alloc_buf_jfcs [simp]: "jfcs (snd (cdma_u_alloc_buf E n s)) = jfcs s"
  by (simp add: cdma_u_alloc_buf_def sys_defs Let_def)

lemma add_db_page_jfcs [simp]: "jfcs (snd (cdma_add_db_page E ctx s)) = jfcs s"
  by (simp add: cdma_add_db_page_def cdma_bitmap_alloc_def cdma_bitmap_free_def sys_alloc_def sys_free_def Let_def split_beta)

lemma alloc_sw_db_jfcs:
  assumes "cdma_u_alloc_sw_db E ctx s = Some (db, s')"
  shows "jfcs s' = jfcs s"
  using assms by (auto simp: cdma_u_alloc_sw_db_def Let_def bind_eq_Some_conv split_beta split: if_splits)

lemma jfc_made:
  assumes run: "cdma_u_create_jfc E ctx cfg s = Some (p, s')" and p: "p \<noteq> NULL"
  obtains q s1 s2 where "cdma_u_alloc_queue_buf E zero_jetty_queue
      (if jfc_cfg_depth cfg < CDMA_U_MIN_JFC_DEPTH then CDMA_U_MIN_JFC_DEPTH else jfc_cfg_depth cfg)
      (ucast (ctx_cqe_size (ctxs s ctx))) CDMA_HW_PAGE_SIZE False s1 = Some (0, q, s2)"
    and "jfc_cq (jfcs s' p) = q\<lparr>q_idx := jfc_id (jfcs s' p)\<rparr>"
proof -
  have chk: "cdma_u_check_jfc_cfg ctx cfg s = 0" using run p by (auto simp: cdma_u_create_jfc_def split: if_splits)
  obtain x t1 where x: "sys_alloc E ObjJfc s = (x, t1)" by (cases "sys_alloc E ObjJfc s")
  obtain r t2 where sp: "sys_spin_init E x (t1\<lparr>jfcs := (jfcs t1)(x := zero_jfc)\<rparr>) = (r, t2)"
    by (cases "sys_spin_init E x (t1\<lparr>jfcs := (jfcs t1)(x := zero_jfc)\<rparr>)")
  have t2: "jfcs t2 x = zero_jfc" "ctxs t2 = ctxs s" using x sp by (auto simp: sys_alloc_def sys_spin_init_def Let_def)
  have xr: "x \<noteq> NULL" "r = 0" using run p chk x sp by (auto simp: cdma_u_create_jfc_def split: if_splits)
  obtain ret t3 where b: "cdma_u_alloc_jfc_buf E ctx cfg x t2 = Some (ret, t3)"
    using run chk x sp xr by (auto simp: cdma_u_create_jfc_def bind_eq_Some_conv)
  have "ret = 0" using run chk x sp xr b p by (auto simp: cdma_u_create_jfc_def split: if_splits)
  obtain rc t4 where c: "cdma_cmd_create_jfc E ctx x cfg t3 = (rc, t4)" by (cases "cdma_cmd_create_jfc E ctx x cfg t3")
  have rc: "rc = 0" using run chk x sp xr b c p \<open>ret = 0\<close>
    by (auto simp: cdma_u_create_jfc_def bind_eq_Some_conv split: if_splits)
  have e: "p = x" "s' = t4\<lparr>jfcs := (jfcs t4)(x := (jfcs t4 x)\<lparr>jfc_cq := (jfc_cq (jfcs t4 x))\<lparr>q_idx := jfc_id (jfcs t4 x)\<rparr>, arm_sn := 1\<rparr>)\<rparr>"
    using run chk x sp xr b c rc \<open>ret = 0\<close> by (auto simp: cdma_u_create_jfc_def Let_def)
  have j4: "jfc_cq (jfcs t4 x) = jfc_cq (jfcs t3 x)" using cmd_create_jfc_spec [OF c [unfolded rc]] by auto
  let ?D = "if jfc_cfg_depth cfg < CDMA_U_MIN_JFC_DEPTH then CDMA_U_MIN_JFC_DEPTH else jfc_cfg_depth cfg"
  obtain r2 q u where q: "cdma_u_alloc_queue_buf E zero_jetty_queue ?D (ucast (ctx_cqe_size (ctxs s ctx))) CDMA_HW_PAGE_SIZE False t2 = Some (r2, q, u)"
    using b t2 by (auto simp: cdma_u_alloc_jfc_buf_def Let_def bind_eq_Some_conv zero_jfc_def)
  have "r2 = 0 \<and> (\<exists>db u2. cdma_u_alloc_sw_db E ctx (set_cq x q u) = Some (db, u2) \<and>
      t3 = u2\<lparr>jfcs := (jfcs u2)(x := (jfcs u2 x)\<lparr>sw_db := db\<rparr>)\<rparr>)"
    using b q t2 \<open>ret = 0\<close>
    by (auto simp: cdma_u_alloc_jfc_buf_def Let_def bind_eq_Some_conv zero_jfc_def split_beta split: if_splits)
  then have "r2 = 0" "jfc_cq (jfcs t3 x) = q" using alloc_sw_db_jfcs by (auto simp: set_cq_def)
  then show ?thesis using that [of t2 q u] q e j4 by simp
qed

end
