(* ===== verification/Cdma_Jfs.thy ===== *)
theory Cdma_Jfs
  imports Cdma_Jfc
begin

text \<open>
  Creating and deleting the send queue object (JFS): \<open>cdma_u_jfs.c\<close> and the two commands of
  \<open>cdma_u_cmd.c\<close>. Deleting also removes the queue's entries from its completion queue.
\<close>

unbundle bit_operations_syntax

definition cdma_u_init_sq :: "cdma_u_jetty_queue \<Rightarrow> cdma_u_jetty_queue" where
  "cdma_u_init_sq sq = sq\<lparr>q_flush_flag := False, q_pi := 0, q_ci := 0\<rparr>"

definition sqe_bb_cnt :: "dma_jfs_cfg \<Rightarrow> u32" where
  "sqe_bb_cnt cfg =
     (let n = cdma_sq_cal_wqebb_num SQE_WRITE_NOTIFY_CTL_LEN (ucast (jfs_cfg_max_sge cfg)) CDMA_JFS_WQEBB
      in if n > MAX_SQE_BB_NUM then MAX_SQE_BB_NUM else n)"

text \<open>The queue's lock is named by the JFS.\<close>

definition cdma_u_create_sq ::
  "env \<Rightarrow> ptr \<Rightarrow> cdma_u_jetty_queue \<Rightarrow> dma_jfs_cfg \<Rightarrow> st \<Rightarrow> (int \<times> cdma_u_jetty_queue \<times> st) option" where
  "cdma_u_create_sq E jfs sq cfg s =
     (let (r, s1) = sys_spin_init E jfs s in
      if r \<noteq> 0 then Some (- EINVAL, sq, s1)
      else do {
        let sq1 = (cdma_u_init_sq sq)\<lparr>q_sqe_bb_cnt := sqe_bb_cnt cfg, q_max_sge_num := ucast (jfs_cfg_max_sge cfg)\<rparr>;
        depth \<leftarrow> roundup_pow_of_two (ucast (sqe_bb_cnt cfg * jfs_cfg_depth cfg));
        (ret, sq2, s2) \<leftarrow> cdma_u_alloc_queue_buf E sq1 (ucast depth) CDMA_JFS_WQEBB CDMA_HW_PAGE_SIZE True s1;
        if ret \<noteq> 0 then Some (- EINVAL, sq2, emit (EvSpinDestroy jfs) s2)
        else Some (0, sq2, s2)
      })"

definition cdma_verify_jfs_param :: "ptr \<Rightarrow> dma_jfs_cfg \<Rightarrow> st \<Rightarrow> int" where
  "cdma_verify_jfs_param ctx cfg s =
     (let caps = attr_dev_cap (dev_attr (devs s (ctx_dev s ctx))) in
      if jfs_cfg_depth cfg = 0 \<or> jfs_cfg_depth cfg > max_jfs_depth caps
         \<or> ucast (jfs_cfg_max_sge cfg) > max_jfs_sge caps
      then - EINVAL else 0)"

definition cdma_u_delete_sq :: "ptr \<Rightarrow> cdma_u_jetty_queue \<Rightarrow> st \<Rightarrow> cdma_u_jetty_queue \<times> st" where
  "cdma_u_delete_sq jfs sq s =
     (let (sq', s1) = cdma_u_free_queue_buf sq s in (sq', emit (EvSpinDestroy jfs) s1))"

definition cdma_fill_jfs :: "ptr \<Rightarrow> dma_jfs_cfg \<Rightarrow> kout \<Rightarrow> cdma_u_jfs \<Rightarrow> cdma_u_jfs" where
  "cdma_fill_jfs ctx cfg out j =
     j\<lparr>jfs_id := out_id out,
       jfs_cfg := cfg\<lparr>jfs_cfg_depth := out_depth out, jfs_cfg_max_sge := out_max_sge out,
         jfs_cfg_max_rsge := out_max_rsge out\<rparr>,
       jfs_dma_ctx := ctx, jfs_handle := out_handle out\<rparr>"

definition set_jfs :: "ptr \<Rightarrow> cdma_u_jfs \<Rightarrow> st \<Rightarrow> st" where
  "set_jfs jfs j s = s\<lparr>jfss := (jfss s)(jfs := j)\<rparr>"

definition cdma_u_cmd_create_jfs ::
  "env \<Rightarrow> ptr \<Rightarrow> ptr \<Rightarrow> dma_jfs_cfg \<Rightarrow> cdma_create_jfs_ucmd \<Rightarrow> st \<Rightarrow> int \<times> st" where
  "cdma_u_cmd_create_jfs E ctx jfs cfg udata s =
     (if ctx = NULL \<or> ctx_dev s ctx = NULL \<or> ctx_fd s ctx < 0 \<or> jfs = NULL \<or> jfs_cfg_jfc cfg = NULL
      then (- EINVAL, s)
      else (let rin = \<lparr>jfsi_depth = jfs_cfg_depth cfg, jfsi_flag = jfs_cfg_flag cfg, jfsi_eid_idx = jfs_cfg_eid_idx cfg,
                  jfsi_priority = jfs_cfg_priority cfg, jfsi_max_sge = jfs_cfg_max_sge cfg,
                  jfsi_max_rsge = jfs_cfg_max_rsge cfg, jfsi_rnr_retry = jfs_cfg_rnr_retry cfg,
                  jfsi_err_timeout = jfs_cfg_err_timeout cfg, jfsi_jfc_id = jfc_id (jfcs s (jfs_cfg_jfc cfg)),
                  jfsi_queue_id = jfs_cfg_queue_id cfg, jfsi_rmt_eid = jfs_cfg_rmt_eid cfg,
                  jfsi_pld_token_id = jfs_cfg_pld_token_id cfg, jfsi_tpn = jfs_cfg_tpn cfg, jfsi_dma_jfs = jfs,
                  jfsi_trans_mode = jfs_cfg_trans_mode cfg\<rparr>;
                ((ret, out), s1) = sys_ioctl E (ctx_fd s ctx) (CDMA_CMD_CREATE_JFS rin udata) s
            in if ret \<noteq> 0 then (ret, s1) else (0, set_jfs jfs (cdma_fill_jfs ctx cfg out (jfss s1 jfs)) s1)))"

definition cdma_u_exec_create_jfs_cmd :: "env \<Rightarrow> ptr \<Rightarrow> ptr \<Rightarrow> dma_jfs_cfg \<Rightarrow> st \<Rightarrow> int \<times> st" where
  "cdma_u_exec_create_jfs_cmd E ctx jfs cfg s =
     (let sq = jfs_sq (jfss s jfs) in
      cdma_u_cmd_create_jfs E ctx jfs cfg
        \<lparr>jfsu_buf_addr = qbuf sq, jfsu_buf_len = qbuf_size sq, jfsu_jetty_addr = jfs + 72,
         jfsu_sqe_bb_cnt = q_sqe_bb_cnt sq, jfsu_jetty_type = jfs_type (jfss s jfs), jfsu_non_pin = q_cstm sq,
         jfsu_queue_id = jfs_cfg_queue_id cfg, jfsu_tid = dctx_tid (ctx_dma_ctx (ctxs s ctx))\<rparr> s)"

definition cdma_u_cmd_delete_jfs :: "env \<Rightarrow> ptr \<Rightarrow> st \<Rightarrow> int \<times> st" where
  "cdma_u_cmd_delete_jfs E jfs s =
     (let j = jfss s jfs; ctx = jfs_dma_ctx j in
      if jfs = NULL \<or> ctx = NULL \<or> ctx_dev s ctx = NULL \<or> ctx_fd s ctx < 0 then (- EINVAL, s)
      else (let ((ret, _), s1) = sys_ioctl E (ctx_fd s ctx)
              (CDMA_CMD_DELETE_JFS (jfs_id j) (jfs_handle j) (jfs_cfg_queue_id (jfs_cfg j))) s
            in (ret, s1)))"

definition free_jfs_sq :: "ptr \<Rightarrow> st \<Rightarrow> st" where
  "free_jfs_sq jfs s =
     (let (sq, s1) = cdma_u_delete_sq jfs (jfs_sq (jfss s jfs)) s in
      set_jfs jfs ((jfss s1 jfs)\<lparr>jfs_sq := sq\<rparr>) s1)"

definition cdma_u_create_jfs :: "env \<Rightarrow> ptr \<Rightarrow> dma_jfs_cfg \<Rightarrow> st \<Rightarrow> (ptr \<times> st) option" where
  "cdma_u_create_jfs E ctx cfg s =
     (if ctx = NULL \<or> ctx_dev s ctx = NULL then Some (NULL, s)
      else if cdma_verify_jfs_param ctx cfg s \<noteq> 0 then Some (NULL, s)
      else (let (jfs, s1) = sys_alloc E ObjJfs s in
        if jfs = NULL then Some (NULL, s1)
        else do {
          (ret, sq, s2) \<leftarrow> cdma_u_create_sq E jfs (jfs_sq zero_jfs) cfg (set_jfs jfs zero_jfs s1);
          let s3 = set_jfs jfs ((jfss s2 jfs)\<lparr>jfs_sq := sq\<rparr>) s2;
          if ret \<noteq> 0 then Some (NULL, sys_free jfs s3)
          else do {
            let s4 = set_jfs jfs ((jfss s3 jfs)\<lparr>jfs_type := CDMA_NORMAL_JETTY_TYPE\<rparr>) s3;
            let (ret, s5) = cdma_u_exec_create_jfs_cmd E ctx jfs cfg s4;
            if ret \<noteq> 0 then Some (NULL, sys_free jfs (free_jfs_sq jfs s5))
            else do {
              let j = jfss s5 jfs;
              let sq1 = (jfs_sq j)\<lparr>q_db := (q_db (jfs_sq j))\<lparr>db_id := jfs_id j, db_type := CDMA_MMAP_JETTY_DSQE\<rparr>,
                          q_idx := jfs_id j\<rparr>;
              (ret, db, s6) \<leftarrow> cdma_u_alloc_db E ctx (q_db sq1) s5;
              let sq2 = sq1\<lparr>q_db := db\<rparr>;
              if ret \<noteq> 0 then
                (let s7 = set_jfs jfs ((jfss s6 jfs)\<lparr>jfs_sq := sq2\<rparr>) s6; (_, s8) = cdma_u_cmd_delete_jfs E jfs s7 in
                 Some (NULL, sys_free jfs (free_jfs_sq jfs s8)))
              else Some (jfs, set_jfs jfs ((jfss s6 jfs)\<lparr>jfs_sq := sq2\<lparr>q_dwqe_addr := db_addr db\<rparr>\<rparr>) s6)
            }
          }
        }))"

definition cdma_u_delete_jfs :: "env \<Rightarrow> ptr \<Rightarrow> st \<Rightarrow> (int \<times> st) option" where
  "cdma_u_delete_jfs E jfs s =
     (if jfs = NULL \<or> jfs_dma_ctx (jfss s jfs) = NULL then Some (- EINVAL, s)
      else do {
        let (_, s1) = cdma_u_cmd_delete_jfs E jfs s;
        let j = jfss s1 jfs;
        s2 \<leftarrow> (if jfs_cfg_jfc (jfs_cfg j) \<noteq> NULL then cdma_u_clean_jfc (jfs_cfg_jfc (jfs_cfg j)) (jfs_id j) s1 else Some s1);
        (db, s3) \<leftarrow> cdma_u_free_db (jfs_dma_ctx j) (q_db (jfs_sq (jfss s2 jfs))) s2;
        let s4 = set_jfs jfs ((jfss s3 jfs)\<lparr>jfs_sq := (jfs_sq (jfss s3 jfs))\<lparr>q_db := db\<rparr>\<rparr>) s3;
        Some (0, sys_free jfs (free_jfs_sq jfs s4))
      })"

section \<open>Send queues have a lifecycle\<close>

lemma create_sq_spec:
  assumes mm: "mmap_ok E" and w: "q_wrid sq = NULL" and run: "cdma_u_create_sq E jfs sq cfg s = Some (r, sq', s')"
  shows "(\<exists>t. s' = s\<lparr>tr := t\<rparr>)
     \<and> (if r = 0 then live s' = live s + ({#RSpin jfs#} + queue_buf_res sq') else live s' = live s)"
proof -
  obtain r1 s1 where sp: "sys_spin_init E jfs s = (r1, s1)" by (cases "sys_spin_init E jfs s")
  have s1: "\<exists>t. s1 = s\<lparr>tr := t\<rparr>" "live s1 = live s + (if r1 = 0 then {#RSpin jfs#} else {#})"
    using sp by (auto simp: sys_spin_init_def Let_def live_simps emit_def live_def)
  show ?thesis
  proof (cases "r1 = 0")
    case False
    then show ?thesis using run sp s1 by (auto simp: cdma_u_create_sq_def)
  next
    case True
    let ?q = "(cdma_u_init_sq sq)\<lparr>q_sqe_bb_cnt := sqe_bb_cnt cfg, q_max_sge_num := ucast (jfs_cfg_max_sge cfg)\<rparr>"
    let ?D = "roundup_pow_of_two (ucast (sqe_bb_cnt cfg * jfs_cfg_depth cfg))"
    let ?A = "\<lambda>d :: u64. cdma_u_alloc_queue_buf E ?q (ucast d) CDMA_JFS_WQEBB CDMA_HW_PAGE_SIZE True s1"
    let ?F = "\<lambda>x. if fst x \<noteq> 0 then Some (- EINVAL, fst (snd x), emit (EvSpinDestroy jfs) (snd (snd x)))
        else Some (0, fst (snd x), snd (snd x))"
    have "Option.bind ?D (\<lambda>d. Option.bind (?A d) ?F) = Some (r, sq', s')"
      using run unfolding cdma_u_create_sq_def sp True Let_def split_beta by (simp only: fst_conv snd_conv simp_thms if_False)
    then obtain d x where b': "?A d = Some x" and e': "?F x = Some (r, sq', s')"
      unfolding bind_eq_Some_conv by (elim exE conjE) (rule that; assumption)
    obtain r2 q2 s2 where x: "x = (r2, q2, s2)" by (cases x)
    note b = b' [unfolded x]
    have e: "if r2 \<noteq> 0 then r \<noteq> 0 \<and> sq' = q2 \<and> s' = emit (EvSpinDestroy jfs) s2 else r = 0 \<and> sq' = q2 \<and> s' = s2"
      using e' unfolding x by (auto split: if_splits)
    have "q_wrid ?q = NULL" using w by (simp add: cdma_u_init_sq_def)
    note l = cdma_u_alloc_queue_buf_live [OF b mm this]
    obtain t where t: "s2 = s1\<lparr>tr := t\<rparr>" using alloc_queue_buf_frame [OF b] by blast
    obtain t1 where t1: "s1 = s\<lparr>tr := t1\<rparr>" using s1(1) by blast
    have l1: "live s1 = live s + {#RSpin jfs#}" using s1(2) True by simp
    show ?thesis
    proof (cases "r2 = 0")
      case True
      then have "r = 0" "sq' = q2" "s' = s2" using e by simp_all
      then show ?thesis using l l1 True by (auto simp: t t1)
    next
      case False
      then have "r \<noteq> 0" "s' = emit (EvSpinDestroy jfs) s2" using e by simp_all
      moreover have "live (emit (EvSpinDestroy jfs) s2) = live s" using l l1 False by (simp add: live_emit)
      moreover have "emit (EvSpinDestroy jfs) s2 = s\<lparr>tr := EvSpinDestroy jfs # t\<rparr>" by (simp add: emit_def t t1)
      ultimately show ?thesis by auto
    qed
  qed
qed

lemma delete_sq_spec:
  "live (snd (cdma_u_delete_sq jfs sq s)) = live s - (queue_buf_res sq + {#RSpin jfs#})
   \<and> (\<exists>t. snd (cdma_u_delete_sq jfs sq s) = s\<lparr>tr := t\<rparr>)"
proof -
  obtain t where t: "snd (cdma_u_free_queue_buf sq s) = s\<lparr>tr := t\<rparr>" using free_queue_buf_frame by blast
  show ?thesis
    using cdma_u_free_queue_buf_live [of sq s] t
    by (auto simp: cdma_u_delete_sq_def split_beta live_simps emit_def live_def)
qed

definition jfs_frame :: "st \<Rightarrow> st \<Rightarrow> bool" where
  "jfs_frame s s' \<longleftrightarrow> devs s' = devs s \<and> ctxs s' = ctxs s \<and> pages s' = pages s \<and> jfces s' = jfces s
     \<and> tps s' = tps s \<and> queues s' = queues s \<and> segs s' = segs s"

definition jfs_own :: "nat \<Rightarrow> ptr \<Rightarrow> st \<Rightarrow> ptr \<Rightarrow> resource multiset" where
  "jfs_own k ctx s x = {#RMem x, RSpin x, RJfs (ctx_fd s ctx) (jfs_id (jfss s x))#} + queue_buf_res (jfs_sq (jfss s x))
     + db_res k (q_db (jfs_sq (jfss s x)))"

definition jfs_valid :: "nat \<Rightarrow> ptr \<Rightarrow> st \<Rightarrow> ptr \<Rightarrow> bool" where
  "jfs_valid k ctx s x \<longleftrightarrow> x \<noteq> NULL \<and> ctx \<noteq> NULL \<and> jfs_dma_ctx (jfss s x) = ctx \<and> ctx_dev s ctx \<noteq> NULL \<and> 0 \<le> ctx_fd s ctx
     \<and> ctx_page_size (ctxs s ctx) = 2 ^ k \<and> db_mapped k (q_db (jfs_sq (jfss s x)))"

lemma free_jfs_sq_spec:
  "live (free_jfs_sq x s) = live s - (queue_buf_res (jfs_sq (jfss s x)) + {#RSpin x#})
   \<and> jfs_frame s (free_jfs_sq x s) \<and> jfcs (free_jfs_sq x s) = jfcs s \<and> (\<forall>y. y \<noteq> x \<longrightarrow> jfss (free_jfs_sq x s) y = jfss s y)"
proof -
  from delete_sq_spec [of x "jfs_sq (jfss s x)" s] obtain t where
    t: "snd (cdma_u_delete_sq x (jfs_sq (jfss s x)) s) = s\<lparr>tr := t\<rparr>"
    "live (s\<lparr>tr := t\<rparr>) = live s - (queue_buf_res (jfs_sq (jfss s x)) + {#RSpin x#})" by metis
  show ?thesis
    using t(2) unfolding free_jfs_sq_def Let_def split_beta t(1) by (simp add: set_jfs_def jfs_frame_def live_def)
qed

lemma cmd_create_jfs_spec:
  assumes "cdma_u_cmd_create_jfs E ctx x cfg udata s = (rc, s')"
  shows "if rc = 0
     then \<exists>out :: kout. ctx_dev s ctx \<noteq> NULL \<and> 0 \<le> ctx_fd s ctx \<and> live s' = live s + {#RJfs (ctx_fd s ctx) (out_id out)#}
        \<and> (\<exists>t. s' = s\<lparr>jfss := (jfss s)(x := cdma_fill_jfs ctx cfg out (jfss s x)), tr := t\<rparr>)
     else live s' = live s \<and> (\<exists>t. s' = s\<lparr>tr := t\<rparr>)"
proof (cases "ctx = NULL \<or> ctx_dev s ctx = NULL \<or> ctx_fd s ctx < 0 \<or> x = NULL \<or> jfs_cfg_jfc cfg = NULL")
  case True
  then have "rc = - EINVAL" "s' = s" using assms by (auto simp: cdma_u_cmd_create_jfs_def)
  then show ?thesis by (simp add: exI [of _ "tr s"])
next
  case False
  have "\<exists>rin. let x1 = sys_ioctl E (ctx_fd s ctx) (CDMA_CMD_CREATE_JFS rin udata) s in
      (if fst (fst x1) \<noteq> 0 then (fst (fst x1), snd x1)
         else (0, set_jfs x (cdma_fill_jfs ctx cfg (snd (fst x1)) (jfss (snd x1) x)) (snd x1))) = (rc, s')"
    using assms unfolding cdma_u_cmd_create_jfs_def Let_def split_beta if_not_P [OF False] by (rule exI)
  then obtain rin r out s1 where io: "sys_ioctl E (ctx_fd s ctx) (CDMA_CMD_CREATE_JFS rin udata) s = ((r, out), s1)"
    and e: "(if r \<noteq> 0 then (r, s1) else (0, set_jfs x (cdma_fill_jfs ctx cfg out (jfss s1 x)) s1)) = (rc, s')"
    unfolding Let_def by (metis prod.collapse)
  note s1 = sys_ioctl_emit [OF io]
  show ?thesis
  proof (cases "r = 0")
    case True
    then have s': "rc = 0" "s' = set_jfs x (cdma_fill_jfs ctx cfg out (jfss s1 x)) s1" using e by simp_all
    have "live s' = live s + {#RJfs (ctx_fd s ctx) (out_id out)#}" using True by (simp add: s'(2) s1 set_jfs_def live_simps)
    moreover have "s' = s\<lparr>jfss := (jfss s)(x := cdma_fill_jfs ctx cfg out (jfss s x)), tr := tr s1\<rparr>"
      by (simp add: s'(2) s1 set_jfs_def emit_def)
    ultimately show ?thesis using False s'(1) by (auto simp: not_less)
  next
    case nz: False
    then show ?thesis using e s1 by (auto simp: live_simps emit_def live_def)
  qed
qed

lemma cmd_delete_jfs_spec:
  assumes "jfs_dma_ctx (jfss s x) = ctx" and "x \<noteq> NULL" "ctx \<noteq> NULL" "ctx_dev s ctx \<noteq> NULL" "0 \<le> ctx_fd s ctx"
  shows "\<exists>t. snd (cdma_u_cmd_delete_jfs E x s) = s\<lparr>tr := t\<rparr> \<and> live_of t = live s - {#RJfs (ctx_fd s ctx) (jfs_id (jfss s x))#}"
  using assms by (auto simp: cdma_u_cmd_delete_jfs_def sys_ioctl_def Let_def split_beta emit_def live_def)

lemma jfs_frame_emit [simp]: "jfs_frame s (emit e s') = jfs_frame s s'" "jfs_frame s (s'\<lparr>tr := t\<rparr>) = jfs_frame s s'"
  "jfs_frame s (s'\<lparr>jfss := f\<rparr>) = jfs_frame s s'" "jfs_frame s s"
  by (simp_all add: jfs_frame_def)

lemma jfs_frame_trans: "jfs_frame s s1 \<Longrightarrow> jfs_frame s1 s2 \<Longrightarrow> jfs_frame s s2"
  by (simp add: jfs_frame_def)

lemma create_jfs_spec:
  assumes ok: "sys_ok E k" and ps: "ctx_page_size (ctxs s ctx) = 2 ^ k" and run: "cdma_u_create_jfs E ctx cfg s = Some (p, s')"
  shows "jfs_frame s s' \<and> jfcs s' = jfcs s \<and> (\<forall>y. RMem y \<in># live s \<longrightarrow> jfss s' y = jfss s y)
     \<and> (if p = NULL then live s' = live s
        else RMem p \<notin># live s \<and> jfs_valid k ctx s' p \<and> live s' = live s + jfs_own k ctx s' p)"
proof (cases "ctx = NULL \<or> ctx_dev s ctx = NULL \<or> cdma_verify_jfs_param ctx cfg s \<noteq> 0")
  case True
  then have "p = NULL \<and> s' = s" using run by (auto simp: cdma_u_create_jfs_def split: if_splits)
  then show ?thesis by simp
next
  case chk: False
  obtain x s1 where x: "sys_alloc E ObjJfs s = (x, s1)" by (cases "sys_alloc E ObjJfs s")
  note x' = sys_alloc_fresh [OF ok x]
  show ?thesis
  proof (cases "x = NULL")
    case True
    then have "p = NULL \<and> s' = s1" using run chk x by (simp add: cdma_u_create_jfs_def)
    then show ?thesis using x' True by (simp add: live_simps)
  next
    case x0: False
    have mm: "mmap_ok E" using ok by (simp add: sys_ok_def)
    let ?z = "set_jfs x zero_jfs s1"
    obtain ret sq s2 where q: "cdma_u_create_sq E x (jfs_sq zero_jfs) cfg ?z = Some (ret, sq, s2)"
      using run chk x x0 by (auto simp: cdma_u_create_jfs_def bind_eq_Some_conv)
    have "q_wrid (jfs_sq zero_jfs) = NULL" by (simp add: zero_jfs_def zero_jetty_queue_def)
    from create_sq_spec [OF mm this q] obtain t2 where t2: "s2 = ?z\<lparr>tr := t2\<rparr>"
      and l2: "if ret = 0 then live s2 = live ?z + ({#RSpin x#} + queue_buf_res sq) else live s2 = live ?z" by blast
    have lz: "live ?z = live s + {#RMem x#}" using x' x0 by (simp add: set_jfs_def live_simps)
    have f2: "jfs_frame s s2" "jfcs s2 = jfcs s" "jfss s2 = (jfss s)(x := zero_jfs)"
      using x' by (simp_all add: t2 set_jfs_def jfs_frame_def)
    have fresh: "RMem y \<in># live s \<Longrightarrow> y \<noteq> x" for y using x' x0 by auto
    have leave: "jfs_frame s (sys_free x t) \<and> jfcs (sys_free x t) = jfcs s
         \<and> (\<forall>y. RMem y \<in># live s \<longrightarrow> jfss (sys_free x t) y = jfss s y) \<and> live (sys_free x t) = live s"
      if "jfs_frame s t" "jfcs t = jfcs s" "\<forall>y. y \<noteq> x \<longrightarrow> jfss t y = jfss s y" "live t = live s + {#RMem x#}" for t
      using that fresh x0 by (simp add: sys_free_def live_simps)
    let ?s3 = "set_jfs x ((jfss s2 x)\<lparr>jfs_sq := sq\<rparr>) s2"
    show ?thesis
    proof (cases "ret = 0")
      case False
      then have e: "p = NULL" "s' = sys_free x ?s3" using run chk x x0 q by (auto simp: cdma_u_create_jfs_def)
      show ?thesis using leave [of ?s3] f2 l2 lz False unfolding e by (simp add: set_jfs_def live_simps)
    next
      case r0: True
      let ?j = "(jfss ?s3 x)\<lparr>jfs_type := CDMA_NORMAL_JETTY_TYPE\<rparr>" let ?s4 = "set_jfs x ?j ?s3"
      have l4: "live ?s4 = live s + {#RMem x#} + ({#RSpin x#} + queue_buf_res sq)"
        using l2 r0 lz by (simp add: set_jfs_def live_simps)
      have f4: "jfs_frame s ?s4" "jfcs ?s4 = jfcs s" "jfss ?s4 = (jfss s)(x := zero_jfs\<lparr>jfs_sq := sq, jfs_type := CDMA_NORMAL_JETTY_TYPE\<rparr>)"
        using f2 by (simp_all add: set_jfs_def)
      obtain rc s5 where c: "cdma_u_exec_create_jfs_cmd E ctx x cfg ?s4 = (rc, s5)"
        by (cases "cdma_u_exec_create_jfs_cmd E ctx x cfg ?s4")
      note c' = cmd_create_jfs_spec [OF c [unfolded cdma_u_exec_create_jfs_cmd_def Let_def]]
      have free: "jfs_frame s (sys_free x (free_jfs_sq x t)) \<and> jfcs (sys_free x (free_jfs_sq x t)) = jfcs s
         \<and> (\<forall>y. RMem y \<in># live s \<longrightarrow> jfss (sys_free x (free_jfs_sq x t)) y = jfss s y) \<and> live (sys_free x (free_jfs_sq x t)) = live s"
        if "jfs_frame s t" "jfcs t = jfcs s" "\<forall>y. y \<noteq> x \<longrightarrow> jfss t y = jfss s y" "queue_buf_res (jfs_sq (jfss t x)) = queue_buf_res sq"
          "live t = live s + {#RMem x#} + ({#RSpin x#} + queue_buf_res sq)" for t
        using free_jfs_sq_spec [of x t] that jfs_frame_trans [of s t] by (intro leave) (auto simp: that(4))
      show ?thesis
      proof (cases "rc = 0")
        case False
        then have e: "p = NULL" "s' = sys_free x (free_jfs_sq x s5)"
          using run chk x x0 q r0 c by (auto simp: cdma_u_create_jfs_def Let_def)
        from c' False obtain t5 where "live s5 = live ?s4" "s5 = ?s4\<lparr>tr := t5\<rparr>" by auto
        then show ?thesis using free [of s5] f4 l4 unfolding e by simp
      next
        case rc0: True
        let ?fd = "ctx_fd s ctx"
        have cd: "ctx_fd ?s4 = ctx_fd s" "ctx_dev ?s4 = ctx_dev s"
          using f4(1) ctx_fd_cong [of ?s4 s] by (simp_all add: jfs_frame_def)
        from c' rc0 obtain out :: kout and t5 where o: "ctx_dev s ctx \<noteq> NULL" "0 \<le> ?fd"
            "live s5 = live ?s4 + {#RJfs ?fd (out_id out)#}"
            "s5 = ?s4\<lparr>jfss := (jfss ?s4)(x := cdma_fill_jfs ctx cfg out (jfss ?s4 x)), tr := t5\<rparr>"
          unfolding cd by auto
        have f5: "jfs_frame s s5" "jfcs s5 = jfcs s"
          "jfss s5 = (jfss s)(x := cdma_fill_jfs ctx cfg out (zero_jfs\<lparr>jfs_sq := sq, jfs_type := CDMA_NORMAL_JETTY_TYPE\<rparr>))"
          using f4 by (simp_all add: o(4))
        let ?j5 = "jfss s5 x"
        let ?sq1 = "(jfs_sq ?j5)\<lparr>q_db := (q_db (jfs_sq ?j5))\<lparr>db_id := jfs_id ?j5, db_type := CDMA_MMAP_JETTY_DSQE\<rparr>, q_idx := jfs_id ?j5\<rparr>"
        have ps5: "ctx_page_size (ctxs s5 ctx) = 2 ^ k" using f5(1) ps by (simp add: jfs_frame_def)
        from cdma_u_alloc_db_mapped [OF ok ps5, of "q_db ?sq1"] obtain rd db s6 t6 where
          a: "cdma_u_alloc_db E ctx (q_db ?sq1) s5 = Some (rd, db, s6)" "s6 = s5\<lparr>tr := t6\<rparr>"
            "if rd = 0 then live s6 = live s5 + db_res k db \<and> db_mapped k db else rd = - EINVAL \<and> live s6 = live s5" by blast
        let ?j6 = "(jfss s6 x)\<lparr>jfs_sq := ?sq1\<lparr>q_db := db\<rparr>\<rparr>"
        have sqj: "jfs_sq ?j5 = sq" "jfs_id ?j5 = out_id out" "jfs_dma_ctx ?j5 = ctx" by (simp_all add: f5(3) cdma_fill_jfs_def)
        have qr: "queue_buf_res (?sq1\<lparr>q_db := db\<rparr>) = queue_buf_res sq" by (simp add: queue_buf_res_def sqj)
        show ?thesis
        proof (cases "rd = 0")
          case False
          let ?s7 = "set_jfs x ?j6 s6" let ?s8 = "snd (cdma_u_cmd_delete_jfs E x ?s7)"
          have e: "p = NULL" "s' = sys_free x (free_jfs_sq x ?s8)"
            using run chk x x0 q r0 c rc0 a(1) False by (auto simp: cdma_u_create_jfs_def Let_def split_beta)
          have f7: "jfs_frame s ?s7" "jfcs ?s7 = jfcs s" "\<forall>y. y \<noteq> x \<longrightarrow> jfss ?s7 y = jfss s y" "jfss ?s7 x = ?j6"
            using f5 by (simp_all add: a(2) set_jfs_def)
          have cd7: "ctx_fd ?s7 = ctx_fd s" "ctx_dev ?s7 = ctx_dev s"
            using f7(1) ctx_fd_cong [of ?s7 s] by (simp_all add: jfs_frame_def)
          have "jfs_dma_ctx (jfss ?s7 x) = ctx" unfolding f7(4) by (simp add: a(2) sqj)
          from cmd_delete_jfs_spec [OF this x0 _, of E] chk o(1,2) obtain t8 where
            t8: "?s8 = ?s7\<lparr>tr := t8\<rparr>" "live_of t8 = live ?s7 - {#RJfs ?fd (jfs_id (jfss ?s7 x))#}"
            unfolding cd7 by auto
          have "jfs_id (jfss ?s7 x) = out_id out" unfolding f7(4) by (simp add: a(2) sqj)
          then have "live ?s8 = live s + {#RMem x#} + ({#RSpin x#} + queue_buf_res sq)"
            using t8 a(3) False o(3) l4 by (simp add: live_def set_jfs_def)
          then show ?thesis using free [of ?s8] f7 qr unfolding e t8(1) by simp
        next
          case rd0: True
          have e: "p = x" "s' = set_jfs x ((jfss s6 x)\<lparr>jfs_sq := ?sq1\<lparr>q_db := db, q_dwqe_addr := db_addr db\<rparr>\<rparr>) s6"
            using run chk x x0 q r0 c rc0 a(1) rd0 by (auto simp: cdma_u_create_jfs_def Let_def split_beta)
          have f7: "jfs_frame s s'" "jfcs s' = jfcs s" "\<forall>y. y \<noteq> x \<longrightarrow> jfss s' y = jfss s y"
              "jfss s' x = (jfss s6 x)\<lparr>jfs_sq := ?sq1\<lparr>q_db := db, q_dwqe_addr := db_addr db\<rparr>\<rparr>"
            using f5 by (simp_all add: e a(2) set_jfs_def)
          have cd7: "ctx_fd s' = ctx_fd s" "ctx_dev s' = ctx_dev s"
            using f7(1) ctx_fd_cong [of s' s] by (simp_all add: jfs_frame_def)
          have "live s' = live s5 + db_res k db" using a(3) rd0 by (simp add: e set_jfs_def live_def)
          moreover have "jfs_own k ctx s' x = {#RMem x#} + {#RSpin x#} + {#RJfs ?fd (out_id out)#} + queue_buf_res sq + db_res k db"
            unfolding jfs_own_def f7(4) cd7 using qr by (simp add: a(2) sqj queue_buf_res_def)
          ultimately have "live s' = live s + jfs_own k ctx s' x" using o(3) l4 by (simp add: ac_simps)
          moreover have "jfs_valid k ctx s' x"
            unfolding jfs_valid_def f7(4) cd7 using x0 chk o(1,2) ps f7(1) a(2,3) rd0 sqj by (simp add: jfs_frame_def)
          ultimately show ?thesis using f7 x0 x' fresh e(1) by simp
        qed
      qed
    qed
  qed
qed

text \<open>Removing the entries of a queue touches no resource.\<close>

definition quiet :: "st \<Rightarrow> st \<Rightarrow> bool" where
  "quiet s s' \<longleftrightarrow> live s' = live s \<and> jfs_frame s s' \<and> jfss s' = jfss s"

lemma quiet_refl [simp]: "quiet s s"
  by (simp add: quiet_def)

lemma quiet_trans: "quiet s s1 \<Longrightarrow> quiet s1 s2 \<Longrightarrow> quiet s s2"
  by (simp add: quiet_def jfs_frame_def)

lemma quiet_upd:
  "acquired e = {#} \<Longrightarrow> released e = {#} \<Longrightarrow> quiet s (emit e s') = quiet s s'"
  "acquired e = {#} \<Longrightarrow> released e = {#} \<Longrightarrow> quiet (emit e s) s' = quiet s s'"
  "quiet s (s'\<lparr>cqes := c\<rparr>) = quiet s s'" "quiet (s\<lparr>cqes := c\<rparr>) s' = quiet s s'"
  "quiet s (s'\<lparr>jfcs := j\<rparr>) = quiet s s'" "quiet s (s'\<lparr>swdbs := d\<rparr>) = quiet s s'"
  by (simp_all add: quiet_def jfs_frame_def live_simps)

lemma clean_back_quiet:
  "clean_back cq jid pi n s = Some r \<Longrightarrow> quiet s (snd r) \<and> jfcs (snd r) = jfcs s"
proof (erule clean_back.raw_induct [where P = "\<lambda>cq jid pi n s r. quiet s (snd r) \<and> jfcs (snd r) = jfcs s", rotated], goal_cases)
  case (1 cb cq jid pi n s r)
  obtain d where d: "int_sub (pi - 1) (q_ci cq) = Some d" using 1(2) by (auto simp: bind_eq_Some_conv)
  let ?e = "cqes s (cdma_u_get_buf_entry cq (pi - 1))" let ?s1 = "emit EvBarrierLd s"
  show ?case
  proof (cases "d < 0")
    case True
    then show ?thesis using 1(2) d by auto
  next
    case nn: False
    show ?thesis
    proof (cases "cqe_local_id ?e = jid")
      case True
      then have "cb cq jid (pi - 1) (n + 1) ?s1 = Some r" using 1(2) d nn by (simp add: Let_def)
      from 1(1) [OF this] show ?thesis by (simp add: quiet_upd)
    next
      case other: False
      show ?thesis
      proof (cases "n = 0")
        case True
        then have "cb cq jid (pi - 1) n ?s1 = Some r" using 1(2) d nn other by (simp add: Let_def)
        from 1(1) [OF this] show ?thesis by (simp add: quiet_upd)
      next
        case False
        let ?dest = "cdma_u_get_buf_entry cq (pi - 1 + n)" let ?s2 = "emit EvBarrierLd ?s1"
        have "cb cq jid (pi - 1) n (?s2\<lparr>cqes := (cqes ?s2)(?dest := ?e\<lparr>cqe_owner := cqe_owner (cqes ?s2 ?dest)\<rparr>)\<rparr>) = Some r"
          using 1(2) d nn other False by (simp add: Let_def)
        from 1(1) [OF this] show ?thesis by (simp add: quiet_upd)
      qed
    qed
  qed
qed

text \<open>What the rest of the library may change in a completion queue while it is in use.\<close>

definition jfc_fixed :: "cdma_u_jfc \<Rightarrow> ptr \<times> u32 \<times> ptr \<times> resource multiset" where
  "jfc_fixed j = (jfc_dma_ctx j, jfc_id j, sw_db j, queue_buf_res (jfc_cq j))"

lemma clean_jfc_quiet:
  assumes "cdma_u_clean_jfc jfc jid s = Some s'"
  shows "quiet s s' \<and> (\<forall>y. jfc_fixed (jfcs s' y) = jfc_fixed (jfcs s y))"
proof (cases "jfc = NULL")
  case True
  then show ?thesis using assms by (simp add: cdma_u_clean_jfc_def)
next
  case False
  let ?s1 = "emit (EvLock jfc) s"
  obtain pi m s2 where b: "clean_back (jfc_cq (jfcs ?s1 jfc)) jid pi 0 ?s1 = Some (m, s2)"
    and s': "s' = emit (EvUnlock jfc) (if m \<noteq> 0
       then write_sw_db jfc (emit EvBarrierSt (s2\<lparr>jfcs := (jfcs s2)(jfc :=
              (jfcs s2 jfc)\<lparr>jfc_cq := (jfc_cq (jfcs s2 jfc))\<lparr>q_ci := q_ci (jfc_cq (jfcs s2 jfc)) + m\<rparr>\<rparr>)\<rparr>)) else s2)"
    using assms False by (auto simp: cdma_u_clean_jfc_def Let_def bind_eq_Some_conv)
  from clean_back_quiet [OF b] have q: "quiet s s2" "jfcs s2 = jfcs s" by (simp_all add: quiet_upd)
  then show ?thesis unfolding s'
    by (cases "m = 0") (simp_all add: quiet_upd write_sw_db_def jfc_fixed_def queue_buf_res_def)
qed

lemma delete_jfs_spec:
  assumes v: "jfs_valid k ctx s x" and run: "cdma_u_delete_jfs E x s = Some (r, s')"
  shows "r = 0 \<and> live s' = live s - jfs_own k ctx s x \<and> jfs_frame s s' \<and> (\<forall>y. y \<noteq> x \<longrightarrow> jfss s' y = jfss s y)
     \<and> (\<forall>y. jfc_fixed (jfcs s' y) = jfc_fixed (jfcs s y))"
proof -
  let ?j = "jfss s x"
  have v': "x \<noteq> NULL" "ctx \<noteq> NULL" "jfs_dma_ctx ?j = ctx" "ctx_dev s ctx \<noteq> NULL" "0 \<le> ctx_fd s ctx"
      "ctx_page_size (ctxs s ctx) = 2 ^ k" "db_mapped k (q_db (jfs_sq ?j))"
    using v by (simp_all add: jfs_valid_def)
  from cmd_delete_jfs_spec [OF v'(3,1,2,4,5), of E] obtain t where
    t: "snd (cdma_u_cmd_delete_jfs E x s) = s\<lparr>tr := t\<rparr>" "live_of t = live s - {#RJfs (ctx_fd s ctx) (jfs_id ?j)#}" by blast
  let ?s1 = "s\<lparr>tr := t\<rparr>"
  let ?C = "if jfs_cfg_jfc (jfs_cfg ?j) \<noteq> NULL then cdma_u_clean_jfc (jfs_cfg_jfc (jfs_cfg ?j)) (jfs_id ?j) ?s1 else Some ?s1"
  obtain s2 db s3 where c: "?C = Some s2" and d: "cdma_u_free_db ctx (q_db (jfs_sq (jfss s2 x))) s2 = Some (db, s3)"
    and s': "r = 0" "s' = sys_free x (free_jfs_sq x (set_jfs x ((jfss s3 x)\<lparr>jfs_sq := (jfs_sq (jfss s3 x))\<lparr>q_db := db\<rparr>\<rparr>) s3))"
    using run v'(1-3) unfolding cdma_u_delete_jfs_def split_beta t(1) Let_def
    by (auto simp: bind_eq_Some_conv cong: if_cong)
  have q: "quiet ?s1 s2 \<and> (\<forall>y. jfc_fixed (jfcs s2 y) = jfc_fixed (jfcs s y))"
    using c clean_jfc_quiet [of "jfs_cfg_jfc (jfs_cfg ?j)" "jfs_id ?j" ?s1 s2] by (auto split: if_splits)
  then have s2: "jfss s2 = jfss s" "ctxs s2 = ctxs s" "live s2 = live s - {#RJfs (ctx_fd s ctx) (jfs_id ?j)#}" "jfs_frame s s2"
    using t(2) by (simp_all add: quiet_def jfs_frame_def live_def)
  have m: "db_mapped k (q_db (jfs_sq (jfss s2 x)))" "ctx_page_size (ctxs s2 ctx) = 2 ^ k" using v' s2 by simp_all
  from cdma_u_free_db_mapped [OF m] d obtain t3 where t3: "s3 = s2\<lparr>tr := t3\<rparr>" "live_of t3 = live s2 - db_res k (q_db (jfs_sq ?j))"
    using s2(1) by auto
  let ?s4 = "set_jfs x ((jfss s3 x)\<lparr>jfs_sq := (jfs_sq (jfss s3 x))\<lparr>q_db := db\<rparr>\<rparr>) s3"
  have s4: "live ?s4 = live s - {#RJfs (ctx_fd s ctx) (jfs_id ?j)#} - db_res k (q_db (jfs_sq ?j))" "jfs_frame s ?s4"
      "jfcs ?s4 = jfcs s2" "\<forall>y. y \<noteq> x \<longrightarrow> jfss ?s4 y = jfss s y" "queue_buf_res (jfs_sq (jfss ?s4 x)) = queue_buf_res (jfs_sq ?j)"
    using s2 t3 by (simp_all add: set_jfs_def live_def queue_buf_res_def)
  note f = free_jfs_sq_spec [of x ?s4]
  have "live s' = live s - jfs_own k ctx s x"
    using f s4 v'(1) by (simp add: s' sys_free_def live_simps jfs_own_def diff_diff_eq ac_simps add_mset_commute)
  then show ?thesis using f s4 q jfs_frame_trans [OF s4(2)] by (simp add: s' sys_free_def)
qed

lemma jfs_kept:
  assumes "jfs_frame s s'" and "jfss s' y = jfss s y"
  shows "jfs_valid k ctx s' y = jfs_valid k ctx s y" and "jfs_own k ctx s' y = jfs_own k ctx s y"
  using assms ctx_fd_cong [of s' s] by (simp_all add: jfs_valid_def jfs_own_def jfs_frame_def)

interpretation jfs: lifecycle "\<lambda>s. sys_ok E k \<and> ctx_page_size (ctxs s ctx) = 2 ^ k" live "jfs_valid k ctx" "jfs_own k ctx"
  "\<lambda>s obj s'. \<exists>cfg r. cdma_u_create_jfs E ctx cfg s = Some r \<and> outcome r obj s'"
  "\<lambda>s x s'. \<exists>r. cdma_u_delete_jfs E x s = Some (r, s')"
  for E k ctx
proof (unfold_locales, goal_cases)
  case (1 s x s')
  then obtain cfg where "cdma_u_create_jfs E ctx cfg s = Some (x, s')" "x \<noteq> NULL" by auto
  then show ?case using create_jfs_spec [of E k s ctx cfg x s'] 1(1) by (auto simp: jfs_frame_def)
next
  case (2 s s')
  then obtain cfg where "cdma_u_create_jfs E ctx cfg s = Some (NULL, s')" by auto
  then show ?case using create_jfs_spec [of E k s ctx cfg NULL s'] 2(1) by (auto simp: jfs_frame_def)
next
  case (3 s r s' y)
  obtain cfg p where p: "cdma_u_create_jfs E ctx cfg s = Some (p, s')" "r = (if p = NULL then None else Some p)"
    using 3(2) by (auto elim: outcomeE)
  have y: "RMem y \<in># live s" using 3(4) by (auto simp: jfs_own_def dest: mset_subset_eqD)
  from create_jfs_spec [OF _ _ p(1)] 3(1)
  have "jfss s' y = jfss s y" "jfs_frame s s'" "p \<noteq> NULL \<Longrightarrow> RMem p \<notin># live s" using y by (auto split: if_splits)
  then show ?case using 3(3) p(2) y jfs_kept [of s s' y] by auto
next
  case (4 s x s')
  then show ?case using delete_jfs_spec [OF 4(2)] by (auto simp: jfs_frame_def)
next
  case (5 s x y s')
  then show ?case using delete_jfs_spec [OF 5(2)] jfs_kept [of s s' y] by auto
qed

section \<open>What a created send queue contains\<close>

lemma jfs_made:
  assumes ok: "sys_ok E k" and run: "cdma_u_create_jfs E ctx cfg s = Some (p, s')" and p: "p \<noteq> NULL"
  obtains d sq db s1 s2 where "roundup_pow_of_two (ucast (sqe_bb_cnt cfg * jfs_cfg_depth cfg)) = Some d"
    and "cdma_u_alloc_queue_buf E ((cdma_u_init_sq zero_jetty_queue)\<lparr>q_sqe_bb_cnt := sqe_bb_cnt cfg,
           q_max_sge_num := ucast (jfs_cfg_max_sge cfg)\<rparr>) (ucast d) CDMA_JFS_WQEBB CDMA_HW_PAGE_SIZE True s1 = Some (0, sq, s2)"
    and "live s1 = live s + {#RMem p#} + {#RSpin p#}"
    and "jfs_sq (jfss s' p) = sq\<lparr>q_db := db, q_idx := jfs_id (jfss s' p), q_dwqe_addr := db_addr db\<rparr>"
    and "jfs_cfg_jfc (jfs_cfg (jfss s' p)) = jfs_cfg_jfc cfg"
proof -
  have chk: "ctx \<noteq> NULL" "ctx_dev s ctx \<noteq> NULL" "cdma_verify_jfs_param ctx cfg s = 0"
    using run p by (auto simp: cdma_u_create_jfs_def split: if_splits)
  obtain x t1 where x: "sys_alloc E ObjJfs s = (x, t1)" by (cases "sys_alloc E ObjJfs s")
  have x0: "x \<noteq> NULL" using run p chk x by (auto simp: cdma_u_create_jfs_def split: if_splits)
  note x' = sys_alloc_fresh [OF ok x]
  let ?z = "set_jfs x zero_jfs t1"
  obtain ret sq t2 where q: "cdma_u_create_sq E x (jfs_sq zero_jfs) cfg ?z = Some (ret, sq, t2)"
    using run chk x x0 by (auto simp: cdma_u_create_jfs_def bind_eq_Some_conv)
  have ret: "ret = 0" using run chk x x0 q p by (auto simp: cdma_u_create_jfs_def Let_def split: if_splits)
  obtain r1 u where sp: "sys_spin_init E x ?z = (r1, u)" by (cases "sys_spin_init E x ?z")
  have r1: "r1 = 0" using q sp ret by (auto simp: cdma_u_create_sq_def split: if_splits)
  have lu: "live u = live s + {#RMem x#} + {#RSpin x#}"
    using sp r1 x' x0 by (auto simp: sys_spin_init_def Let_def set_jfs_def live_simps)
  obtain d t3 where d: "roundup_pow_of_two (ucast (sqe_bb_cnt cfg * jfs_cfg_depth cfg)) = Some d"
    and b: "cdma_u_alloc_queue_buf E ((cdma_u_init_sq zero_jetty_queue)\<lparr>q_sqe_bb_cnt := sqe_bb_cnt cfg,
           q_max_sge_num := ucast (jfs_cfg_max_sge cfg)\<rparr>) (ucast d) CDMA_JFS_WQEBB CDMA_HW_PAGE_SIZE True u = Some (0, sq, t3)"
    using q ret r1 sp unfolding cdma_u_create_sq_def
    by (auto simp: Let_def bind_eq_Some_conv zero_jfs_def split: if_splits)
  let ?s4 = "set_jfs x ((jfss (set_jfs x ((jfss t2 x)\<lparr>jfs_sq := sq\<rparr>) t2) x)\<lparr>jfs_type := CDMA_NORMAL_JETTY_TYPE\<rparr>)
      (set_jfs x ((jfss t2 x)\<lparr>jfs_sq := sq\<rparr>) t2)"
  obtain rc t5 where c: "cdma_u_exec_create_jfs_cmd E ctx x cfg ?s4 = (rc, t5)" by (cases "cdma_u_exec_create_jfs_cmd E ctx x cfg ?s4")
  have rc: "rc = 0" using run chk x x0 q ret c p
    by (auto simp: cdma_u_create_jfs_def Let_def split: if_splits)
  from cmd_create_jfs_spec [OF c [unfolded cdma_u_exec_create_jfs_cmd_def Let_def]] rc
  have j5: "jfs_sq (jfss t5 x) = sq" "jfs_cfg_jfc (jfs_cfg (jfss t5 x)) = jfs_cfg_jfc cfg"
    by (auto simp: set_jfs_def cdma_fill_jfs_def)
  let ?sq1 = "(jfs_sq (jfss t5 x))\<lparr>q_db := (q_db (jfs_sq (jfss t5 x)))\<lparr>db_id := jfs_id (jfss t5 x), db_type := CDMA_MMAP_JETTY_DSQE\<rparr>,
                          q_idx := jfs_id (jfss t5 x)\<rparr>"
  obtain rd db t6 where a: "cdma_u_alloc_db E ctx (q_db ?sq1) t5 = Some (rd, db, t6)"
    using run chk x x0 q ret c rc by (auto simp: cdma_u_create_jfs_def Let_def bind_eq_Some_conv)
  have "rd = 0" using run chk x x0 q ret c rc a p by (auto simp: cdma_u_create_jfs_def Let_def split_beta split: if_splits)
  have e: "p = x" "s' = set_jfs x ((jfss t6 x)\<lparr>jfs_sq := ?sq1\<lparr>q_db := db, q_dwqe_addr := db_addr db\<rparr>\<rparr>) t6"
    using run chk x x0 q ret c rc a \<open>rd = 0\<close> by (auto simp: cdma_u_create_jfs_def Let_def split_beta)
  have "jfss t6 = jfss t5" using a
    by (auto simp: cdma_u_alloc_db_def Let_def bind_eq_Some_conv sys_defs split: if_splits prod.splits)
  then have "jfs_sq (jfss s' x) = sq\<lparr>q_db := db, q_idx := jfs_id (jfss s' x), q_dwqe_addr := db_addr db\<rparr>"
    "jfs_cfg_jfc (jfs_cfg (jfss s' x)) = jfs_cfg_jfc cfg"
    unfolding e(2) by (simp_all add: set_jfs_def j5)
  then show ?thesis using that [OF d b] lu e(1) by simp
qed

end
