(* ===== verification/Cdma_Tp.thy ===== *)
theory Cdma_Tp
  imports Cdma_Jfc
begin

text \<open>
  Transport channels (\<open>cdma_u_tp.c\<close>, the CTP commands of \<open>cdma_u_cmd.c\<close>), the registration of
  memory segments (\<open>cdma_u_segment.c\<close>) and the context (\<open>cdma_u_context.c\<close>).
\<close>

section \<open>Transport channels\<close>

definition cdma_cmd_create_ctp :: "env \<Rightarrow> ptr \<Rightarrow> ptr \<Rightarrow> dma_tp_cfg \<Rightarrow> st \<Rightarrow> int \<times> st" where
  "cdma_cmd_create_ctp E ctx ctp cfg s =
     (if ctx = NULL \<or> ctx_dev s ctx = NULL \<or> ctx_fd s ctx < 0 \<or> ctp = NULL then (- EINVAL, s)
      else (let rin = \<lparr>ctpi_scna = tp_cfg_scna cfg, ctpi_dcna = tp_cfg_dcna cfg, ctpi_dma_tp = ctp,
                  ctpi_seid = tp_cfg_seid cfg, ctpi_deid = tp_cfg_deid cfg, ctpi_queue_id = tp_cfg_queue_id cfg\<rparr>;
                ((ret, out), s1) = sys_ioctl E (ctx_fd s ctx) (CDMA_CMD_CREATE_CTP rin) s
            in if ret \<noteq> 0 then (ret, s1)
               else (0, s1\<lparr>tps := (tps s1)(ctp := (tps s1 ctp)\<lparr>tp_dma_ctx := ctx, tp_cfg := cfg,
                      tp_tpn := out_tpn out, tp_handle := out_handle out\<rparr>)\<rparr>)))"

definition cdma_cmd_delete_ctp :: "env \<Rightarrow> ptr \<Rightarrow> st \<Rightarrow> int \<times> st" where
  "cdma_cmd_delete_ctp E ctp s =
     (let t = tps s ctp; ctx = tp_dma_ctx t in
      if ctp = NULL \<or> ctx = NULL \<or> ctx_dev s ctx = NULL \<or> ctx_fd s ctx < 0 then (- EINVAL, s)
      else (let ((ret, _), s1) = sys_ioctl E (ctx_fd s ctx)
              (CDMA_CMD_DELETE_CTP (tp_tpn t) (tp_handle t) (tp_cfg_queue_id (tp_cfg t))) s
            in (ret, s1)))"

definition cdma_u_create_ctp :: "env \<Rightarrow> ptr \<Rightarrow> dma_tp_cfg \<Rightarrow> st \<Rightarrow> ptr \<times> st" where
  "cdma_u_create_ctp E ctx cfg s =
     (if ctx = NULL then (NULL, s)
      else (let (tp, s1) = sys_alloc E ObjTp s in
            if tp = NULL then (NULL, s1)
            else (let (ret, s2) = cdma_cmd_create_ctp E ctx tp cfg (s1\<lparr>tps := (tps s1)(tp := zero_tp)\<rparr>) in
                  if ret \<noteq> 0 then (NULL, sys_free tp s2) else (tp, s2))))"

definition cdma_u_delete_ctp :: "env \<Rightarrow> ptr \<Rightarrow> st \<Rightarrow> int \<times> st" where
  "cdma_u_delete_ctp E tp s =
     (if tp = NULL \<or> tp_dma_ctx (tps s tp) = NULL then (- EINVAL, s)
      else (let (ret, s1) = cdma_cmd_delete_ctp E tp s in (ret, sys_free tp s1)))"

section \<open>Segments\<close>

definition cdma_fill_seg :: "dma_seg_cfg \<Rightarrow> dma_seg \<Rightarrow> dma_seg" where
  "cdma_fill_seg cfg seg =
     seg\<lparr>seg_len := scfg_len cfg, seg_sva := scfg_addr cfg, seg_token_value := scfg_token_value cfg,
         seg_token_value_valid := scfg_token_value_valid cfg\<rparr>"

definition cdma_register_kernel_seg :: "env \<Rightarrow> ptr \<Rightarrow> dma_seg_cfg \<Rightarrow> ptr \<Rightarrow> st \<Rightarrow> int \<times> st" where
  "cdma_register_kernel_seg E ctx cfg seg s =
     (let ((ret, out), s1) = sys_ioctl E (ctx_fd s ctx) (CDMA_CMD_REGISTER_SEG (scfg_addr cfg) (scfg_len cfg)) s in
      if ret \<noteq> 0 then (ret, s1)
      else (0, s1\<lparr>segs := (segs s1)(seg := (segs s1 seg)\<lparr>seg_handle := out_handle out\<rparr>)\<rparr>))"

definition cdma_register_seg :: "env \<Rightarrow> ptr \<Rightarrow> dma_seg_cfg \<Rightarrow> st \<Rightarrow> ptr \<times> st" where
  "cdma_register_seg E ctx cfg s =
     (let (seg, s1) = sys_alloc E ObjSeg s in
      if seg = NULL then (NULL, s1)
      else (let v = (cdma_fill_seg cfg zero_seg)\<lparr>seg_tid := dctx_tid (ctx_dma_ctx (ctxs s1 ctx))\<rparr>;
                s2 = s1\<lparr>segs := (segs s1)(seg := v)\<rparr>;
                (ret, s3) = ummu_grant E (seg_tid v) (seg_sva v) (seg_len v) (scfg_token_value cfg) s2
            in if ret \<noteq> 0 then (NULL, sys_free seg s3)
               else (let (ret, s4) = cdma_register_kernel_seg E ctx cfg seg s3 in
                     if ret \<noteq> 0
                     then (NULL, sys_free seg (snd (ummu_ungrant E (seg_tid v) (seg_sva v) (seg_len v) s4)))
                     else (seg, s4))))"

definition cdma_unregister_kernel_seg :: "env \<Rightarrow> ptr \<Rightarrow> ptr \<Rightarrow> st \<Rightarrow> st" where
  "cdma_unregister_kernel_seg E ctx seg s =
     snd (sys_ioctl E (ctx_fd s ctx) (CDMA_CMD_UNREGISTER_SEG (seg_handle (segs s seg))) s)"

definition cdma_unregister_seg :: "env \<Rightarrow> ptr \<Rightarrow> ptr \<Rightarrow> st \<Rightarrow> st" where
  "cdma_unregister_seg E ctx seg s =
     (let s1 = cdma_unregister_kernel_seg E ctx seg s; v = segs s1 seg in
      sys_free seg (snd (ummu_ungrant E (seg_tid v) (seg_sva v) (seg_len v) s1)))"

definition cdma_import_seg :: "env \<Rightarrow> dma_seg_cfg \<Rightarrow> st \<Rightarrow> ptr \<times> st" where
  "cdma_import_seg E cfg s =
     (let (seg, s1) = sys_alloc E ObjSeg s in
      if seg = NULL then (NULL, s1)
      else (seg, s1\<lparr>segs := (segs s1)(seg := (cdma_fill_seg cfg zero_seg)\<lparr>seg_tid := scfg_tid cfg\<rparr>)\<rparr>))"

definition cdma_unimport_seg :: "ptr \<Rightarrow> st \<Rightarrow> st" where
  "cdma_unimport_seg seg s = sys_free seg s"

section \<open>Contexts\<close>

definition set_ctx :: "ptr \<Rightarrow> cdma_u_context \<Rightarrow> st \<Rightarrow> st" where
  "set_ctx ctx c s = s\<lparr>ctxs := (ctxs s)(ctx := c)\<rparr>"

definition cdma_u_init_context :: "env \<Rightarrow> kout \<Rightarrow> cdma_u_context \<Rightarrow> cdma_u_context" where
  "cdma_u_init_context E out c =
     c\<lparr>ctx_page_size := e_pagesize E, ctx_db := (ctx_db c)\<lparr>db_id := CDMA_JFC_DB_OFFSET, db_type := CDMA_MMAP_JFC_PAGE\<rparr>,
       ctx_cqe_size := out_cqe_size out, ctx_dwqe_enable := out_dwqe_enable out,
       ctx_st64b_en := (and (out_rsv_bitmap out) CDMA_CTX_RSP_ST64B_EN \<noteq> 0 \<and> out_st64b_en out \<noteq> 0),
       ctx_async_fd := out_async_fd out, ctx_dma_ctx := (ctx_dma_ctx c)\<lparr>dctx_async_fd := out_async_fd out\<rparr>\<rparr>"

definition cdma_create_kernel_context :: "env \<Rightarrow> ptr \<Rightarrow> st \<Rightarrow> int \<times> st" where
  "cdma_create_kernel_context E ctx s =
     (let ((ret, out), s1) = sys_ioctl E (ctx_fd s ctx) CDMA_CMD_CREATE_CTX s in
      if ret \<noteq> 0 then (ret, s1) else (0, set_ctx ctx (cdma_u_init_context E out (ctxs s1 ctx)) s1))"

definition cdma_delete_kernel_context :: "env \<Rightarrow> ptr \<Rightarrow> st \<Rightarrow> st" where
  "cdma_delete_kernel_context E ctx s =
     (let c = ctxs s ctx;
          s1 = (if ctx_async_fd c \<ge> 0
                then set_ctx ctx (c\<lparr>ctx_async_fd := - 1\<rparr>) (sys_close (ctx_async_fd c) s) else s)
      in snd (sys_ioctl E (ctx_fd s1 ctx) CDMA_CMD_DELETE_CTX s1))"

definition cdma_create_context :: "env \<Rightarrow> ptr \<Rightarrow> st \<Rightarrow> (ptr \<times> st) option" where
  "cdma_create_context E dma_dev s =
     (let (ctx, s1) = sys_alloc E ObjCtx s in
      if ctx = NULL then Some (NULL, s1)
      else (let s2 = set_ctx ctx (zero_context\<lparr>ctx_dma_ctx := zero_dma_context\<lparr>dctx_dma_dev := dma_dev\<rparr>\<rparr>) s1;
                (r, s3) = sys_mutex_init E ctx s2
            in if r \<noteq> 0 then Some (NULL, sys_free ctx s3)
               else (let ((ret, tid), s4) = ummu_allocate_tid E s3;
                         c = ctxs s4 ctx;
                         s5 = set_ctx ctx (c\<lparr>ctx_dma_ctx := (ctx_dma_ctx c)\<lparr>dctx_tid := tid\<rparr>\<rparr>) s4
                 in if ret \<noteq> 0 then Some (NULL, sys_free ctx (emit (EvMutexDestroy ctx) s5))
                    else (let (ret, s6) = cdma_create_kernel_context E ctx s5 in
                      if ret \<noteq> 0
                      then Some (NULL, sys_free ctx (emit (EvMutexDestroy ctx) (emit (EvFreeTid tid) s6)))
                      else do {
                        (ret, db, s7) \<leftarrow> cdma_u_alloc_db E ctx (ctx_db (ctxs s6 ctx)) s6;
                        let s8 = set_ctx ctx ((ctxs s7 ctx)\<lparr>ctx_db := db\<rparr>) s7;
                        if ret \<noteq> 0
                        then Some (NULL, sys_free ctx (emit (EvMutexDestroy ctx)
                               (emit (EvFreeTid tid) (cdma_delete_kernel_context E ctx s8))))
                        else Some (ctx, s8)
                      }))))"

definition cdma_delete_context :: "env \<Rightarrow> ptr \<Rightarrow> st \<Rightarrow> st option" where
  "cdma_delete_context E ctx s = do {
     (db, s1) \<leftarrow> cdma_u_free_db ctx (ctx_db (ctxs s ctx)) s;
     let s2 = cdma_delete_kernel_context E ctx (set_ctx ctx ((ctxs s1 ctx)\<lparr>ctx_db := db\<rparr>) s1);
     Some (sys_free ctx (emit (EvMutexDestroy ctx) (emit (EvFreeTid (dctx_tid (ctx_dma_ctx (ctxs s2 ctx)))) s2)))
   }"

section \<open>Transport channels have a lifecycle\<close>

definition ctp_frame :: "st \<Rightarrow> st \<Rightarrow> bool" where
  "ctp_frame s s' \<longleftrightarrow> devs s' = devs s \<and> ctxs s' = ctxs s \<and> pages s' = pages s \<and> jfces s' = jfces s
     \<and> jfcs s' = jfcs s \<and> jfss s' = jfss s \<and> queues s' = queues s \<and> segs s' = segs s"

definition ctp_valid :: "ptr \<Rightarrow> st \<Rightarrow> ptr \<Rightarrow> bool" where
  "ctp_valid ctx s x \<longleftrightarrow> x \<noteq> NULL \<and> tp_dma_ctx (tps s x) = ctx \<and> ctx \<noteq> NULL \<and> ctx_dev s ctx \<noteq> NULL \<and> 0 \<le> ctx_fd s ctx"

definition ctp_res :: "ptr \<Rightarrow> st \<Rightarrow> ptr \<Rightarrow> resource multiset" where
  "ctp_res ctx s x = {#RMem x, RCtp (ctx_fd s ctx) (tp_tpn (tps s x))#}"

lemma create_ctp_spec:
  assumes ok: "sys_ok E k" and run: "cdma_u_create_ctp E ctx cfg s = (p, s')"
  shows "ctp_frame s s' \<and> (\<forall>y. RMem y \<in># live s \<longrightarrow> tps s' y = tps s y)
     \<and> (if p = NULL then live s' = live s else RMem p \<notin># live s \<and> ctp_valid ctx s' p \<and> live s' = live s + ctp_res ctx s' p)"
proof -
  obtain q s1 where q: "sys_alloc E ObjTp s = (q, s1)" by (cases "sys_alloc E ObjTp s")
  note q' = sys_alloc_fresh [OF ok q]
  show ?thesis
    using run q q'
    by (auto simp: cdma_u_create_ctp_def cdma_cmd_create_ctp_def sys_ioctl_def sys_free_def Let_def split_beta
        ctp_valid_def ctp_res_def ctp_frame_def ctx_fd_def ctx_dev_def live_simps split: if_splits)
qed

lemma delete_ctp_spec:
  assumes "ctp_valid ctx s x"
  shows "live (snd (cdma_u_delete_ctp E x s)) = live s - ctp_res ctx s x"
    and "ctp_frame s (snd (cdma_u_delete_ctp E x s))" and "tps (snd (cdma_u_delete_ctp E x s)) = tps s"
  using assms by (auto simp: cdma_u_delete_ctp_def cdma_cmd_delete_ctp_def sys_ioctl_def sys_free_def Let_def split_beta
      ctp_valid_def ctp_res_def ctp_frame_def live_simps diff_diff_eq add_mset_commute)

interpretation ctp: lifecycle "\<lambda>s. sys_ok E k" live "ctp_valid ctx" "ctp_res ctx"
  "\<lambda>s obj s'. \<exists>cfg. outcome (cdma_u_create_ctp E ctx cfg s) obj s'" "\<lambda>s x s'. s' = snd (cdma_u_delete_ctp E x s)"
  for E k ctx
proof (unfold_locales, goal_cases)
  case (1 s x s')
  then show ?case using create_ctp_spec [of E k ctx _ s x s'] by auto
next
  case (2 s s')
  then show ?case using create_ctp_spec [of E k ctx _ s NULL s'] by auto
next
  case (3 s r s' y)
  obtain p cfg where p: "cdma_u_create_ctp E ctx cfg s = (p, s')" "r = (if p = NULL then None else Some p)"
    using 3(2) by (auto elim: outcomeE)
  have y: "RMem y \<in># live s" using 3(4) by (auto simp: ctp_res_def dest: mset_subset_eqD)
  from create_ctp_spec [OF 3(1) p(1)]
  have "tps s' y = tps s y" "ctp_frame s s'" "p \<noteq> NULL \<Longrightarrow> RMem p \<notin># live s" using y by (auto split: if_splits)
  then show ?case using 3(3) p(2) y ctx_fd_cong [of s' s] by (auto simp: ctp_valid_def ctp_res_def ctp_frame_def)
next
  case (4 s x s')
  then show ?case using delete_ctp_spec [OF 4(2), of E] by simp
next
  case (5 s x y s')
  then show ?case using delete_ctp_spec [OF 5(2), of E] ctx_fd_cong [of s' s]
    by (simp add: ctp_valid_def ctp_res_def ctp_frame_def)
qed

section \<open>Segments have a lifecycle\<close>

definition seg_res :: "ptr \<Rightarrow> st \<Rightarrow> ptr \<Rightarrow> resource multiset" where
  "seg_res ctx s x = (let v = segs s x in
     {#RMem x, RSeg (ctx_fd s ctx) (seg_handle v), RGrant (seg_tid v) (seg_sva v) (seg_len v)#})"

definition seg_frame :: "st \<Rightarrow> st \<Rightarrow> bool" where
  "seg_frame s s' \<longleftrightarrow> devs s' = devs s \<and> ctxs s' = ctxs s"

lemma register_seg_spec:
  assumes ok: "sys_ok E k" and run: "cdma_register_seg E ctx cfg s = (p, s')"
  shows "seg_frame s s' \<and> (\<forall>y. RMem y \<in># live s \<longrightarrow> segs s' y = segs s y)
     \<and> (if p = NULL then live s' = live s else RMem p \<notin># live s \<and> live s' = live s + seg_res ctx s' p
          \<and> segs s' p = (cdma_fill_seg cfg zero_seg)\<lparr>seg_tid := dctx_tid (ctx_dma_ctx (ctxs s ctx)),
                seg_handle := seg_handle (segs s' p)\<rparr>)"
proof -
  obtain q s1 where q: "sys_alloc E ObjSeg s = (q, s1)" by (cases "sys_alloc E ObjSeg s")
  note q' = sys_alloc_fresh [OF ok q]
  show ?thesis
    using run q q'
    by (auto simp: cdma_register_seg_def cdma_register_kernel_seg_def cdma_fill_seg_def ummu_grant_def ummu_ungrant_def
        sys_ioctl_def sys_free_def Let_def split_beta seg_res_def seg_frame_def ctx_fd_def ctx_dev_def live_simps split: if_splits)
qed

lemma unregister_seg_spec:
  assumes "x \<noteq> NULL"
  shows "live (cdma_unregister_seg E ctx x s) = live s - seg_res ctx s x"
    and "seg_frame s (cdma_unregister_seg E ctx x s)" and "segs (cdma_unregister_seg E ctx x s) = segs s"
  using assms by (auto simp: cdma_unregister_seg_def cdma_unregister_kernel_seg_def ummu_ungrant_def sys_ioctl_def
      sys_free_def Let_def split_beta seg_res_def seg_frame_def live_simps diff_diff_eq add_mset_commute)

interpretation seg: lifecycle "\<lambda>s. sys_ok E k" live "\<lambda>s x. x \<noteq> NULL" "seg_res ctx"
  "\<lambda>s obj s'. \<exists>cfg. outcome (cdma_register_seg E ctx cfg s) obj s'" "\<lambda>s x s'. s' = cdma_unregister_seg E ctx x s"
  for E k ctx
proof (unfold_locales, goal_cases)
  case (1 s x s')
  then show ?case using register_seg_spec [of E k ctx _ s x s'] by auto
next
  case (2 s s')
  then show ?case using register_seg_spec [of E k ctx _ s NULL s'] by auto
next
  case (3 s r s' y)
  obtain p cfg where p: "cdma_register_seg E ctx cfg s = (p, s')" "r = (if p = NULL then None else Some p)"
    using 3(2) by (auto elim: outcomeE)
  have y: "RMem y \<in># live s" using 3(4) by (auto simp: seg_res_def Let_def dest: mset_subset_eqD)
  from register_seg_spec [OF 3(1) p(1)]
  have "segs s' y = segs s y" "seg_frame s s'" "p \<noteq> NULL \<Longrightarrow> RMem p \<notin># live s" using y by (auto split: if_splits)
  then show ?case using 3(3) p(2) y ctx_fd_cong [of s' s] by (auto simp: seg_res_def seg_frame_def)
next
  case (4 s x s')
  then show ?case using unregister_seg_spec [where E = E and ctx = ctx and s = s, OF 4(2)] by simp
next
  case (5 s x y s')
  then show ?case using unregister_seg_spec [where E = E and ctx = ctx and s = s, OF 5(2)] ctx_fd_cong [of s' s]
    by (simp add: seg_res_def seg_frame_def)
qed

section \<open>Contexts have a lifecycle\<close>

definition context_res :: "nat \<Rightarrow> st \<Rightarrow> ptr \<Rightarrow> resource multiset" where
  "context_res k s x = (let c = ctxs s x in
     {#RMem x, RMutex x, RTid (dctx_tid (ctx_dma_ctx c)), RCtx (ctx_fd s x)#} + db_res k (ctx_db c)
       + (if ctx_async_fd c < 0 then {#} else {#RFd (ctx_async_fd c)#}))"

definition context_valid :: "nat \<Rightarrow> st \<Rightarrow> ptr \<Rightarrow> bool" where
  "context_valid k s x \<longleftrightarrow> x \<noteq> NULL \<and> ctx_page_size (ctxs s x) = 2 ^ k \<and> db_mapped k (ctx_db (ctxs s x))"

lemma create_context_spec:
  assumes ok: "sys_ok E k"
  shows "\<exists>p s'. cdma_create_context E dev s = Some (p, s') \<and> devs s' = devs s
     \<and> (\<forall>y. RMem y \<in># live s \<longrightarrow> ctxs s' y = ctxs s y)
     \<and> (if p = NULL then live s' = live s
        else RMem p \<notin># live s \<and> context_valid k s' p \<and> live s' = live s + context_res k s' p \<and> ctx_page (ctxs s' p) = NULL
          \<and> ctx_dev s' p = dev)"
proof -
  obtain p s1 where q: "sys_alloc E ObjCtx s = (p, s1)" by (cases "sys_alloc E ObjCtx s")
  note q' = sys_alloc_fresh [OF ok q]
  show ?thesis
  proof (cases "p = NULL")
    case True
    then show ?thesis using q q' by (auto simp: cdma_create_context_def live_simps)
  next
    case p: False
    let ?c = "zero_context\<lparr>ctx_dma_ctx := zero_dma_context\<lparr>dctx_dma_dev := dev\<rparr>\<rparr>"
    define s3 where "s3 = snd (sys_mutex_init E p (set_ctx p ?c s1))"
    define r3 where "r3 = fst (sys_mutex_init E p (set_ctx p ?c s1))"
    have m: "sys_mutex_init E p (set_ctx p ?c s1) = (r3, s3)" by (simp add: r3_def s3_def)
    have s3: "live s3 = live s + {#RMem p#} + (if r3 = 0 then {#RMutex p#} else {#})" "devs s3 = devs s"
        "ctxs s3 = (ctxs s)(p := ?c)"
      using q' p m by (auto simp: sys_mutex_init_def set_ctx_def Let_def live_simps)
    show ?thesis
    proof (cases "r3 = 0")
      case False
      then show ?thesis using q q' p m s3
        by (auto simp: cdma_create_context_def Let_def sys_free_def live_simps)
    next
      case r3: True
      obtain r4 tid s4 where t: "ummu_allocate_tid E s3 = ((r4, tid), s4)" by (metis surj_pair)
      have s4: "live s4 = live s3 + (if r4 = 0 then {#RTid tid#} else {#})" "devs s4 = devs s3" "ctxs s4 = ctxs s3"
        using t by (auto simp: ummu_allocate_tid_def Let_def split_beta live_simps)
      show ?thesis
      proof (cases "r4 = 0")
        case False
        then show ?thesis using q q' p m s3 r3 t s4
          by (auto simp: cdma_create_context_def Let_def sys_free_def set_ctx_def live_simps)
      next
        case r4: True
        let ?s5 = "set_ctx p ((ctxs s4 p)\<lparr>ctx_dma_ctx := (ctx_dma_ctx (ctxs s4 p))\<lparr>dctx_tid := tid\<rparr>\<rparr>) s4"
        obtain r6 s6 where c: "cdma_create_kernel_context E p ?s5 = (r6, s6)" by (metis surj_pair)
        show ?thesis
        proof (cases "r6 = 0")
          case False
          then have "live s6 = live s4" "devs s6 = devs s" "ctxs s6 = ctxs ?s5"
            using c s4 s3 by (auto simp: cdma_create_kernel_context_def sys_ioctl_def Let_def split_beta set_ctx_def live_simps split: if_splits)
          then show ?thesis using q q' p m s3 r3 t s4 r4 c False
            by (auto simp: cdma_create_context_def Let_def sys_free_def set_ctx_def live_simps)
        next
          case r6: True
          obtain out where out: "ctxs s6 = (ctxs ?s5)(p := cdma_u_init_context E out (ctxs ?s5 p))"
              "live s6 = live s4 + add_mset (RCtx (ctx_fd ?s5 p)) (if out_async_fd out < 0 then {#} else {#RFd (out_async_fd out)#})"
              "devs s6 = devs s"
            using c s4 s3 r6
            by (auto simp: cdma_create_kernel_context_def sys_ioctl_def Let_def split_beta set_ctx_def live_simps split: if_splits)
          have ps: "ctx_page_size (ctxs s6 p) = 2 ^ k"
            using ok by (simp add: out(1) cdma_u_init_context_def sys_ok_def)
          from cdma_u_alloc_db_mapped [OF ok ps, of "ctx_db (ctxs s6 p)"]
          obtain r7 db s7 t7 where a: "cdma_u_alloc_db E p (ctx_db (ctxs s6 p)) s6 = Some (r7, db, s7)" "s7 = s6\<lparr>tr := t7\<rparr>"
            and a': "if r7 = 0 then live s7 = live s6 + db_res k db \<and> db_mapped k db else r7 = - EINVAL \<and> live s7 = live s6"
            by blast
          have c6: "ctxs s6 p = cdma_u_init_context E out (?c\<lparr>ctx_dma_ctx := zero_dma_context\<lparr>dctx_dma_dev := dev, dctx_tid := tid\<rparr>\<rparr>)"
            using out(1) s4 s3 by (simp add: set_ctx_def)
          have fd: "ctx_fd ?s5 p = dev_fd (devs s dev)"
            using s4 s3 by (simp add: ctx_fd_def ctx_dev_def set_ctx_def)
          have "ctx_page zero_context = NULL" by (simp add: zero_context_def)
          then show ?thesis
            using q q' p m s3 r3 t s4 r4 c out ps a a' c6 fd r6
            by (auto simp: cdma_create_context_def Let_def sys_free_def set_ctx_def live_simps cdma_delete_kernel_context_def
               context_valid_def context_res_def ctx_fd_def ctx_dev_def cdma_u_init_context_def sys_close_def sys_ioctl_def split_beta live_def
               split: if_splits)
        qed
      qed
    qed
  qed
qed

lemma delete_context_spec:
  assumes "context_valid k s x"
  shows "\<exists>s'. cdma_delete_context E x s = Some s' \<and> devs s' = devs s \<and> (\<forall>y. y \<noteq> x \<longrightarrow> ctxs s' y = ctxs s y)
     \<and> live s' = live s - context_res k s x"
proof -
  have v: "x \<noteq> NULL" "ctx_page_size (ctxs s x) = 2 ^ k" "db_mapped k (ctx_db (ctxs s x))"
    using assms by (simp_all add: context_valid_def)
  obtain t where t: "cdma_u_free_db x (ctx_db (ctxs s x)) s = Some ((ctx_db (ctxs s x))\<lparr>db_addr := NULL\<rparr>, s\<lparr>tr := t\<rparr>)"
    "live_of t = live s - db_res k (ctx_db (ctxs s x))"
    using cdma_u_free_db_mapped [OF v(3,2)] by blast
  have "s\<lparr>tr := t, ctxs := a\<rparr>\<lparr>tr := t'\<rparr> = s\<lparr>tr := t', ctxs := a\<rparr>" for a t' by simp
  show ?thesis
    using t v(1)
    by (auto simp: cdma_delete_context_def cdma_delete_kernel_context_def Let_def split_beta set_ctx_def sys_close_def sys_ioctl_def
        sys_free_def live_simps live_def context_res_def ctx_fd_def ctx_dev_def diff_diff_eq add_mset_commute)
qed

interpretation ctxt: lifecycle "\<lambda>s. sys_ok E k" live "context_valid k" "context_res k"
  "\<lambda>s obj s'. \<exists>dev r. cdma_create_context E dev s = Some r \<and> outcome r obj s'" "\<lambda>s x s'. cdma_delete_context E x s = Some s'"
  for E k
proof (unfold_locales, goal_cases)
  case (1 s x s')
  then obtain dev where "cdma_create_context E dev s = Some (x, s')" "x \<noteq> NULL" by auto
  then show ?case using create_context_spec [OF 1(1), of dev s] 1(1) by auto
next
  case (2 s s')
  then obtain dev where "cdma_create_context E dev s = Some (NULL, s')" by auto
  then show ?case using create_context_spec [OF 2(1), of dev s] 2(1) by auto
next
  case (3 s r s' y)
  obtain dev p where p: "cdma_create_context E dev s = Some (p, s')" "r = (if p = NULL then None else Some p)"
    using 3(2) by (auto elim: outcomeE)
  have y: "RMem y \<in># live s" using 3(4) by (auto simp: context_res_def Let_def dest: mset_subset_eqD)
  from create_context_spec [OF 3(1), of dev s] p(1)
  have "ctxs s' y = ctxs s y" "devs s' = devs s" "p \<noteq> NULL \<Longrightarrow> RMem p \<notin># live s" using y by (auto split: if_splits)
  then show ?case using 3(3) p(2) y by (auto simp: context_valid_def context_res_def ctx_fd_def ctx_dev_def)
next
  case (4 s x s')
  then show ?case using delete_context_spec [OF 4(2), of E] by auto
next
  case (5 s x y s')
  then show ?case using delete_context_spec [OF 5(2), of E]
    by (auto simp: context_valid_def context_res_def ctx_fd_def ctx_dev_def)
qed

section \<open>Nothing leaks\<close>

text \<open>
  C14: after any sequence of creations of contexts, successful or failed at any of their steps, and
  deletions of contexts that exist, what the process owns in addition is exactly what the remaining
  contexts own: their memory, lock, IOMMU identifier, kernel context, event descriptor and mapped
  doorbell page, each once.
\<close>

theorem contexts_no_leak:
  assumes "life_run (\<lambda>s obj s'. \<exists>dev r. cdma_create_context E dev s = Some r \<and> outcome r obj s')
      (\<lambda>s x s'. cdma_delete_context E x s = Some s') s ops s'"
    and "sys_ok E k" and "deletes_held [] ops"
  shows "live s' = live s + holdings (context_res k) s' (held_objs [] ops)
     \<and> (\<forall>x\<in>set (held_objs [] ops). context_valid k s' x)"
  using ctxt.run_balance [OF assms(1,2,3), of "live s"] by simp

text \<open>
  C15: the same for segments of memory: their memory and, for each, the kernel's registration and the grant of the
  IOMMU.
\<close>

theorem segs_no_leak:
  assumes "life_run (\<lambda>s obj s'. \<exists>cfg. outcome (cdma_register_seg E ctx cfg s) obj s')
      (\<lambda>s x s'. s' = cdma_unregister_seg E ctx x s) s ops s'"
    and "sys_ok E k" and "deletes_held [] ops"
  shows "live s' = live s + holdings (seg_res ctx) s' (held_objs [] ops)"
  using seg.run_balance [OF assms(1,2,3), of "live s"] by simp

lemma contexts_no_leak_witness:
  "\<exists>p s1 s2. cdma_create_context demo_sys 0x30 init_st = Some (p, s1) \<and> p \<noteq> NULL
     \<and> cdma_delete_context demo_sys p s1 = Some s2 \<and> live s1 \<noteq> {#} \<and> live s2 = {#}"
proof -
  have "map_option (\<lambda>(p, s1). p \<noteq> NULL) (cdma_create_context demo_sys 0x30 init_st) = Some True" by code_simp
  then obtain p s1 where c: "cdma_create_context demo_sys 0x30 init_st = Some (p, s1)" "p \<noteq> NULL" by auto
  from create_context_spec [OF demo_sys_ok, of "0x30" init_st] c have v: "context_valid 12 s1 p" by auto
  from delete_context_spec [OF v] obtain s2 where d: "cdma_delete_context demo_sys p s1 = Some s2" by blast
  have "live s1 = live init_st + holdings (context_res 12) s1 (held_objs [] [Created p])
      \<and> (\<forall>x\<in>set (held_objs [] [Created p]). context_valid 12 s1 x)"
    by (rule contexts_no_leak [OF _ demo_sys_ok]) (use c in \<open>auto intro!: life_run.intros\<close>)
  moreover have "live s2 = live init_st + holdings (context_res 12) s2 (held_objs [] [Created p, Deleted p])
      \<and> (\<forall>x\<in>set (held_objs [] [Created p, Deleted p]). context_valid 12 s2 x)"
    by (rule contexts_no_leak [OF _ demo_sys_ok]) (use c d in \<open>auto intro!: life_run.intros\<close>)
  moreover have "live init_st = {#}" by (simp add: live_def init_st_def)
  ultimately show ?thesis using c d by (auto simp: context_res_def Let_def)
qed

definition demo_seg_cfg :: dma_seg_cfg where
  "demo_seg_cfg = \<lparr>scfg_addr = 0x10000, scfg_len = 64, scfg_token_value = 0, scfg_tid = 0, scfg_token_value_valid = False\<rparr>"

lemma segs_no_leak_witness:
  "\<exists>p s1. cdma_register_seg demo_sys 0x40 demo_seg_cfg init_st = (p, s1) \<and> p \<noteq> NULL
     \<and> live s1 \<noteq> {#} \<and> live (cdma_unregister_seg demo_sys 0x40 p s1) = {#}"
proof -
  have "fst (cdma_register_seg demo_sys 0x40 demo_seg_cfg init_st) \<noteq> NULL" by code_simp
  then obtain p s1 where c: "cdma_register_seg demo_sys 0x40 demo_seg_cfg init_st = (p, s1)" "p \<noteq> NULL"
    by (cases "cdma_register_seg demo_sys 0x40 demo_seg_cfg init_st") auto
  let ?s2 = "cdma_unregister_seg demo_sys 0x40 p s1"
  have o: "\<exists>cfg. outcome (cdma_register_seg demo_sys 0x40 cfg init_st) (Some p) s1" using c by (auto intro!: exI [of _ demo_seg_cfg])
  have "live s1 = live init_st + holdings (seg_res 0x40) s1 (held_objs [] [Created p])"
    by (rule segs_no_leak [OF _ demo_sys_ok]) (use o in \<open>auto intro!: life_run.intros\<close>)
  moreover have "live ?s2 = live init_st + holdings (seg_res 0x40) ?s2 (held_objs [] [Created p, Deleted p])"
    by (rule segs_no_leak [OF _ demo_sys_ok]) (use o in \<open>auto intro!: life_run.intros\<close>)
  moreover have "live init_st = {#}" by (simp add: live_def init_st_def)
  ultimately show ?thesis using c by (auto simp: seg_res_def Let_def)
qed

end
