(* ===== verification/Cdma_Queue.thy ===== *)
theory Cdma_Queue
  imports Cdma_Jfs Cdma_Tp
begin

text \<open>
  The queue a user sees (\<open>cdma_u_queue.c\<close>): an event channel, a completion queue, a transport
  channel and a send queue, built in this order over the queue object of the kernel and torn down
  in the reverse one.
\<close>

definition set_queue :: "ptr \<Rightarrow> cdma_u_queue \<Rightarrow> st \<Rightarrow> st" where
  "set_queue q v s = s\<lparr>queues := (queues s)(q := v)\<rparr>"

definition cdma_u_cmd_create_queue :: "env \<Rightarrow> ptr \<Rightarrow> ptr \<Rightarrow> queue_cfg \<Rightarrow> st \<Rightarrow> int \<times> st" where
  "cdma_u_cmd_create_queue E ctx q cfg s =
     (if ctx_dev s ctx = NULL \<or> ctx_fd s ctx < 0 then (- EINVAL, s)
      else (let rin = \<lparr>quei_queue_depth = qcfg_queue_depth cfg, quei_dcna = qcfg_dcna cfg,
                  quei_rmt_eid = dw0 (qcfg_rmt_eid cfg), quei_priority = qcfg_priority cfg,
                  quei_user_ctx = qcfg_user_ctx cfg, quei_trans_mode = qcfg_trans_mode cfg\<rparr>;
                ((ret, out), s1) = sys_ioctl E (ctx_fd s ctx) (CDMA_CMD_CREATE_QUEUE rin) s
            in if ret \<noteq> 0 then (ret, s1)
               else (ret, set_queue q ((queues s1 q)\<lparr>que_handle := out_handle out,
                      que_queue_id := word_of_int (out_queue_id out)\<rparr>) s1)))"

definition cdma_u_cmd_delete_queue :: "env \<Rightarrow> ptr \<Rightarrow> st \<Rightarrow> int \<times> st" where
  "cdma_u_cmd_delete_queue E q s =
     (let v = queues s q; ctx = que_ctx v in
      if ctx = NULL \<or> ctx_dev s ctx = NULL \<or> ctx_fd s ctx < 0 then (- EINVAL, s)
      else (let ((ret, _), s1) = sys_ioctl E (ctx_fd s ctx) (CDMA_CMD_DELETE_QUEUE (que_queue_id v) (que_handle v)) s
            in (ret, s1)))"

section \<open>Configurations\<close>

definition cdma_assemble_jfs_cfg :: "dma_jfs_cfg \<Rightarrow> dma_device \<Rightarrow> queue_cfg \<Rightarrow> u32 \<Rightarrow> dma_jfs_cfg" where
  "cdma_assemble_jfs_cfg c dev cfg queue_id =
     c\<lparr>jfs_cfg_err_timeout := CDMA_TYPICAL_ERR_TIMEOUT,
       jfs_cfg_max_rsge := ucast (max_jfs_rsge (attr_dev_cap (dev_attr dev))),
       jfs_cfg_max_sge := ucast (max_jfs_sge (attr_dev_cap (dev_attr dev))),
       jfs_cfg_rnr_retry := CDMA_TYPICAL_RNR_RETRY,
       jfs_cfg_eid_idx := eu_eid_idx (attr_eu (dev_attr dev)),
       jfs_cfg_depth := qcfg_queue_depth cfg,
       jfs_cfg_priority := qcfg_priority cfg,
       jfs_cfg_queue_id := queue_id,
       jfs_cfg_rmt_eid := dw0 (qcfg_rmt_eid cfg),
       jfs_cfg_trans_mode := qcfg_trans_mode cfg\<rparr>"

definition cdma_assemble_tp_cfg :: "dma_tp_cfg \<Rightarrow> dma_device \<Rightarrow> queue_cfg \<Rightarrow> u32 \<Rightarrow> dma_tp_cfg" where
  "cdma_assemble_tp_cfg c dev cfg queue_id =
     c\<lparr>tp_cfg_seid := dw0 (eu_eid (attr_eu (dev_attr dev))),
       tp_cfg_deid := dw0 (qcfg_rmt_eid cfg),
       tp_cfg_dcna := qcfg_dcna cfg,
       tp_cfg_queue_id := queue_id\<rparr>"

definition cdma_assemble_jfc_cfg :: "dma_jfc_cfg \<Rightarrow> queue_cfg \<Rightarrow> u32 \<Rightarrow> dma_jfc_cfg" where
  "cdma_assemble_jfc_cfg c cfg queue_id =
     c\<lparr>jfc_cfg_depth := qcfg_queue_depth cfg,
       jfc_cfg_user_ctx := qcfg_user_ctx cfg,
       jfc_cfg_queue_id := queue_id\<rparr>"

section \<open>The completion side\<close>

text \<open>The caller's configuration gets the event channel: it is a result.\<close>

definition cdma_u_alloc_jfc_res ::
  "env \<Rightarrow> ptr \<Rightarrow> ptr \<Rightarrow> queue_cfg \<Rightarrow> dma_jfc_cfg \<Rightarrow> st \<Rightarrow> (int \<times> dma_jfc_cfg \<times> st) option" where
  "cdma_u_alloc_jfc_res E ctx q cfg jc s =
     (let (jfce, s1) = cdma_u_create_jfce E ctx s; jc2 = jc\<lparr>jfc_cfg_jfce := jfce\<rparr> in
      if jfce = NULL then Some (- ENOMEM, jc2, s1)
      else do {
        (jfc, s2) \<leftarrow> cdma_u_create_jfc E ctx jc2 s1;
        if jfc = NULL then Some (- ENOMEM, jc2, snd (cdma_u_delete_jfce jfce s2))
        else (let (status, s3) = (if qcfg_event_mode cfg then cdma_u_rearm_jfc E jfc False s2 else (DMA_STATUS_OK, s2)) in
          if status \<noteq> DMA_STATUS_OK then do {
            (_, s4) \<leftarrow> cdma_u_delete_jfc E jfc s3;
            Some (- EFAULT, jc2, snd (cdma_u_delete_jfce jfce s4))
          }
          else Some (0, jc2, set_queue q ((queues s3 q)\<lparr>que_jfce := jfce, que_jfc := jfc\<rparr>) s3))
      })"

definition cdma_u_free_jfc_res :: "env \<Rightarrow> ptr \<Rightarrow> st \<Rightarrow> st option" where
  "cdma_u_free_jfc_res E q s = do {
     (_, s1) \<leftarrow> cdma_u_delete_jfc E (que_jfc (queues s q)) s;
     Some (snd (cdma_u_delete_jfce (que_jfce (queues s1 q)) s1))
   }"

section \<open>The whole queue\<close>

definition cdma_u_create_queue :: "env \<Rightarrow> ptr \<Rightarrow> queue_cfg \<Rightarrow> u32 \<Rightarrow> ptr \<Rightarrow> st \<Rightarrow> (int \<times> st) option" where
  "cdma_u_create_queue E ctx cfg queue_id q s =
     (if ctx = NULL \<or> ctx_dev s ctx = NULL then Some (- EINVAL, s)
      else do {
        let s1 = set_queue q ((queues s q)\<lparr>que_ctx := ctx, que_cfg := cfg\<rparr>) s;
        let dev = devs s1 (ctx_dev s1 ctx);
        let sc = cdma_assemble_jfs_cfg zero_jfs_cfg dev cfg queue_id;
        let tc = cdma_assemble_tp_cfg zero_tp_cfg dev cfg queue_id;
        (ret, jc, s2) \<leftarrow> cdma_u_alloc_jfc_res E ctx q cfg (cdma_assemble_jfc_cfg zero_jfc_cfg cfg queue_id) s1;
        if ret \<noteq> 0 then Some (ret, s2)
        else do {
          let (tp, s3) = cdma_u_create_ctp E ctx tc s2;
          let s4 = set_queue q ((queues s3 q)\<lparr>que_tp := tp\<rparr>) s3;
          if tp = NULL then do { s5 \<leftarrow> cdma_u_free_jfc_res E q s4; Some (- ENOMEM, s5) }
          else do {
            let sc2 = sc\<lparr>jfs_cfg_jfc := que_jfc (queues s4 q), jfs_cfg_tpn := tp_tpn (tps s4 tp)\<rparr>;
            (jfs, s5) \<leftarrow> cdma_u_create_jfs E ctx sc2 s4;
            let s6 = set_queue q ((queues s5 q)\<lparr>que_jfs := jfs\<rparr>) s5;
            if jfs = NULL then do {
              let (_, s7) = cdma_u_delete_ctp E (que_tp (queues s6 q)) s6;
              s8 \<leftarrow> cdma_u_free_jfc_res E q s7;
              Some (- ENOMEM, s8)
            }
            else Some (0, set_queue q ((queues s6 q)\<lparr>que_queue_cfg := \<lparr>cdma_jfc_cfg = jc,
                   cdma_jfs_cfg = sc2, cdma_tp_cfg = tc\<rparr>\<rparr>) s6)
          }
        }
      })"

definition cdma_u_delete_queue :: "env \<Rightarrow> ptr \<Rightarrow> st \<Rightarrow> st option" where
  "cdma_u_delete_queue E q s = do {
     (_, s1) \<leftarrow> cdma_u_delete_jfs E (que_jfs (queues s q)) s;
     let (_, s2) = cdma_u_delete_ctp E (que_tp (queues s1 q)) s1;
     cdma_u_free_jfc_res E q s2
   }"

definition cdma_alloc_queue :: "env \<Rightarrow> ptr \<Rightarrow> queue_cfg \<Rightarrow> st \<Rightarrow> (ptr \<times> st) option" where
  "cdma_alloc_queue E ctx cfg s =
     (let (q, s1) = sys_alloc E ObjQueue s in
      if q = NULL then Some (NULL, s1)
      else (let (ret, s2) = cdma_u_cmd_create_queue E ctx q cfg (set_queue q zero_queue s1) in
        if ret \<noteq> 0 then Some (NULL, sys_free q s2)
        else do {
          (ret, s3) \<leftarrow> cdma_u_create_queue E ctx cfg (ucast (que_handle (queues s2 q))) q s2;
          if ret \<noteq> 0 then Some (NULL, sys_free q (snd (cdma_u_cmd_delete_queue E q s3)))
          else Some (q, set_queue q ((queues s3 q)\<lparr>que_cfg := cfg, que_ctx := ctx\<rparr>) s3)
        }))"

definition cdma_free_queue :: "env \<Rightarrow> ptr \<Rightarrow> st \<Rightarrow> st option" where
  "cdma_free_queue E q s = do {
     s1 \<leftarrow> cdma_u_delete_queue E q s;
     Some (sys_free q (snd (cdma_u_cmd_delete_queue E q s1)))
   }"

end
