(* ===== verification/Cdma_Queue_Life.thy ===== *)
theory Cdma_Queue_Life
  imports Cdma_Queue
begin

text \<open>
  The lifecycle of a whole queue: what each step of \<open>cdma_alloc_queue\<close> and \<open>cdma_free_queue\<close>
  (\<open>cdma_u_queue.c\<close>) acquires, releases and leaves alone, on the paths that succeed and on those
  that back out, put together from the lifecycles of the event channel, the completion queue, the
  transport channel and the send queue.
\<close>

section \<open>What a step leaves alone\<close>

text \<open>
  The parts of a queue are created one after another on the same state, so each of them has to
  survive the steps that create or delete the others: \<open>part_frame ctx X\<close> says that a step changes
  the objects at the addresses \<open>X\<close> only. \<open>gains r\<close> and \<open>loses X r\<close> relate two states with their page
  lists.
\<close>

definition part_frame :: "ptr \<Rightarrow> ptr set \<Rightarrow> st \<Rightarrow> st \<Rightarrow> bool" where
  "part_frame ctx X s s' \<longleftrightarrow> devs s' = devs s \<and> segs s' = segs s
     \<and> (\<forall>c. (ctxs s' c)\<lparr>ctx_page := NULL\<rparr> = (ctxs s c)\<lparr>ctx_page := NULL\<rparr> \<and> (c \<noteq> ctx \<longrightarrow> ctxs s' c = ctxs s c))
     \<and> (\<forall>y. y \<notin> X \<longrightarrow> jfces s' y = jfces s y \<and> jfc_fixed (jfcs s' y) = jfc_fixed (jfcs s y)
          \<and> tps s' y = tps s y \<and> jfss s' y = jfss s y)"

type_synonym world = "st \<times> ptr list"

definition free_at :: "world \<Rightarrow> ptr \<Rightarrow> bool" where
  "free_at x p \<longleftrightarrow> Inl (RMem p) \<notin># db_bal x"

text \<open>The memory of \<open>r\<close> was nobody's and is in \<open>r\<close> once.\<close>

definition fresh_in :: "world \<Rightarrow> (resource + ptr) multiset \<Rightarrow> bool" where
  "fresh_in x r \<longleftrightarrow> (\<forall>p. count (r + db_bal x) (Inl (RMem p)) \<le> 1 \<or> Inl (RMem p) \<notin># r)"

definition gains :: "nat \<Rightarrow> ptr \<Rightarrow> world \<Rightarrow> (resource + ptr) multiset \<Rightarrow> world \<Rightarrow> bool" where
  "gains k ctx x r x' \<longleftrightarrow> with_pages k ctx x' \<and> part_frame ctx (Collect (free_at x)) (fst x) (fst x')
     \<and> db_bal x' = db_bal x + r \<and> fresh_in x r"

definition loses :: "nat \<Rightarrow> ptr \<Rightarrow> ptr set \<Rightarrow> world \<Rightarrow> (resource + ptr) multiset \<Rightarrow> world \<Rightarrow> bool" where
  "loses k ctx X x r x' \<longleftrightarrow> with_pages k ctx x' \<and> part_frame ctx X (fst x) (fst x') \<and> db_bal x = db_bal x' + r"

lemma part_frame_refl [simp]: "part_frame ctx X s s"
  by (simp add: part_frame_def)

lemma part_frame_trans: "part_frame ctx X s s1 \<Longrightarrow> part_frame ctx Y s1 s2 \<Longrightarrow> X \<subseteq> Z \<Longrightarrow> Y \<subseteq> Z \<Longrightarrow> part_frame ctx Z s s2"
  unfolding part_frame_def by (metis (no_types, lifting) subsetD)

lemma part_frame_upd [simp]:
  "part_frame ctx X s (emit e s') = part_frame ctx X s s'" "part_frame ctx X s (s'\<lparr>queues := f\<rparr>) = part_frame ctx X s s'"
  "part_frame ctx X s (set_queue q v s') = part_frame ctx X s s'"
  by (simp_all add: part_frame_def set_queue_def)

lemma fresh_in_empty [simp]: "fresh_in x {#}"
  by (simp add: fresh_in_def)

lemma fresh_in_add:
  assumes "fresh_in x r" and "db_bal x1 = db_bal x + r" and "fresh_in x1 r'"
  shows "fresh_in x (r + r')"
proof -
  have "count (r + r' + db_bal x) (Inl (RMem p)) \<le> 1 \<or> Inl (RMem p) \<notin># r + r'" for p
    using assms(1,3) unfolding fresh_in_def assms(2) by (auto simp: not_in_iff dest!: spec [of _ p])
  then show ?thesis by (simp add: fresh_in_def)
qed

lemma fresh_in_sub: "fresh_in x (r + r') \<Longrightarrow> fresh_in x r"
  unfolding fresh_in_def by (metis (no_types, lifting) add.assoc add_leD1 count_union le_add1 le_trans nat_add_left_cancel_le union_commute union_iff)

lemma gains_refl: "with_pages k ctx x \<Longrightarrow> gains k ctx x {#} x"
  by (simp add: gains_def)

lemma gains_trans:
  assumes "gains k ctx x r x1" and "gains k ctx x1 r' x2"
  shows "gains k ctx x (r + r') x2"
proof -
  have "Collect (free_at x1) \<subseteq> Collect (free_at x)" using assms(1) by (auto simp: gains_def free_at_def)
  then show ?thesis using assms part_frame_trans [of ctx _ "fst x" "fst x1" _ "fst x2" "Collect (free_at x)"]
    fresh_in_add [of x r x1 r'] by (auto simp: gains_def ac_simps)
qed

lemma gains_loses:
  assumes "gains k ctx x (r + r') x1" and "loses k ctx X x1 r' x2" and "X \<subseteq> Collect (free_at x)"
  shows "gains k ctx x r x2"
  using assms part_frame_trans [of ctx _ "fst x" "fst x1" _ "fst x2" "Collect (free_at x)"]
    fresh_in_sub [of x r r'] by (auto simp: gains_def loses_def simp flip: add.assoc)

lemma loses_trans:
  assumes "loses k ctx X x r x1" and "loses k ctx Y x1 r' x2"
  shows "loses k ctx (X \<union> Y) x (r + r') x2"
  using assms part_frame_trans [of ctx X "fst x" "fst x1" Y "fst x2" "X \<union> Y"] by (auto simp: loses_def ac_simps)

lemma gains_free: "gains k ctx x r x' \<Longrightarrow> free_at x' p \<Longrightarrow> free_at x p"
  by (auto simp: gains_def free_at_def)

lemma gains_pages: "gains k ctx x r x' \<Longrightarrow> with_pages k ctx x'"
  by (simp add: gains_def)

lemma loses_pages: "loses k ctx X x r x' \<Longrightarrow> with_pages k ctx x'"
  by (simp add: loses_def)

text \<open>Steps that leave the pages alone.\<close>

lemma free_at_live: "RMem p \<notin># live s \<Longrightarrow> free_at (s, as) p"
  by (auto simp: free_at_def db_bal_def dest: db_own_live)

definition mem_fresh :: "st \<Rightarrow> resource multiset \<Rightarrow> bool" where
  "mem_fresh s r \<longleftrightarrow> (\<forall>p. RMem p \<in># r \<longrightarrow> count r (RMem p) = 1 \<and> RMem p \<notin># live s)"

lemma count_image_Inl: "count (image_mset Inl r) (Inl x) = count r x"
  by (induction r) auto

lemma mem_fresh_in:
  assumes "mem_fresh s r"
  shows "fresh_in (s, as) (image_mset Inl r)" and "fresh_in (s, as) (image_mset Inl r + {#Inr d#})"
proof -
  have "count (image_mset Inl r + db_bal (s, as)) (Inl (RMem p)) \<le> 1 \<or> RMem p \<notin># r" for p
    using assms free_at_live [of p s as] count_image_Inl [of r "RMem p"]
    by (auto simp: mem_fresh_def free_at_def not_in_iff)
  then show "fresh_in (s, as) (image_mset Inl r)" "fresh_in (s, as) (image_mset Inl r + {#Inr d#})"
    by (auto simp: fresh_in_def)
qed

lemma gains_live:
  assumes "with_pages k ctx (s, as)" and "part_frame ctx (Collect (free_at (s, as))) s s'"
    and "ctxs s' = ctxs s" "pages s' = pages s" and "live s' = live s + r" and "filter_mset no_sync r = r" and "mem_fresh s r"
  shows "gains k ctx (s, as) (image_mset Inl r) (s', as)"
  using db_own_gain [of k s ctx as s' r] assms mem_fresh_in(1) [of s r as] by (auto simp: gains_def with_pages_def db_bal_def)

lemma loses_live:
  assumes "with_pages k ctx (s, as)" and "part_frame ctx X s s'"
    and "ctxs s' = ctxs s" "pages s' = pages s" and "live s' = live s - r" and "filter_mset no_sync r = r"
    and sub: "image_mset Inl r \<subseteq># db_bal (s, as)"
  shows "loses k ctx X (s, as) (image_mset Inl r) (s', as)"
proof -
  have "r \<subseteq># db_own s as" using db_bal_subset [of r "[]" s as] sub by simp
  then show ?thesis
    using db_own_loss [of k s ctx as s' r] assms by (auto simp: loses_def with_pages_def db_bal_def)
qed

lemma not_free_live: "\<not> free_at (s, as) p \<Longrightarrow> RMem p \<in># live s"
  using free_at_live by blast

section \<open>The parts survive\<close>

lemma part_frame_ctx:
  assumes "part_frame ctx X s s'"
  shows "ctx_fd s' c = ctx_fd s c" and "ctx_dev s' c = ctx_dev s c" and "ctx_page_size (ctxs s' c) = ctx_page_size (ctxs s c)"
proof -
  have c: "(ctxs s' c)\<lparr>ctx_page := NULL\<rparr> = (ctxs s c)\<lparr>ctx_page := NULL\<rparr>" and d: "devs s' = devs s"
    using assms by (simp_all add: part_frame_def)
  show "ctx_fd s' c = ctx_fd s c" "ctx_dev s' c = ctx_dev s c" "ctx_page_size (ctxs s' c) = ctx_page_size (ctxs s c)"
    using ctx_page_upd_sel [OF c] d by (simp_all add: ctx_fd_def ctx_dev_def)
qed

lemma parts_kept:
  assumes f: "part_frame ctx X s s'" and "y \<notin> X"
  shows "jfce_valid s' y = jfce_valid s y" "jfce_res s' y = jfce_res s y"
    and "ctp_valid ctx s' y = ctp_valid ctx s y" "ctp_res ctx s' y = ctp_res ctx s y"
    and "jfs_valid k ctx s' y = jfs_valid k ctx s y" "jfs_own k ctx s' y = jfs_own k ctx s y"
    and "jfc_own ctx s' y = jfc_own ctx s y" "sw_db (jfcs s' y) = sw_db (jfcs s y)"
    and "jfc_res ctx (s', as') y = jfc_res ctx (s, as) y"
    and "jfc_valid ctx (s, as) y \<Longrightarrow> jfc_res ctx (s', as') y \<subseteq># db_bal (s', as') \<Longrightarrow> jfc_valid ctx (s', as') y"
proof -
  have e: "jfces s' y = jfces s y" "jfc_fixed (jfcs s' y) = jfc_fixed (jfcs s y)" "tps s' y = tps s y" "jfss s' y = jfss s y"
    using assms by (simp_all add: part_frame_def)
  note c = part_frame_ctx [OF f]
  show "jfce_valid s' y = jfce_valid s y" "jfce_res s' y = jfce_res s y"
    "ctp_valid ctx s' y = ctp_valid ctx s y" "ctp_res ctx s' y = ctp_res ctx s y"
    "jfs_valid k ctx s' y = jfs_valid k ctx s y" "jfs_own k ctx s' y = jfs_own k ctx s y"
    using e c by (simp_all add: jfce_valid_def jfce_res_def ctp_valid_def ctp_res_def jfs_valid_def jfs_own_def)
  have o: "jfc_own ctx s' y = jfc_own ctx s y" "sw_db (jfcs s' y) = sw_db (jfcs s y)"
    using e(2) c by (simp_all add: jfc_own_def jfc_fixed_def)
  then show "jfc_own ctx s' y = jfc_own ctx s y" "sw_db (jfcs s' y) = sw_db (jfcs s y)"
    "jfc_res ctx (s', as') y = jfc_res ctx (s, as) y" by (simp_all add: jfc_res_def)
  assume v: "jfc_valid ctx (s, as) y" and r: "jfc_res ctx (s', as') y \<subseteq># db_bal (s', as')"
  have "image_mset Inl (jfc_own ctx s' y) + image_mset Inr (mset [sw_db (jfcs s' y)]) \<subseteq># db_bal (s', as')"
    using r by (simp add: jfc_res_def)
  from db_bal_subset [OF this] have "sw_db (jfcs s' y) \<in> db_used s' as'" by simp
  then show "jfc_valid ctx (s', as') y" using v e(2) c by (simp add: jfc_valid_def jfc_fixed_def)
qed

section \<open>Creating and deleting the parts\<close>

lemma no_sync_res [simp]:
  "filter_mset no_sync (jfce_res s p) = jfce_res s p" "filter_mset no_sync (ctp_res ctx s p) = ctp_res ctx s p"
  "filter_mset no_sync (jfs_own k ctx s p) = jfs_own k ctx s p"
  by (simp_all add: jfce_res_def ctp_res_def jfs_own_def db_res_def)

lemma mem_fresh_simple:
  "mem_fresh s {#}" "RMem p \<notin># live s \<Longrightarrow> mem_fresh s (jfce_res s' p)" "RMem p \<notin># live s \<Longrightarrow> mem_fresh s (ctp_res ctx s' p)"
  by (auto simp: mem_fresh_def jfce_res_def ctp_res_def)

lemma mem_fresh_jfc:
  assumes ok: "sys_ok E k" and run: "cdma_u_create_jfc E ctx cfg s = Some (p, s')" "p \<noteq> NULL" and fresh: "RMem p \<notin># live s"
  shows "mem_fresh s (jfc_own ctx s' p)"
proof -
  obtain q D n s1 s2 where q: "cdma_u_alloc_queue_buf E zero_jetty_queue D n CDMA_HW_PAGE_SIZE False s1 = Some (0, q, s2)"
    and c: "jfc_cq (jfcs s' p) = q\<lparr>q_idx := jfc_id (jfcs s' p)\<rparr>" using jfc_made [OF run] by metis
  have "q_wrid q = NULL" by (rule alloc_queue_buf_cases [OF q]) (simp add: zero_jetty_queue_def)
  then show ?thesis using fresh by (auto simp: mem_fresh_def jfc_own_def c queue_buf_res_def)
qed

lemma mem_fresh_jfs:
  assumes ok: "sys_ok E k" and run: "cdma_u_create_jfs E ctx cfg s = Some (p, s')" "p \<noteq> NULL" and fresh: "RMem p \<notin># live s"
  shows "mem_fresh s (jfs_own k' ctx s' p)"
proof -
  obtain q0 D sq db s1 s2 where q: "cdma_u_alloc_queue_buf E q0 D CDMA_JFS_WQEBB CDMA_HW_PAGE_SIZE True s1 = Some (0, sq, s2)"
    and l: "live s1 = live s + {#RMem p#} + {#RSpin p#}"
    and c: "jfs_sq (jfss s' p) = sq\<lparr>q_db := db, q_idx := jfs_id (jfss s' p), q_dwqe_addr := db_addr db\<rparr>"
    using jfs_made [OF ok run] by metis
  have "q_wrid sq = e_alloc E (tr s1) ObjWrid" "q_wrid sq \<noteq> NULL" by (rule alloc_queue_buf_cases [OF q], simp)+
  then have "RMem (q_wrid sq) \<notin># live s1" using ok by (simp add: sys_ok_def live_def)
  then have "q_wrid sq \<noteq> p" "RMem (q_wrid sq) \<notin># live s" using l by auto
  then show ?thesis using fresh by (auto simp: mem_fresh_def jfs_own_def c queue_buf_res_def db_res_def)
qed

lemma make_jfce:
  assumes ok: "sys_ok E k" "jfce_ok E" and w: "with_pages k ctx (s, as)" and run: "cdma_u_create_jfce E ctx s = (p, s')"
  shows "queues s' = queues s \<and> (if p = NULL then gains k ctx (s, as) {#} (s', as)
     else free_at (s, as) p \<and> jfce_valid s' p \<and> gains k ctx (s, as) (image_mset Inl (jfce_res s' p)) (s', as))"
proof -
  note c = create_jfce_spec [OF ok run]
  then have f: "ctxs s' = ctxs s" "pages s' = pages s" "part_frame ctx (Collect (free_at (s, as))) s s'"
    using not_free_live [of s as] by (auto simp: jfce_frame_def part_frame_def)
  have "queues s' = queues s" using c by (simp add: jfce_frame_def)
  then show ?thesis
    using c gains_live [OF w f(3,1,2), of "{#}"] gains_live [OF w f(3,1,2), of "jfce_res s' p"] free_at_live mem_fresh_simple by auto
qed

lemma make_ctp:
  assumes ok: "sys_ok E k" and w: "with_pages k ctx (s, as)" and run: "cdma_u_create_ctp E ctx cfg s = (p, s')"
  shows "queues s' = queues s \<and> (if p = NULL then gains k ctx (s, as) {#} (s', as)
     else free_at (s, as) p \<and> ctp_valid ctx s' p \<and> gains k ctx (s, as) (image_mset Inl (ctp_res ctx s' p)) (s', as))"
proof -
  note c = create_ctp_spec [OF ok run]
  then have f: "ctxs s' = ctxs s" "pages s' = pages s" "part_frame ctx (Collect (free_at (s, as))) s s'"
    using not_free_live [of s as] by (auto simp: ctp_frame_def part_frame_def)
  have "queues s' = queues s" using c by (simp add: ctp_frame_def)
  then show ?thesis
    using c gains_live [OF w f(3,1,2), of "{#}"] gains_live [OF w f(3,1,2), of "ctp_res ctx s' p"] free_at_live mem_fresh_simple by auto
qed

lemma make_jfs:
  assumes ok: "sys_ok E k" and w: "with_pages k ctx (s, as)" and run: "cdma_u_create_jfs E ctx cfg s = Some (p, s')"
  shows "queues s' = queues s \<and> (if p = NULL then gains k ctx (s, as) {#} (s', as)
     else free_at (s, as) p \<and> jfs_valid k ctx s' p \<and> gains k ctx (s, as) (image_mset Inl (jfs_own k ctx s' p)) (s', as))"
proof -
  have "ctx_page_size (ctxs s ctx) = 2 ^ k" using w by (simp add: with_pages_def db_inv_def)
  note c = create_jfs_spec [OF ok this run]
  then have f: "ctxs s' = ctxs s" "pages s' = pages s" "part_frame ctx (Collect (free_at (s, as))) s s'"
    using not_free_live [of s as] by (auto simp: jfs_frame_def part_frame_def)
  have "queues s' = queues s" using c by (simp add: jfs_frame_def)
  then show ?thesis
    using c gains_live [OF w f(3,1,2), of "{#}"] gains_live [OF w f(3,1,2), of "jfs_own k ctx s' p"] free_at_live
      mem_fresh_simple(1) mem_fresh_jfs [OF ok run] by auto
qed

lemma make_jfc:
  assumes ok: "sys_ok E k" and w: "with_pages k ctx (s, as)" and run: "cdma_u_create_jfc E ctx cfg s = Some (p, s')"
  shows "queues s' = queues s \<and> (\<exists>as'. if p = NULL then gains k ctx (s, as) {#} (s', as')
     else free_at (s, as) p \<and> jfc_valid ctx (s', as') p \<and> gains k ctx (s, as) (jfc_res ctx (s', as') p) (s', as'))"
proof -
  have i: "db_inv k s ctx as" using w by (simp add: with_pages_def)
  from create_jfc_spec [OF ok i run] obtain as' where c: "db_inv k s' ctx as'" "jfc_frame ctx s s'"
      "\<forall>y. RMem y \<in># live s \<longrightarrow> jfcs s' y = jfcs s y"
    and c': "if p = NULL then db_own s' as' = db_own s as \<and> db_used s' as' = db_used s as
        else RMem p \<notin># live s \<and> jfc_valid ctx (s', as') p
          \<and> filter_mset no_sync (db_own s' as') = filter_mset no_sync (db_own s as) + jfc_own ctx s' p
          \<and> sw_db (jfcs s' p) \<notin> db_used s as \<and> db_used s' as' = insert (sw_db (jfcs s' p)) (db_used s as)" by blast
  have f: "part_frame ctx (Collect (free_at (s, as))) s s'" "queues s' = queues s"
    using c(2,3) not_free_live [of s as] by (auto simp: jfc_frame_def part_frame_def)
  show ?thesis
  proof (cases "p = NULL")
    case True
    then show ?thesis using f c(1) c' by (intro conjI exI [of _ as']) (simp_all add: gains_def with_pages_def db_bal_def)
  next
    case False
    then have "mem_fresh s (jfc_own ctx s' p)" using mem_fresh_jfc [OF ok run] c' by simp
    then have "fresh_in (s, as) (jfc_res ctx (s', as') p)" unfolding jfc_res_def prod.case by (rule mem_fresh_in(2))
    then show ?thesis using f c(1) c' False free_at_live db_bal_mset [of s' as' s as "jfc_own ctx s' p" "sw_db (jfcs s' p)"]
      by (intro conjI exI [of _ as']) (simp_all add: gains_def with_pages_def jfc_res_def)
  qed
qed

lemma drop_jfce:
  assumes "with_pages k ctx (s, as)" "jfce_valid s p" "image_mset Inl (jfce_res s p) \<subseteq># db_bal (s, as)"
  shows "loses k ctx {p} (s, as) (image_mset Inl (jfce_res s p)) (snd (cdma_u_delete_jfce p s), as)"
    and "queues (snd (cdma_u_delete_jfce p s)) = queues s"
  using assms delete_jfce_spec [OF assms(2)]
  by (auto simp: jfce_frame_def part_frame_def intro!: loses_live)

lemma drop_ctp:
  assumes "with_pages k ctx (s, as)" "ctp_valid ctx s p" "image_mset Inl (ctp_res ctx s p) \<subseteq># db_bal (s, as)"
  shows "loses k ctx {p} (s, as) (image_mset Inl (ctp_res ctx s p)) (snd (cdma_u_delete_ctp E p s), as)"
    and "queues (snd (cdma_u_delete_ctp E p s)) = queues s"
  using assms delete_ctp_spec [OF assms(2)]
  by (auto simp: ctp_frame_def part_frame_def intro!: loses_live)

lemma drop_jfs:
  assumes "with_pages k ctx (s, as)" "jfs_valid k ctx s p" "image_mset Inl (jfs_own k ctx s p) \<subseteq># db_bal (s, as)"
    and run: "cdma_u_delete_jfs E p s = Some (r, s')"
  shows "loses k ctx {p} (s, as) (image_mset Inl (jfs_own k ctx s p)) (s', as)" and "queues s' = queues s"
  using assms delete_jfs_spec [OF assms(2) run]
  by (auto simp: jfs_frame_def part_frame_def intro!: loses_live)

lemma drop_jfc:
  assumes ok: "sys_ok E k" and w: "with_pages k ctx (s, as)" "jfc_valid ctx (s, as) p" "jfc_res ctx (s, as) p \<subseteq># db_bal (s, as)"
  obtains s' as' where "cdma_u_delete_jfc E p s = Some (DMA_STATUS_OK, s')" "queues s' = queues s"
    "loses k ctx {p} (s, as) (jfc_res ctx (s, as) p) (s', as')"
proof -
  have i: "db_inv k s ctx as" using w by (simp add: with_pages_def)
  from delete_jfc_spec [OF ok i w(2) jfc_res_subset(1) [OF w(3)]] obtain s' as' where
    d: "cdma_u_delete_jfc E p s = Some (DMA_STATUS_OK, s')" "db_inv k s' ctx as'" "jfc_frame ctx s s'"
      "\<forall>y. y \<noteq> p \<longrightarrow> jfcs s' y = jfcs s y" "db_own s as = db_own s' as' + jfc_own ctx s p"
      "db_used s' as' = db_used s as - {sw_db (jfcs s p)}" by blast
  have u: "sw_db (jfcs s p) \<in> db_used s as" using w(2) by (simp add: jfc_valid_def)
  have j: "filter_mset no_sync (jfc_own ctx s p) = jfc_own ctx s p" by (simp add: jfc_own_def)
  have "mset_set (db_used s as) = add_mset (sw_db (jfcs s p)) (mset_set (db_used s' as'))"
    unfolding d(6) using u by (metis finite_db_used mset_set.remove)
  then have "db_bal (s, as) = db_bal (s', as') + jfc_res ctx (s, as) p"
    using d(5) j by (simp add: db_bal_def jfc_res_def)
  moreover have "part_frame ctx {p} s s'" using d(3,4) by (simp add: jfc_frame_def part_frame_def)
  ultimately show ?thesis using d(1-3) by (intro that [of s' as']) (simp_all add: loses_def with_pages_def jfc_frame_def)
qed

section \<open>The completion side\<close>

definition comp_res :: "ptr \<Rightarrow> world \<Rightarrow> ptr \<Rightarrow> ptr \<Rightarrow> (resource + ptr) multiset" where
  "comp_res ctx x e c = image_mset Inl (jfce_res (fst x) e) + jfc_res ctx x c"

definition comp_valid :: "ptr \<Rightarrow> world \<Rightarrow> ptr \<Rightarrow> ptr \<Rightarrow> bool" where
  "comp_valid ctx x e c \<longleftrightarrow> e \<noteq> c \<and> jfce_valid (fst x) e \<and> jfc_valid ctx x c"

lemma res_mem:
  "Inl (RMem e) \<in># image_mset Inl (jfce_res s e)" "Inl (RMem c) \<in># jfc_res ctx x c"
  "Inl (RMem t) \<in># image_mset Inl (ctp_res ctx s t)" "Inl (RMem j) \<in># image_mset Inl (jfs_own k ctx s j)"
  by (cases x, simp_all add: jfce_res_def jfc_res_def jfc_own_def ctp_res_def jfs_own_def)+

lemma comp_mem: "Inl (RMem e) \<in># comp_res ctx x e c" "Inl (RMem c) \<in># comp_res ctx x e c"
  unfolding comp_res_def union_iff using res_mem(1,2) by blast+

lemma gains_live_at: "gains k ctx x r x' \<Longrightarrow> Inl (RMem p) \<in># r \<Longrightarrow> \<not> free_at x' p"
  by (simp add: gains_def free_at_def)

lemma sub_sum_mset2: "A + B \<subseteq># (C :: 'a multiset) \<Longrightarrow> B \<subseteq># C"
  using sub_sum_mset [of B A C] by (simp add: ac_simps)

lemma comp_kept:
  assumes "part_frame ctx X (fst x) (fst x')" and "e \<notin> X" "c \<notin> X"
  shows "comp_res ctx x' e c = comp_res ctx x e c"
    and "comp_valid ctx x e c \<Longrightarrow> comp_res ctx x' e c \<subseteq># db_bal x' \<Longrightarrow> comp_valid ctx x' e c"
proof -
  obtain s as s' as' where x: "x = (s, as)" "x' = (s', as')" by (cases x; cases x')
  note e = parts_kept [OF assms(1) assms(2), unfolded x fst_conv] and c = parts_kept [OF assms(1) assms(3), unfolded x fst_conv]
  show "comp_res ctx x' e c = comp_res ctx x e c" using e(2) c(9) by (simp add: comp_res_def x)
  assume v: "comp_valid ctx x e c" and r: "comp_res ctx x' e c \<subseteq># db_bal x'"
  have "jfc_res ctx (s', as') c \<subseteq># db_bal (s', as')"
    using r unfolding comp_res_def x by (rule sub_sum_mset2)
  then have "jfc_valid ctx (s', as') c" using v c(10) [of as as'] by (simp add: comp_valid_def x)
  then show "comp_valid ctx x' e c" using v e(1) by (simp add: comp_valid_def x)
qed

lemma comp_queues [simp]:
  "db_bal (set_queue q v s, as) = db_bal (s, as)" "with_pages k ctx (set_queue q v s, as) = with_pages k ctx (s, as)"
  "jfce_res (set_queue q v s) = jfce_res s" "jfce_valid (set_queue q v s) = jfce_valid s"
  "jfc_res ctx (set_queue q v s, as) = jfc_res ctx (s, as)" "jfc_valid ctx (set_queue q v s, as) = jfc_valid ctx (s, as)"
  "ctp_res ctx (set_queue q v s) = ctp_res ctx s" "ctp_valid ctx (set_queue q v s) = ctp_valid ctx s"
  "jfs_own k ctx (set_queue q v s) = jfs_own k ctx s" "jfs_valid k ctx (set_queue q v s) = jfs_valid k ctx s"
  "ctx_fd (set_queue q v s) = ctx_fd s" "ctx_dev (set_queue q v s) = ctx_dev s"
  by (simp_all add: set_queue_def fun_eq_iff db_bal_def db_own_def with_pages_def db_inv_def db_used_def pages_res_def live_simps
      jfce_res_def jfce_valid_def jfc_res_def jfc_valid_def jfc_own_def ctp_res_def ctp_valid_def jfs_own_def jfs_valid_def
      ctx_fd_def ctx_dev_def)

lemma queues_set_queue [simp]: "queues (set_queue q v s) = (queues s)(q := v)"
  "comp_res ctx (set_queue q v s, as) = comp_res ctx (s, as)" "comp_valid ctx (set_queue q v s, as) = comp_valid ctx (s, as)"
proof -
  show "queues (set_queue q v s) = (queues s)(q := v)" by (simp add: set_queue_def)
qed (simp_all add: fun_eq_iff comp_res_def comp_valid_def)

lemma gains_set_queue [simp]: "gains k ctx x r (set_queue q v s', as') = gains k ctx x r (s', as')"
  "loses k ctx X x r (set_queue q v s', as') = loses k ctx X x r (s', as')"
  by (simp_all add: gains_def loses_def)

lemma rearm_gains:
  assumes "with_pages k ctx (s, as)"
  shows "gains k ctx (s, as) {#} (snd (cdma_u_rearm_jfc E c b s), as)" and "queues (snd (cdma_u_rearm_jfc E c b s)) = queues s"
    and "jfcs (snd (cdma_u_rearm_jfc E c b s)) = jfcs s"
proof -
  let ?s = "snd (cdma_u_rearm_jfc E c b s)"
  have s: "?s = s \<or> (\<exists>a d. ?s = emit (EvMmio64 a d) s)" by (auto simp: cdma_u_rearm_jfc_def Let_def)
  then have "part_frame ctx (Collect (free_at (s, as))) s ?s" "ctxs ?s = ctxs s" "pages ?s = pages s" "live ?s = live s + {#}"
    by (auto simp: live_simps)
  from gains_live [OF assms this] mem_fresh_simple(1) show "gains k ctx (s, as) {#} (?s, as)" by simp
  show "queues ?s = queues s" "jfcs ?s = jfcs s" using s by auto
qed

lemma drop_comp:
  assumes ok: "sys_ok E k" and w: "with_pages k ctx (s, as)" and v: "comp_valid ctx (s, as) (que_jfce (queues s q)) (que_jfc (queues s q))"
    and r: "comp_res ctx (s, as) (que_jfce (queues s q)) (que_jfc (queues s q)) \<subseteq># db_bal (s, as)"
  obtains s' as' where "cdma_u_free_jfc_res E q s = Some s'" "queues s' = queues s"
    "loses k ctx {que_jfc (queues s q), que_jfce (queues s q)} (s, as)
       (comp_res ctx (s, as) (que_jfce (queues s q)) (que_jfc (queues s q))) (s', as')"
proof -
  let ?e = "que_jfce (queues s q)" and ?c = "que_jfc (queues s q)"
  have v': "jfce_valid s ?e" "jfc_valid ctx (s, as) ?c" "?e \<notin> {?c}" using v by (simp_all add: comp_valid_def)
  have "jfc_res ctx (s, as) ?c \<subseteq># db_bal (s, as)" using r unfolding comp_res_def
    by (rule sub_sum_mset2)
  from drop_jfc [OF ok w v'(2) this] obtain s1 as1 where
    c: "cdma_u_delete_jfc E ?c s = Some (DMA_STATUS_OK, s1)" "queues s1 = queues s"
      "loses k ctx {?c} (s, as) (jfc_res ctx (s, as) ?c) (s1, as1)" .
  have f: "part_frame ctx {?c} s s1" "db_bal (s, as) = db_bal (s1, as1) + jfc_res ctx (s, as) ?c" "with_pages k ctx (s1, as1)"
    using c(3) by (simp_all add: loses_def)
  note e = parts_kept(1,2) [OF f(1) v'(3)]
  have sub: "image_mset Inl (jfce_res s1 ?e) \<subseteq># db_bal (s1, as1)" using r f(2) e(2) by (simp add: comp_res_def)
  note d = drop_jfce [OF f(3) e(1) [THEN iffD2, OF v'(1)] sub]
  have "loses k ctx {?c, ?e} (s, as) (comp_res ctx (s, as) ?e ?c) (snd (cdma_u_delete_jfce ?e s1), as1)"
    using loses_trans [OF c(3) d(1)] e(2) by (simp add: comp_res_def ac_simps insert_commute)
  then show ?thesis
    using that [of "snd (cdma_u_delete_jfce ?e s1)" as1] c d(2) by (simp add: cdma_u_free_jfc_res_def)
qed

lemma alloc_jfc_res_spec:
  assumes ok: "sys_ok E k" "jfce_ok E" and w: "with_pages k ctx (s, as)"
    and run: "cdma_u_alloc_jfc_res E ctx q cfg jc s = Some (r, jc', s')"
  shows "\<exists>as'. if r \<noteq> 0 then queues s' = queues s \<and> gains k ctx (s, as) {#} (s', as')
     else \<exists>e c. queues s' = (queues s)(q := (queues s q)\<lparr>que_jfce := e, que_jfc := c\<rparr>) \<and> free_at (s, as) e \<and> free_at (s, as) c
       \<and> comp_valid ctx (s', as') e c \<and> gains k ctx (s, as) (comp_res ctx (s', as') e c) (s', as')"
proof -
  obtain e s1 where e: "cdma_u_create_jfce E ctx s = (e, s1)" by (cases "cdma_u_create_jfce E ctx s")
  note e' = make_jfce [OF ok w e]
  let ?jc = "jc\<lparr>jfc_cfg_jfce := e\<rparr>" let ?x = "(s, as)"
  show ?thesis
  proof (cases "e = NULL")
    case True
    then have "r \<noteq> 0 \<and> s' = s1" using run e by (auto simp: cdma_u_alloc_jfc_res_def Let_def)
    then show ?thesis using e' True by (intro exI [of _ as]) simp
  next
    case e0: False
    then have g1: "gains k ctx ?x (image_mset Inl (jfce_res s1 e)) (s1, as)" "free_at ?x e" "jfce_valid s1 e" "queues s1 = queues s"
      using e' by simp_all
    obtain c s2 where c: "cdma_u_create_jfc E ctx ?jc s1 = Some (c, s2)"
      using run e e0 by (auto simp: cdma_u_alloc_jfc_res_def Let_def bind_eq_Some_conv)
    from make_jfc [OF ok(1) gains_pages [OF g1(1)] c] obtain as2 where q2: "queues s2 = queues s"
      and c': "if c = NULL then gains k ctx (s1, as) {#} (s2, as2)
        else free_at (s1, as) c \<and> jfc_valid ctx (s2, as2) c \<and> gains k ctx (s1, as) (jfc_res ctx (s2, as2) c) (s2, as2)"
      using g1(4) by auto
    have e1: "\<not> free_at (s1, as) e" using gains_live_at [OF g1(1)] res_mem(1) by blast
    have "part_frame ctx (Collect (free_at (s1, as))) s1 s2" using c' by (auto simp: gains_def split: if_splits)
    note k2 = parts_kept [OF this, of e, unfolded mem_Collect_eq, OF e1]
    have drop_e: "gains k ctx ?x {#} (snd (cdma_u_delete_jfce e t), bs)"
      if "gains k ctx ?x (image_mset Inl (jfce_res t e)) (t, bs)" "jfce_valid t e" for t bs
    proof -
      have "image_mset Inl (jfce_res t e) \<subseteq># db_bal (t, bs)" using that(1) by (simp add: gains_def)
      from drop_jfce(1) [OF gains_pages [OF that(1)] that(2) this] show ?thesis
        using that(1) g1(2) by (intro gains_loses [of k ctx ?x "{#}" "image_mset Inl (jfce_res t e)"]) auto
    qed
    have qe: "queues (snd (cdma_u_delete_jfce e t)) = queues t" for t by (simp add: cdma_u_delete_jfce_def sys_free_def sys_close_def)
    show ?thesis
    proof (cases "c = NULL")
      case True
      then have g2: "gains k ctx ?x (image_mset Inl (jfce_res s2 e)) (s2, as2)"
        using gains_trans [OF g1(1), of "{#}"] c' k2(2) by simp
      have "r = - ENOMEM \<and> s' = snd (cdma_u_delete_jfce e s2)"
        using run e e0 c True by (auto simp: cdma_u_alloc_jfc_res_def Let_def)
      then show ?thesis using drop_e [OF g2] k2(1) g1(3) q2 qe by (intro exI [of _ as2]) simp
    next
      case c0: False
      then have c2: "free_at (s1, as) c" "jfc_valid ctx (s2, as2) c" using c' by simp_all
      have ec: "e \<noteq> c" using e1 c2(1) by auto
      have g2: "gains k ctx ?x (comp_res ctx (s2, as2) e c) (s2, as2)"
        using gains_trans [OF g1(1)] c' c0 k2(2) by (simp add: comp_res_def)
      have v2: "comp_valid ctx (s2, as2) e c" using ec c2(2) k2(1) g1(3) by (simp add: comp_valid_def)
      have fc: "free_at ?x c" using gains_free [OF g1(1) c2(1)] .
      obtain st s3 where r3: "(if qcfg_event_mode cfg then cdma_u_rearm_jfc E c False s2 else (DMA_STATUS_OK, s2)) = (st, s3)"
        by (metis surj_pair)
      then have g3: "gains k ctx (s2, as2) {#} (s3, as2)" "queues s3 = queues s"
        using rearm_gains [OF gains_pages [OF g2], of E c False] gains_refl [OF gains_pages [OF g2]] q2
        by (auto split: if_splits)
      have n2: "\<not> free_at (s2, as2) e" "\<not> free_at (s2, as2) c"
        using gains_live_at [OF g2] comp_mem by blast+
      have f3: "part_frame ctx (Collect (free_at (s2, as2))) (fst (s2, as2)) (fst (s3, as2))" using g3(1) by (simp add: gains_def)
      note k3 = comp_kept [OF f3, of e c, unfolded mem_Collect_eq, OF n2]
      have g3': "gains k ctx ?x (comp_res ctx (s3, as2) e c) (s3, as2)" using gains_trans [OF g2 g3(1)] k3(1) by simp
      then have v3: "comp_valid ctx (s3, as2) e c" using k3(2) v2 by (simp add: gains_def)
      show ?thesis
      proof (cases "st = DMA_STATUS_OK")
        case True
        then have "r = 0 \<and> s' = set_queue q ((queues s3 q)\<lparr>que_jfce := e, que_jfc := c\<rparr>) s3"
          using run e e0 c c0 r3 by (auto simp: cdma_u_alloc_jfc_res_def Let_def cong: if_cong)
        then show ?thesis using g3' v3 fc g1(2) g3(2)
          by (intro exI [of _ as2]) (simp, intro exI [of _ e] exI [of _ c], simp)
      next
        case False
        have w3: "with_pages k ctx (s3, as2)" "jfc_valid ctx (s3, as2) c" using g3' v3 by (simp_all add: gains_def comp_valid_def)
        have "comp_res ctx (s3, as2) e c \<subseteq># db_bal (s3, as2)" using g3' by (simp add: gains_def)
        then have "jfc_res ctx (s3, as2) c \<subseteq># db_bal (s3, as2)"
          unfolding comp_res_def by (rule sub_sum_mset2)
        from drop_jfc [OF ok(1) w3 this] obtain s4 as4 where d: "cdma_u_delete_jfc E c s3 = Some (DMA_STATUS_OK, s4)"
            "queues s4 = queues s3" "loses k ctx {c} (s3, as2) (jfc_res ctx (s3, as2) c) (s4, as4)" .
        have "r = - EFAULT \<and> s' = snd (cdma_u_delete_jfce e s4)"
          using run e e0 c c0 r3 False d(1) by (auto simp: cdma_u_alloc_jfc_res_def Let_def cong: if_cong)
        moreover have f4: "part_frame ctx {c} s3 s4" using d(3) by (simp add: loses_def)
        have k4: "jfce_valid s4 e" "jfce_res s4 e = jfce_res s3 e" using parts_kept(1,2) [OF f4, of e] ec v3 by (simp_all add: comp_valid_def)
        have "gains k ctx ?x (image_mset Inl (jfce_res s4 e)) (s4, as4)"
          using g3' fc by (intro gains_loses [OF _ d(3)]) (simp_all add: comp_res_def k4(2))
        ultimately show ?thesis using drop_e k4(1) qe d(2) g3(2) by (intro exI [of _ as4]) simp
      qed
    qed
  qed
qed

section \<open>The parts of a queue\<close>

definition parts_res :: "nat \<Rightarrow> ptr \<Rightarrow> world \<Rightarrow> cdma_u_queue \<Rightarrow> (resource + ptr) multiset" where
  "parts_res k ctx x v = comp_res ctx x (que_jfce v) (que_jfc v) + image_mset Inl (ctp_res ctx (fst x) (que_tp v))
     + image_mset Inl (jfs_own k ctx (fst x) (que_jfs v))"

definition parts :: "cdma_u_queue \<Rightarrow> ptr list" where
  "parts v = [que_jfs v, que_tp v, que_jfc v, que_jfce v]"

definition parts_valid :: "nat \<Rightarrow> ptr \<Rightarrow> world \<Rightarrow> cdma_u_queue \<Rightarrow> bool" where
  "parts_valid k ctx x v \<longleftrightarrow> distinct (parts v) \<and> comp_valid ctx x (que_jfce v) (que_jfc v)
     \<and> ctp_valid ctx (fst x) (que_tp v) \<and> jfs_valid k ctx (fst x) (que_jfs v)"

lemma free_at_set_queue [simp]: "free_at (set_queue q v s, as) = free_at (s, as)"
  by (simp add: fun_eq_iff free_at_def)

lemma gains_set_queue2 [simp]: "gains k ctx (set_queue q v s, as) r x' = gains k ctx (s, as) r x'"
proof -
  have "part_frame ctx X (set_queue q v s) s' = part_frame ctx X s s'" for X s'
    by (simp add: part_frame_def set_queue_def)
  moreover have "fresh_in (set_queue q v s, as) r = fresh_in (s, as) r" by (simp add: fresh_in_def)
  ultimately show ?thesis by (simp add: gains_def)
qed

lemma comp_gains:
  assumes g: "gains k ctx x (comp_res ctx x1 e c + r) x1" and v: "comp_valid ctx x1 e c" and g': "gains k ctx x1 r' x2"
  shows "gains k ctx x (comp_res ctx x2 e c + r + r') x2" and "comp_valid ctx x2 e c" and "comp_res ctx x2 e c = comp_res ctx x1 e c"
proof -
  have f: "part_frame ctx (Collect (free_at x1)) (fst x1) (fst x2)" using g' by (simp add: gains_def)
  have n: "e \<notin> Collect (free_at x1)" "c \<notin> Collect (free_at x1)"
    using gains_live_at [OF g] comp_mem by (metis mem_Collect_eq union_iff)+
  note k = comp_kept [OF f n]
  show "gains k ctx x (comp_res ctx x2 e c + r + r') x2" using gains_trans [OF g g'] k(1) by simp
  then have "comp_res ctx x2 e c \<subseteq># db_bal x2" by (simp add: gains_def)
  then show "comp_valid ctx x2 e c" using k(2) v by blast
  show "comp_res ctx x2 e c = comp_res ctx x1 e c" by (rule k(1))
qed

lemma drop_comp_gains:
  assumes ok: "sys_ok E k" and g: "gains k ctx x (comp_res ctx (s, as) (que_jfce (queues s q)) (que_jfc (queues s q))) (s, as)"
    and v: "comp_valid ctx (s, as) (que_jfce (queues s q)) (que_jfc (queues s q))"
    and fr: "free_at x (que_jfce (queues s q))" "free_at x (que_jfc (queues s q))"
  obtains s' as' where "cdma_u_free_jfc_res E q s = Some s'" "queues s' = queues s" "gains k ctx x {#} (s', as')"
proof -
  have sub: "comp_res ctx (s, as) (que_jfce (queues s q)) (que_jfc (queues s q)) \<subseteq># db_bal (s, as)"
    using g by (simp add: gains_def)
  obtain s' as' where d: "cdma_u_free_jfc_res E q s = Some s'" "queues s' = queues s"
    "loses k ctx {que_jfc (queues s q), que_jfce (queues s q)} (s, as)
       (comp_res ctx (s, as) (que_jfce (queues s q)) (que_jfc (queues s q))) (s', as')"
    using drop_comp [OF ok gains_pages [OF g] v sub] by blast
  have "gains k ctx x {#} (s', as')" using gains_loses [OF _ d(3), of x "{#}"] g fr by simp
  with d show ?thesis using that by blast
qed

lemma ctp_gains:
  assumes "ctp_valid ctx s1 t" and "gains k ctx (s, as) (image_mset Inl (ctp_res ctx s1 t)) (s1, as1)"
    and "gains k ctx (s1, as1) r (s2, as2)"
  shows "ctp_valid ctx s2 t" and "ctp_res ctx s2 t = ctp_res ctx s1 t"
proof -
  have f: "part_frame ctx (Collect (free_at (s1, as1))) s1 s2" using assms(3) by (simp add: gains_def)
  have n: "t \<notin> Collect (free_at (s1, as1))" using gains_live_at [OF assms(2)] res_mem(3) by blast
  show "ctp_valid ctx s2 t" "ctp_res ctx s2 t = ctp_res ctx s1 t" using parts_kept(3,4) [OF f n] assms(1) by simp_all
qed

lemma drop_ctp_gains:
  assumes g: "gains k ctx x (r + image_mset Inl (ctp_res ctx s p)) (s, as)" and v: "ctp_valid ctx s p" and "free_at x p"
  shows "gains k ctx x r (snd (cdma_u_delete_ctp E p s), as)"
proof -
  have "image_mset Inl (ctp_res ctx s p) \<subseteq># db_bal (s, as)" using g by (simp add: gains_def)
  from drop_ctp(1) [OF gains_pages [OF g] v this] show ?thesis using g assms(3) by (intro gains_loses [OF g]) auto
qed

lemma create_queue_runs:
  fixes cfg qid q s ctx
  defines "s1 \<equiv> set_queue q ((queues s q)\<lparr>que_ctx := ctx, que_cfg := cfg\<rparr>) s"
  defines "sc \<equiv> cdma_assemble_jfs_cfg zero_jfs_cfg (devs s1 (ctx_dev s1 ctx)) cfg qid"
    and "tc \<equiv> cdma_assemble_tp_cfg zero_tp_cfg (devs s1 (ctx_dev s1 ctx)) cfg qid"
  assumes ok: "sys_ok E k" "jfce_ok E" and w: "with_pages k ctx (s, as)" and c: "ctx \<noteq> NULL" "ctx_dev s ctx \<noteq> NULL"
    and a: "cdma_u_alloc_jfc_res E ctx q cfg (cdma_assemble_jfc_cfg zero_jfc_cfg cfg qid) s1 = Some (r2, jc2, s2)"
    and j: "\<And>t s3. r2 = 0 \<Longrightarrow> cdma_u_create_ctp E ctx tc s2 = (t, s3) \<Longrightarrow> t \<noteq> NULL \<Longrightarrow>
       let s4 = set_queue q ((queues s3 q)\<lparr>que_tp := t\<rparr>) s3 in
       cdma_u_create_jfs E ctx (sc\<lparr>jfs_cfg_jfc := que_jfc (queues s4 q), jfs_cfg_tpn := tp_tpn (tps s4 t)\<rparr>) s4 \<noteq> None"
  shows "\<exists>r s' as' v. cdma_u_create_queue E ctx cfg qid q s = Some (r, s') \<and> queues s' = (queues s)(q := v) \<and> que_ctx v = ctx \<and> que_handle v = que_handle (queues s q)
     \<and> que_queue_id v = que_queue_id (queues s q)
     \<and> (if r \<noteq> 0 then gains k ctx (s, as) {#} (s', as')
        else (\<forall>p\<in>set (parts v). free_at (s, as) p) \<and> parts_valid k ctx (s', as') v
          \<and> gains k ctx (s, as) (parts_res k ctx (s', as') v) (s', as'))"
proof -
  let ?x = "(s, as)" let ?s1 = "set_queue q ((queues s q)\<lparr>que_ctx := ctx, que_cfg := cfg\<rparr>) s"
  note defs = s1_def sc_def tc_def
  let ?dev = "devs ?s1 (ctx_dev ?s1 ctx)"
  let ?sc = "cdma_assemble_jfs_cfg zero_jfs_cfg ?dev cfg qid" let ?tc = "cdma_assemble_tp_cfg zero_tp_cfg ?dev cfg qid"
  note a = a [unfolded defs] and j0 = j [unfolded defs Let_def]
  have "with_pages k ctx (?s1, as)" using w by simp
  note a' = alloc_jfc_res_spec [OF ok this a]
  show ?thesis
  proof (cases "r2 = 0")
    case False
    then have "cdma_u_create_queue E ctx cfg qid q s = Some (r2, s2)" using c a by (simp add: cdma_u_create_queue_def Let_def)
    then show ?thesis using a' False
      by (auto intro!: exI [of _ r2] exI [of _ s2] exI [of _ "(queues s q)\<lparr>que_ctx := ctx, que_cfg := cfg\<rparr>"])
  next
    case True
    then obtain as2 e cq where q2: "queues s2 = (queues s)(q := (queues s q)\<lparr>que_ctx := ctx, que_cfg := cfg, que_jfce := e, que_jfc := cq\<rparr>)"
      and fr: "free_at ?x e" "free_at ?x cq" and v2: "comp_valid ctx (s2, as2) e cq"
      and g2: "gains k ctx ?x (comp_res ctx (s2, as2) e cq) (s2, as2)"
      using a' by auto
    obtain t s3 where t: "cdma_u_create_ctp E ctx ?tc s2 = (t, s3)" by (cases "cdma_u_create_ctp E ctx ?tc s2")
    note t' = make_ctp [OF ok(1) gains_pages [OF g2] t]
    let ?s4 = "set_queue q ((queues s3 q)\<lparr>que_tp := t\<rparr>) s3"
    have g3: "gains k ctx (s2, as2) (if t = NULL then {#} else image_mset Inl (ctp_res ctx s3 t)) (s3, as2)" using t' by (simp split: if_splits)
    note c3 = comp_gains [of k ctx ?x "(s2, as2)" e cq "{#}", simplified, OF g2 v2 g3]
    have q4: "queues ?s4 = (queues s)(q := (queues s q)\<lparr>que_ctx := ctx, que_cfg := cfg, que_jfce := e, que_jfc := cq, que_tp := t\<rparr>)"
      using t' q2 by simp
    show ?thesis
    proof (cases "t = NULL")
      case True
      have "gains k ctx ?x (comp_res ctx (?s4, as2) (que_jfce (queues ?s4 q)) (que_jfc (queues ?s4 q))) (?s4, as2)"
        "comp_valid ctx (?s4, as2) (que_jfce (queues ?s4 q)) (que_jfc (queues ?s4 q))"
        "free_at ?x (que_jfce (queues ?s4 q))" "free_at ?x (que_jfc (queues ?s4 q))"
        using c3 True fr unfolding q4 by simp_all
      from drop_comp_gains [OF ok(1) this] obtain s5 as5 where
        d: "cdma_u_free_jfc_res E q ?s4 = Some s5" "queues s5 = queues ?s4" "gains k ctx ?x {#} (s5, as5)" by metis
      have "cdma_u_create_queue E ctx cfg qid q s = Some (- ENOMEM, s5)"
        using c a \<open>r2 = 0\<close> t True d(1) by (simp add: cdma_u_create_queue_def Let_def)
      then show ?thesis using d q4 by (intro exI [of _ "- ENOMEM"] exI [of _ s5] exI [of _ as5] exI) auto
    next
      case t0: False
      then have tv: "free_at (s2, as2) t" "ctp_valid ctx s3 t" using t' by simp_all
      have tg: "gains k ctx (s2, as2) (image_mset Inl (ctp_res ctx s3 t)) (s3, as2)" using g3 t0 by simp
      let ?sc2 = "?sc\<lparr>jfs_cfg_jfc := que_jfc (queues ?s4 q), jfs_cfg_tpn := tp_tpn (tps ?s4 t)\<rparr>"
      obtain j s5 where j: "cdma_u_create_jfs E ctx ?sc2 ?s4 = Some (j, s5)"
        using j0 [OF \<open>r2 = 0\<close> t t0] by fast
      have w4: "with_pages k ctx (?s4, as2)" using gains_pages [OF tg] by simp
      note j' = make_jfs [OF ok(1) w4 j]
      let ?s6 = "set_queue q ((queues s5 q)\<lparr>que_jfs := j\<rparr>) s5"
      have g5: "gains k ctx (s3, as2) (if j = NULL then {#} else image_mset Inl (jfs_own k ctx s5 j)) (s5, as2)"
        using j' by (simp split: if_splits)
      have g3x: "gains k ctx ?x (comp_res ctx (s3, as2) e cq + image_mset Inl (ctp_res ctx s3 t)) (s3, as2)"
        using c3(1) t0 by simp
      note c5 = comp_gains [OF g3x c3(2) g5]
      note t5 = ctp_gains [OF tv(2) tg g5]
      have q6: "queues ?s6 = (queues s)(q := (queues s q)\<lparr>que_ctx := ctx, que_cfg := cfg, que_jfce := e, que_jfc := cq, que_tp := t, que_jfs := j\<rparr>)"
        using j' unfolding q4 by simp
      have ft: "free_at ?x t" using gains_free [OF g2 tv(1)] .
      show ?thesis
      proof (cases "j = NULL")
        case True
        let ?s7 = "snd (cdma_u_delete_ctp E t ?s6)"
        have "gains k ctx ?x (comp_res ctx (?s6, as2) e cq + image_mset Inl (ctp_res ctx ?s6 t)) (?s6, as2)" "ctp_valid ctx ?s6 t"
          using c5(1) t5 True by simp_all
        from drop_ctp_gains [OF this ft] have g7: "gains k ctx ?x (comp_res ctx (?s6, as2) e cq) (?s7, as2)" .
        have w6: "with_pages k ctx (?s6, as2)" "image_mset Inl (ctp_res ctx ?s6 t) \<subseteq># db_bal (?s6, as2)"
          using c5(1) t5(2) True by (simp_all add: gains_def)
        have f7: "loses k ctx {t} (?s6, as2) (image_mset Inl (ctp_res ctx ?s6 t)) (?s7, as2)" "queues ?s7 = queues ?s6"
          using drop_ctp [OF w6(1) _ w6(2), of E] t5(1) by simp_all
        have nt: "e \<notin> {t}" "cq \<notin> {t}" using gains_live_at [OF g2] comp_mem tv(1) by (metis singletonD)+
        have "part_frame ctx {t} (fst (?s6, as2)) (fst (?s7, as2))" using f7(1) unfolding loses_def by blast
        note k7 = comp_kept [OF this nt]
        have g7': "gains k ctx ?x (comp_res ctx (?s7, as2) e cq) (?s7, as2)" using g7 k7(1) by simp
        moreover have "comp_res ctx (?s7, as2) e cq \<subseteq># db_bal (?s7, as2)" using g7' by (simp add: gains_def)
        then have "comp_valid ctx (?s7, as2) e cq" using k7(2) c5(2) by simp
        moreover have e7: "que_jfce (queues ?s7 q) = e" "que_jfc (queues ?s7 q) = cq" unfolding f7(2) q6 by simp_all
        ultimately obtain s8 as8 where d: "cdma_u_free_jfc_res E q ?s7 = Some s8" "queues s8 = queues ?s7" "gains k ctx ?x {#} (s8, as8)"
          using drop_comp_gains [OF ok(1), of ctx ?x ?s7 as2 q] fr by metis
        have "que_tp (queues ?s6 q) = t" unfolding q6 by simp
        then have "cdma_u_create_queue E ctx cfg qid q s = Some (- ENOMEM, s8)"
          using c a \<open>r2 = 0\<close> t t0 j True d(1) by (simp add: cdma_u_create_queue_def Let_def split_beta)
        then show ?thesis using d f7(2) q6 by (intro exI [of _ "- ENOMEM"] exI [of _ s8] exI [of _ as8] exI) auto
      next
        case jn: False
        then have jv: "free_at (s3, as2) j" "jfs_valid k ctx s5 j" using j' by simp_all
        define v where "v = (queues ?s6 q)\<lparr>que_queue_cfg := \<lparr>cdma_jfc_cfg = jc2, cdma_jfs_cfg = ?sc2, cdma_tp_cfg = ?tc\<rparr>\<rparr>"
        define s' where "s' = set_queue q v ?s6"
        have run: "cdma_u_create_queue E ctx cfg qid q s = Some (0, s')" using c a \<open>r2 = 0\<close> t t0 j jn
          by (simp add: cdma_u_create_queue_def Let_def v_def s'_def)
        note e = refl s'_def
        have pv: "que_jfce v = e" "que_jfc v = cq" "que_tp v = t" "que_jfs v = j" unfolding v_def q6 by simp_all
        have pc: "que_ctx v = ctx" "que_handle v = que_handle (queues s q)" "que_queue_id v = que_queue_id (queues s q)"
          unfolding v_def q6 by simp_all
        have "queues s' = (queues ?s6)(q := v)" unfolding e(2) by (rule queues_set_queue(1))
        then have qv: "queues s' = (queues s)(q := v)" by (simp only: q6 fun_upd_upd)
        have "free_at ?x j" using gains_free [OF g2 gains_free [OF tg jv(1)]] .
        then have fp: "\<forall>p\<in>set (parts v). free_at ?x p" unfolding parts_def pv using fr ft by simp
        have "\<not> free_at (s3, as2) e" "\<not> free_at (s3, as2) cq" "\<not> free_at (s3, as2) t"
          using gains_live_at [OF g3x] comp_mem res_mem(3) unfolding union_iff by blast+
        moreover have "\<not> free_at (s2, as2) e" "\<not> free_at (s2, as2) cq"
          using gains_live_at [OF g2] comp_mem by blast+
        moreover have "e \<noteq> cq" using c5(2) by (simp add: comp_valid_def)
        ultimately have "j \<noteq> t" "j \<noteq> e" "j \<noteq> cq" "t \<noteq> e" "t \<noteq> cq" "e \<noteq> cq"
          using jv(1) tv(1) by metis+
        then have dp: "distinct (parts v)" unfolding parts_def pv by auto
        have vv: "parts_valid k ctx (s', as2) v" unfolding parts_valid_def pv e(2) using dp c5(2) t5(1) jv(2) by simp
        have gg: "gains k ctx ?x (parts_res k ctx (s', as2) v) (s', as2)"
          unfolding parts_res_def pv e(2) using c5(1) t5(2) jn by simp
        show ?thesis using fp vv gg run pc qv by (intro exI [of _ "0 :: int"] exI [of _ s'] exI [of _ as2] exI [of _ v]) simp
      qed
    qed
  qed
qed

lemma create_queue_spec:
  assumes ok: "sys_ok E k" "jfce_ok E" and w: "with_pages k ctx (s, as)" and c: "ctx \<noteq> NULL" "ctx_dev s ctx \<noteq> NULL"
    and run: "cdma_u_create_queue E ctx cfg qid q s = Some (r, s')"
  shows "\<exists>as' v. queues s' = (queues s)(q := v) \<and> que_ctx v = ctx \<and> que_handle v = que_handle (queues s q)
     \<and> que_queue_id v = que_queue_id (queues s q)
     \<and> (if r \<noteq> 0 then gains k ctx (s, as) {#} (s', as')
        else (\<forall>p\<in>set (parts v). free_at (s, as) p) \<and> parts_valid k ctx (s', as') v
          \<and> gains k ctx (s, as) (parts_res k ctx (s', as') v) (s', as'))"
proof -
  let ?s1 = "set_queue q ((queues s q)\<lparr>que_ctx := ctx, que_cfg := cfg\<rparr>) s"
  obtain r2 jc2 s2 where a: "cdma_u_alloc_jfc_res E ctx q cfg (cdma_assemble_jfc_cfg zero_jfc_cfg cfg qid) ?s1 = Some (r2, jc2, s2)"
    using run c by (auto simp: cdma_u_create_queue_def Let_def bind_eq_Some_conv)
  from create_queue_runs [OF ok w c a] obtain r'' s'' as' v where r: "cdma_u_create_queue E ctx cfg qid q s = Some (r'', s'')"
    and p: "queues s'' = (queues s)(q := v) \<and> que_ctx v = ctx \<and> que_handle v = que_handle (queues s q)
     \<and> que_queue_id v = que_queue_id (queues s q)
     \<and> (if r'' \<noteq> 0 then gains k ctx (s, as) {#} (s'', as')
        else (\<forall>p\<in>set (parts v). free_at (s, as) p) \<and> parts_valid k ctx (s'', as') v
          \<and> gains k ctx (s, as) (parts_res k ctx (s'', as') v) (s'', as'))"
    using run c a by (fastforce simp: cdma_u_create_queue_def Let_def bind_eq_Some_conv)
  have e: "r'' = r" "s'' = s'" using r run by simp_all
  show ?thesis using p unfolding e by blast
qed

lemma loses_set_queue2 [simp]: "loses k ctx X (set_queue q v s, as) r x' = loses k ctx X (s, as) r x'"
proof -
  have "part_frame ctx X (set_queue q v s) s' = part_frame ctx X s s'" for X s'
    by (simp add: part_frame_def set_queue_def)
  then show ?thesis by (simp add: loses_def)
qed

lemma delete_queue_runs:
  assumes ok: "sys_ok E k" and w: "with_pages k ctx (s, as)" and v: "parts_valid k ctx (s, as) (queues s q)"
    and r: "parts_res k ctx (s, as) (queues s q) \<subseteq># db_bal (s, as)" and j: "cdma_u_delete_jfs E (que_jfs (queues s q)) s = Some (rj, s1)"
  shows "\<exists>s' as'. cdma_u_delete_queue E q s = Some s' \<and> queues s' = queues s
     \<and> loses k ctx (set (parts (queues s q))) (s, as) (parts_res k ctx (s, as) (queues s q)) (s', as')"
proof -
  let ?v = "queues s q" let ?x = "(s, as)"
  let ?j = "que_jfs ?v" and ?t = "que_tp ?v" and ?c = "que_jfc ?v" and ?e = "que_jfce ?v"
  have v': "distinct [?j, ?t, ?c, ?e]" "comp_valid ctx ?x ?e ?c" "ctp_valid ctx s ?t" "jfs_valid k ctx s ?j"
    using v by (simp_all add: parts_valid_def parts_def)
  have rj: "image_mset Inl (jfs_own k ctx s ?j) \<subseteq># db_bal ?x"
    using r unfolding parts_res_def fst_conv by (rule sub_sum_mset2)
  note d1 = drop_jfs [OF w v'(4) rj j]
  have f1: "part_frame ctx {?j} (fst ?x) (fst (s1, as))" using d1(1) by (simp add: loses_def)
  have n: "?t \<notin> {?j}" "?c \<notin> {?j}" "?e \<notin> {?j}" "?c \<notin> {?t}" "?e \<notin> {?t}" using v'(1) by auto
  have b1: "db_bal ?x = db_bal (s1, as) + image_mset Inl (jfs_own k ctx s ?j)" using d1(1) by (simp add: loses_def)
  note c1 = comp_kept [OF f1 n(3,2)] and t1 = parts_kept(3,4) [OF f1 n(1), unfolded fst_conv]
  have r1: "comp_res ctx (s1, as) ?e ?c + image_mset Inl (ctp_res ctx s1 ?t) \<subseteq># db_bal (s1, as)"
    using r b1 c1(1) t1(2) by (simp add: parts_res_def)
  have rt: "image_mset Inl (ctp_res ctx s1 ?t) \<subseteq># db_bal (s1, as)" using r1 by (rule sub_sum_mset2)
  let ?s2 = "snd (cdma_u_delete_ctp E ?t s1)"
  note d2 = drop_ctp [OF loses_pages [OF d1(1)] t1(1) [THEN iffD2, OF v'(3)] rt, of E]
  have b2: "db_bal (s1, as) = db_bal (?s2, as) + image_mset Inl (ctp_res ctx s1 ?t)" using d2(1) by (simp add: loses_def)
  have f2: "part_frame ctx {?t} (fst (s1, as)) (fst (?s2, as))" using d2(1) by (simp add: loses_def)
  note c2 = comp_kept [OF f2 n(5,4)]
  have r2: "comp_res ctx (?s2, as) ?e ?c \<subseteq># db_bal (?s2, as)" using r1 b2 c2(1) by simp
  have "comp_res ctx (s1, as) ?e ?c \<subseteq># db_bal (s1, as)" using r1 by (rule sub_sum_mset)
  then have vv2: "comp_valid ctx (?s2, as) ?e ?c" using c1(2) v'(2) c2(2) r2 by blast
  have q2: "queues ?s2 = queues s" using d1(2) d2(2) by simp
  obtain s3 as3 where d3: "cdma_u_free_jfc_res E q ?s2 = Some s3" "queues s3 = queues ?s2"
    "loses k ctx {?c, ?e} (?s2, as) (comp_res ctx (?s2, as) ?e ?c) (s3, as3)"
    using drop_comp [OF ok loses_pages [OF d2(1)], of q] vv2 r2 unfolding q2 by metis
  have "cdma_u_delete_queue E q s = Some s3" using j d3(1) d1(2) by (simp add: cdma_u_delete_queue_def split_beta)
  moreover have "loses k ctx ({?j} \<union> ({?t} \<union> {?c, ?e})) ?x
      (image_mset Inl (jfs_own k ctx s ?j) + (image_mset Inl (ctp_res ctx s1 ?t) + comp_res ctx (?s2, as) ?e ?c)) (s3, as3)"
    using loses_trans [OF d1(1) loses_trans [OF d2(1) d3(3)]] .
  then have "loses k ctx (set (parts ?v)) ?x (parts_res k ctx ?x ?v) (s3, as3)"
    using c1(1) c2(1) t1(2) by (simp add: parts_def parts_res_def ac_simps insert_commute)
  ultimately show ?thesis using d3(2) q2 by auto
qed

lemma delete_queue_spec:
  assumes "sys_ok E k" and "with_pages k ctx (s, as)" and "parts_valid k ctx (s, as) (queues s q)"
    and "parts_res k ctx (s, as) (queues s q) \<subseteq># db_bal (s, as)" and run: "cdma_u_delete_queue E q s = Some s'"
  shows "\<exists>as'. queues s' = queues s
     \<and> loses k ctx (set (parts (queues s q))) (s, as) (parts_res k ctx (s, as) (queues s q)) (s', as')"
proof -
  obtain rj s1 where "cdma_u_delete_jfs E (que_jfs (queues s q)) s = Some (rj, s1)"
    using run by (auto simp: cdma_u_delete_queue_def bind_eq_Some_conv)
  from delete_queue_runs [OF assms(1-4) this] run show ?thesis by simp
qed

section \<open>Queues have a lifecycle\<close>

definition queue_res :: "nat \<Rightarrow> ptr \<Rightarrow> world \<Rightarrow> ptr \<Rightarrow> (resource + ptr) multiset" where
  "queue_res k ctx x q = parts_res k ctx x (queues (fst x) q)
     + image_mset Inl {#RMem q, RQueue (ctx_fd (fst x) ctx) (que_queue_id (queues (fst x) q))#}"

definition queue_valid :: "nat \<Rightarrow> ptr \<Rightarrow> world \<Rightarrow> ptr \<Rightarrow> bool" where
  "queue_valid k ctx x q \<longleftrightarrow> q \<noteq> NULL \<and> que_ctx (queues (fst x) q) = ctx \<and> q \<notin> set (parts (queues (fst x) q))
     \<and> parts_valid k ctx x (queues (fst x) q)"

lemma queue_down:
  assumes w: "with_pages k ctx (s, as)" and c: "que_ctx (queues s q) = ctx" "ctx \<noteq> NULL" "ctx_dev s ctx \<noteq> NULL" "0 \<le> ctx_fd s ctx"
    and q: "q \<noteq> NULL"
    and r: "image_mset Inl {#RMem q, RQueue (ctx_fd s ctx) (que_queue_id (queues s q))#} \<subseteq># db_bal (s, as)"
  shows "loses k ctx {} (s, as) (image_mset Inl {#RMem q, RQueue (ctx_fd s ctx) (que_queue_id (queues s q))#})
           (sys_free q (snd (cdma_u_cmd_delete_queue E q s)), as)"
    and "queues (sys_free q (snd (cdma_u_cmd_delete_queue E q s))) = queues s"
proof -
  let ?s = "sys_free q (snd (cdma_u_cmd_delete_queue E q s))"
  obtain ret out where "?s = emit (EvFree q) (emit (EvIoctl (ctx_fd s ctx)
      (CDMA_CMD_DELETE_QUEUE (que_queue_id (queues s q)) (que_handle (queues s q))) ret out) s)"
    using c by (auto simp: cdma_u_cmd_delete_queue_def sys_ioctl_def sys_free_def Let_def split_beta)
  then have e: "part_frame ctx {} s ?s" "ctxs ?s = ctxs s" "pages ?s = pages s" "queues ?s = queues s"
    "live ?s = live s - {#RMem q, RQueue (ctx_fd s ctx) (que_queue_id (queues s q))#}"
    using q by (simp_all add: live_simps diff_diff_eq add_mset_commute)
  show "queues ?s = queues s" by (rule e(4))
  show "loses k ctx {} (s, as) (image_mset Inl {#RMem q, RQueue (ctx_fd s ctx) (que_queue_id (queues s q))#}) (?s, as)"
    using loses_live [OF w e(1,2,3,5) _ r] by simp
qed

lemma cmd_create_queue_ok:
  assumes "cdma_u_cmd_create_queue E ctx q cfg s = (0, s')"
  shows "ctx_dev s ctx \<noteq> NULL \<and> 0 \<le> ctx_fd s ctx
    \<and> (\<exists>rq out v. s' = set_queue q v (emit (EvIoctl (ctx_fd s ctx) (CDMA_CMD_CREATE_QUEUE rq) 0 out) s)
         \<and> que_queue_id v = word_of_int (out_queue_id out))"
proof -
  have c: "\<not> (ctx_dev s ctx = NULL \<or> ctx_fd s ctx < 0)" using assms by (auto simp: cdma_u_cmd_create_queue_def)
  obtain rq where "cdma_u_cmd_create_queue E ctx q cfg s = (let ((ret, out), s1) = sys_ioctl E (ctx_fd s ctx) (CDMA_CMD_CREATE_QUEUE rq) s
            in if ret \<noteq> 0 then (ret, s1)
               else (ret, set_queue q ((queues s1 q)\<lparr>que_handle := out_handle out,
                      que_queue_id := word_of_int (out_queue_id out)\<rparr>) s1))"
    using c by (auto simp: cdma_u_cmd_create_queue_def Let_def)
  moreover obtain ret out where "sys_ioctl E (ctx_fd s ctx) (CDMA_CMD_CREATE_QUEUE rq) s =
      ((ret, out), emit (EvIoctl (ctx_fd s ctx) (CDMA_CMD_CREATE_QUEUE rq) ret out) s)"
    by (cases "e_ioctl E (tr s) (ctx_fd s ctx) (CDMA_CMD_CREATE_QUEUE rq)") (simp add: sys_ioctl_def)
  ultimately have "s' = set_queue q ((queues s q)\<lparr>que_handle := out_handle out, que_queue_id := word_of_int (out_queue_id out)\<rparr>)
      (emit (EvIoctl (ctx_fd s ctx) (CDMA_CMD_CREATE_QUEUE rq) 0 out) s)"
    using assms by (auto split: if_splits)
  then show ?thesis using c by (intro conjI exI) (assumption | simp)+
qed

lemma alloc_queue_spec:
  assumes ok: "sys_ok E k" "jfce_ok E" and c0: "ctx \<noteq> NULL" and w: "with_pages k ctx (s, as)" and run: "cdma_alloc_queue E ctx cfg s = Some (p, s')"
  shows "\<exists>as'. (\<forall>y. \<not> free_at (s, as) y \<longrightarrow> queues s' y = queues s y)
     \<and> (if p = NULL then gains k ctx (s, as) {#} (s', as')
        else free_at (s, as) p \<and> (\<forall>y\<in>set (parts (queues s' p)). free_at (s, as) y) \<and> queue_valid k ctx (s', as') p
          \<and> gains k ctx (s, as) (queue_res k ctx (s', as') p) (s', as'))"
proof -
  let ?x = "(s, as)"
  obtain q s1 where q: "sys_alloc E ObjQueue s = (q, s1)" by (cases "sys_alloc E ObjQueue s")
  note q' = sys_alloc_fresh [OF ok(1) q]
  show ?thesis
  proof (cases "q = NULL")
    case True
    then have "p = NULL" "s' = s1" using run q by (simp_all add: cdma_alloc_queue_def)
    then show ?thesis using q' True gains_live [OF w, of s1 "{#}"] mem_fresh_simple(1) by (intro exI [of _ as]) (simp add: live_simps)
  next
    case q0: False
    let ?s1 = "set_queue q zero_queue s1"
    have fq: "free_at ?x q" using q' q0 free_at_live by blast
    then have old: "\<not> free_at ?x y \<Longrightarrow> y \<noteq> q" for y by blast
    obtain rc s2 where c: "cdma_u_cmd_create_queue E ctx q cfg ?s1 = (rc, s2)" by (cases "cdma_u_cmd_create_queue E ctx q cfg ?s1")
    show ?thesis
    proof (cases "rc = 0")
      case False
      have e: "p = NULL" "s' = sys_free q s2" using run q q0 c False by (simp_all add: cdma_alloc_queue_def)
      have "s2 = ?s1 \<or> (\<exists>rq out. s2 = emit (EvIoctl (ctx_fd ?s1 ctx) (CDMA_CMD_CREATE_QUEUE rq) rc out) ?s1)"
        using c False by (auto simp: cdma_u_cmd_create_queue_def sys_ioctl_def Let_def split_beta split: if_splits)
      then have f: "part_frame ctx (Collect (free_at ?x)) s s'" "ctxs s' = ctxs s" "pages s' = pages s" "live s' = live s + {#}"
          "queues s' = (queues s)(q := zero_queue)"
        using q' q0 False unfolding e(2) by (auto simp: sys_free_def live_simps set_queue_def part_frame_def)
      show ?thesis using gains_live [OF w f(1-4)] mem_fresh_simple(1) f(5) old e(1) by (intro exI [of _ as]) auto
    next
      case r0: True
      let ?fd = "ctx_fd s ctx" let ?id = "que_queue_id (queues s2 q)"
      have cc: "ctx_fd ?s1 = ctx_fd s" "ctx_dev ?s1 = ctx_dev s" using q' by simp_all
      have "ctx_dev s ctx \<noteq> NULL \<and> 0 \<le> ctx_fd s ctx
         \<and> (\<exists>rq out v. s2 = set_queue q v (emit (EvIoctl (ctx_fd s ctx) (CDMA_CMD_CREATE_QUEUE rq) 0 out) ?s1)
              \<and> que_queue_id v = word_of_int (out_queue_id out))"
        using cmd_create_queue_ok [of E ctx q cfg ?s1 s2] c r0 cc by simp
      with c0 obtain rq out v where cx: "ctx \<noteq> NULL" "ctx_dev s ctx \<noteq> NULL" "0 \<le> ?fd"
        and s2: "s2 = set_queue q v (emit (EvIoctl ?fd (CDMA_CMD_CREATE_QUEUE rq) 0 out) ?s1)"
          "que_queue_id v = word_of_int (out_queue_id out)" by blast
      have f2: "part_frame ctx (Collect (free_at ?x)) s s2" "ctxs s2 = ctxs s" "pages s2 = pages s" "live s2 = live s + {#RMem q, RQueue ?fd ?id#}"
          "queues s2 = (queues s)(q := v)"
        using q' q0 s2 by (auto simp: live_simps set_queue_def part_frame_def)
      have g2: "gains k ctx ?x (image_mset Inl {#RMem q, RQueue ?fd ?id#}) (s2, as)" using gains_live [OF w f2(1-4)] q' q0 by (auto simp: mem_fresh_def)
      have c2: "ctx_fd s2 ctx = ?fd" "ctx_dev s2 ctx = ctx_dev s ctx" using part_frame_ctx [OF f2(1)] by simp_all
      obtain r3 s3 where d: "cdma_u_create_queue E ctx cfg (ucast (que_handle (queues s2 q))) q s2 = Some (r3, s3)"
        using run q q0 c r0 by (auto simp: cdma_alloc_queue_def bind_eq_Some_conv)
      have nq: "ctx_dev s2 ctx \<noteq> NULL" using c2 cx by simp
      from create_queue_spec [OF ok gains_pages [OF g2] cx(1) nq d] obtain as3 u where
        u: "queues s3 = (queues s2)(q := u)" "que_ctx u = ctx" "que_queue_id u = ?id"
        and u': "if r3 \<noteq> 0 then gains k ctx (s2, as) {#} (s3, as3)
          else (\<forall>p\<in>set (parts u). free_at (s2, as) p) \<and> parts_valid k ctx (s3, as3) u
            \<and> gains k ctx (s2, as) (parts_res k ctx (s3, as3) u) (s3, as3)" by blast
      have qs3: "queues s3 = (queues s)(q := u)" using u(1) f2(5) by simp
      have f3: "part_frame ctx (Collect (free_at (s2, as))) s2 s3" using u' by (auto simp: gains_def split: if_splits)
      have c3: "ctx_fd s3 ctx = ?fd" "ctx_dev s3 ctx = ctx_dev s ctx" using part_frame_ctx [OF f3] c2 by simp_all
      show ?thesis
      proof (cases "r3 = 0")
        case False
        let ?r = "image_mset Inl {#RMem q, RQueue ?fd ?id#}"
        have e: "p = NULL" "s' = sys_free q (snd (cdma_u_cmd_delete_queue E q s3))"
          using run q q0 c r0 d False by (auto simp: cdma_alloc_queue_def Let_def)
        have g3: "gains k ctx ?x ({#} + ?r) (s3, as3)" using gains_trans [OF g2, of "{#}"] u' False by simp
        have b3: "?r \<subseteq># db_bal (s3, as3)" using g3 by (simp add: gains_def)
        have "queues s3 q = u" unfolding qs3 by simp
        then have l: "loses k ctx {} (s3, as3) ?r (s', as3)" "queues s' = queues s3"
          using queue_down [OF gains_pages [OF g3], of q E] u cx c3 q0 b3 unfolding e(2) by simp_all
        have "gains k ctx ?x {#} (s', as3)" using gains_loses [OF g3 l(1)] by simp
        then show ?thesis using l(2) qs3 old e(1) by (intro exI [of _ as3]) auto
      next
        case True
        let ?u = "(queues s3 q)\<lparr>que_cfg := cfg, que_ctx := ctx\<rparr>"
        have e: "p = q" "s' = set_queue q ?u s3" using run q q0 c r0 d True by (auto simp: cdma_alloc_queue_def Let_def)
        have p: "parts ?u = parts u" "parts_valid k ctx x ?u = parts_valid k ctx x u" "parts_res k ctx x ?u = parts_res k ctx x u"
            "que_queue_id ?u = ?id" for x
          unfolding qs3 by (simp_all add: parts_def parts_valid_def parts_res_def u(3))
        have pq: "parts_valid k ctx (set_queue q ?u s3, as3) w = parts_valid k ctx (s3, as3) w"
          "parts_res k ctx (set_queue q ?u s3, as3) w = parts_res k ctx (s3, as3) w" for w
          by (simp_all add: parts_valid_def parts_res_def)
        have qs: "queues s' = (queues s)(q := ?u)" "queues s' q = ?u" unfolding e(2) queues_set_queue(1) by (simp_all add: qs3)
        have fp: "\<forall>y\<in>set (parts u). free_at (s2, as) y" "parts_valid k ctx (s3, as3) u"
            "gains k ctx (s2, as) (parts_res k ctx (s3, as3) u) (s3, as3)" using u' True by simp_all
        have nq2: "\<not> free_at (s2, as) q" using gains_live_at [OF g2] by simp
        have fd': "ctx_fd s' ctx = ?fd" unfolding e(2) using c3 by simp
        have "q \<notin> set (parts u)" using fp(1) nq2 by blast
        then have "queue_valid k ctx (s', as3) q" unfolding queue_valid_def fst_conv qs(2)
          using q0 fp(2) p by (simp add: e(2) pq)
        moreover have "queue_res k ctx (s', as3) q = image_mset Inl {#RMem q, RQueue ?fd ?id#} + parts_res k ctx (s3, as3) u"
          unfolding queue_res_def fst_conv qs(2) p fd' by (simp add: e(2) pq)
        then have "gains k ctx ?x (queue_res k ctx (s', as3) q) (s', as3)"
          using gains_trans [OF g2 fp(3)] by (simp add: e(2))
        moreover have "\<forall>y\<in>set (parts (queues s' q)). free_at ?x y"
          unfolding qs(2) p using fp(1) gains_free [OF g2] by blast
        ultimately show ?thesis using fq qs(1) old q0 by (intro exI [of _ as3]) (auto simp: e(1))
      qed
    qed
  qed
qed

lemma free_queue_runs:
  assumes ok: "sys_ok E k" and w: "with_pages k ctx (s, as)" and v: "queue_valid k ctx (s, as) q"
    and r: "queue_res k ctx (s, as) q \<subseteq># db_bal (s, as)" and j: "cdma_u_delete_jfs E (que_jfs (queues s q)) s = Some (rj, sj)"
  shows "\<exists>s' as'. cdma_free_queue E q s = Some s' \<and> queues s' = queues s \<and> loses k ctx (set (parts (queues s q))) (s, as) (queue_res k ctx (s, as) q) (s', as')"
proof -
  have v': "parts_valid k ctx (s, as) (queues s q)" "q \<noteq> NULL" "que_ctx (queues s q) = ctx"
    using v by (simp_all add: queue_valid_def)
  have rr: "parts_res k ctx (s, as) (queues s q) \<subseteq># db_bal (s, as)"
    using r unfolding queue_res_def fst_conv by (rule sub_sum_mset)
  from delete_queue_runs [OF ok w v'(1) rr j] obtain s1 as1 where d: "cdma_u_delete_queue E q s = Some s1" and l: "queues s1 = queues s"
    "loses k ctx (set (parts (queues s q))) (s, as) (parts_res k ctx (s, as) (queues s q)) (s1, as1)" by blast
  have f: "part_frame ctx (set (parts (queues s q))) s s1" "db_bal (s, as) = db_bal (s1, as1) + parts_res k ctx (s, as) (queues s q)"
    using l(2) by (simp_all add: loses_def)
  note c = part_frame_ctx [OF f(1)]
  have cx: "ctx \<noteq> NULL" "ctx_dev s1 ctx \<noteq> NULL" "0 \<le> ctx_fd s1 ctx" "que_ctx (queues s1 q) = ctx"
    using v' c l(1) by (simp_all add: parts_valid_def jfs_valid_def)
  have "image_mset Inl {#RMem q, RQueue (ctx_fd s1 ctx) (que_queue_id (queues s1 q))#} \<subseteq># db_bal (s1, as1)"
    using r f(2) c(1) l(1) by (simp add: queue_res_def add_mset_commute)
  note q = queue_down [OF loses_pages [OF l(2)] cx(4,1,2,3) v'(2) this, of E]
  have "loses k ctx (set (parts (queues s q)) \<union> {}) (s, as) (queue_res k ctx (s, as) q)
      (sys_free q (snd (cdma_u_cmd_delete_queue E q s1)), as1)"
    using loses_trans [OF l(2) q(1)] c(1) l(1) unfolding queue_res_def by simp
  then show ?thesis using q(2) l(1) d by (auto simp: cdma_free_queue_def)
qed

lemma free_queue_spec:
  assumes "sys_ok E k" and "with_pages k ctx (s, as)" and "queue_valid k ctx (s, as) q"
    and "queue_res k ctx (s, as) q \<subseteq># db_bal (s, as)" and run: "cdma_free_queue E q s = Some s'"
  shows "\<exists>as'. queues s' = queues s \<and> loses k ctx (set (parts (queues s q))) (s, as) (queue_res k ctx (s, as) q) (s', as')"
proof -
  obtain rj sj where "cdma_u_delete_jfs E (que_jfs (queues s q)) s = Some (rj, sj)"
    using run by (auto simp: cdma_free_queue_def cdma_u_delete_queue_def bind_eq_Some_conv)
  from free_queue_runs [OF assms(1-4) this] run show ?thesis by simp
qed

section \<open>Any number of queues\<close>

text \<open>No memory is handed out twice: a live address is in the balance once.\<close>

definition once :: "world \<Rightarrow> bool" where
  "once x \<longleftrightarrow> (\<forall>p. count (db_bal x) (Inl (RMem p)) \<le> 1)"

lemma once_gains:
  assumes "once x" and "gains k ctx x r x'"
  shows "once x'"
proof -
  have "count (db_bal x') (Inl (RMem p)) \<le> 1" for p
    using assms by (cases "Inl (RMem p) \<in># r")
      (auto simp: gains_def fresh_in_def once_def add.commute not_in_iff dest!: spec [of _ p])
  then show ?thesis by (simp add: once_def)
qed

lemma once_loses: "once x \<Longrightarrow> loses k ctx X x r x' \<Longrightarrow> once x'"
  by (auto simp: once_def loses_def) (metis add_leD1)

lemma once_disjoint:
  assumes "once x" and "r + r' \<subseteq># db_bal x" and "Inl (RMem p) \<in># r"
  shows "Inl (RMem p) \<notin># r'"
proof
  assume "Inl (RMem p) \<in># r'"
  then have "2 \<le> count (r + r') (Inl (RMem p))" using assms(3) by (simp flip: count_greater_zero_iff)
  also have "\<dots> \<le> count (db_bal x) (Inl (RMem p))" using assms(2) by (rule mset_subset_eq_count)
  also have "\<dots> \<le> 1" using assms(1) by (simp add: once_def)
  finally show False by simp
qed

lemma queue_mem:
  "Inl (RMem q) \<in># queue_res k ctx x q" "p \<in> set (parts (queues (fst x) q)) \<Longrightarrow> Inl (RMem p) \<in># queue_res k ctx x q"
proof -
  show "Inl (RMem q) \<in># queue_res k ctx x q" by (simp add: queue_res_def)
  assume "p \<in> set (parts (queues (fst x) q))"
  then have "p = que_jfs (queues (fst x) q) \<or> p = que_tp (queues (fst x) q) \<or> p = que_jfc (queues (fst x) q)
      \<or> p = que_jfce (queues (fst x) q)" by (auto simp: parts_def)
  then show "Inl (RMem p) \<in># queue_res k ctx x q"
    unfolding queue_res_def parts_res_def union_iff by (elim disjE) (simp_all only: comp_mem res_mem simp_thms)
qed

lemma queue_kept:
  assumes f: "part_frame ctx X (fst x) (fst x')" and X: "\<forall>p\<in>set (parts (queues (fst x) q)). p \<notin> X"
    and q: "queues (fst x') q = queues (fst x) q"
  shows "queue_res k ctx x' q = queue_res k ctx x q"
    and "queue_valid k ctx x q \<Longrightarrow> queue_res k ctx x q \<subseteq># db_bal x' \<Longrightarrow> queue_valid k ctx x' q"
proof -
  let ?v = "queues (fst x) q"
  have n: "que_jfce ?v \<notin> X" "que_jfc ?v \<notin> X" "que_tp ?v \<notin> X" "que_jfs ?v \<notin> X" using X by (simp_all add: parts_def)
  note c = comp_kept [OF f n(1,2)] and t = parts_kept(3,4) [OF f n(3)] and j = parts_kept(5,6) [OF f n(4)]
  have r: "parts_res k ctx x' ?v = parts_res k ctx x ?v" using c(1) t(2) j(2) [of k] by (simp add: parts_res_def)
  then show "queue_res k ctx x' q = queue_res k ctx x q" using q part_frame_ctx(1) [OF f] by (simp add: queue_res_def)
  assume v: "queue_valid k ctx x q" and sub: "queue_res k ctx x q \<subseteq># db_bal x'"
  have "parts_res k ctx x ?v \<subseteq># db_bal x'" using sub unfolding queue_res_def by (rule sub_sum_mset)
  then have "comp_res ctx x (que_jfce ?v) (que_jfc ?v) \<subseteq># db_bal x'"
    unfolding parts_res_def by (rule sub_sum_mset(1) [OF sub_sum_mset(1)])
  then have "comp_valid ctx x' (que_jfce ?v) (que_jfc ?v)" using v c by (simp add: queue_valid_def parts_valid_def)
  then show "queue_valid k ctx x' q" using v q t(1) j(1) [of k] by (simp add: queue_valid_def parts_valid_def)
qed

interpretation queue: lifecycle "\<lambda>x. sys_ok E k \<and> jfce_ok E \<and> ctx \<noteq> NULL \<and> with_pages k ctx x \<and> once x" db_bal
  "queue_valid k ctx" "queue_res k ctx"
  "\<lambda>x obj x'. \<exists>cfg r. cdma_alloc_queue E ctx cfg (fst x) = Some r \<and> outcome r obj (fst x') \<and> with_pages k ctx x'"
  "\<lambda>x q x'. cdma_free_queue E q (fst x) = Some (fst x') \<and> with_pages k ctx x'"
  for E k ctx
proof (unfold_locales, goal_cases)
  case (1 x p x')
  obtain s as s' bs where x: "x = (s, as)" "x' = (s', bs)" by (cases x; cases x')
  obtain cfg where c: "cdma_alloc_queue E ctx cfg s = Some (p, s')" "p \<noteq> NULL" and bs: "db_inv k s' ctx bs"
    using 1(2) by (auto simp: x with_pages_def)
  obtain as' where a: "queue_valid k ctx (s', as') p" "gains k ctx (s, as) (queue_res k ctx (s', as') p) (s', as')"
    using alloc_queue_spec [OF _ _ _ _ c(1), of k as] 1(1) c(2) by (auto simp: x)
  have "as' = bs" using gains_pages [OF a(2)] db_inv_unique [OF bs] by (simp add: with_pages_def)
  then show ?case using 1(1) a once_gains [OF _ a(2)] gains_pages [OF a(2)] by (auto simp: x gains_def)
next
  case (2 x x')
  obtain s as s' bs where x: "x = (s, as)" "x' = (s', bs)" by (cases x; cases x')
  obtain cfg where c: "cdma_alloc_queue E ctx cfg s = Some (NULL, s')" and bs: "db_inv k s' ctx bs"
    using 2(2) by (auto simp: x with_pages_def)
  obtain as' where a: "gains k ctx (s, as) {#} (s', as')"
    using alloc_queue_spec [OF _ _ _ _ c, of k as] 2(1) by (auto simp: x)
  have "as' = bs" using gains_pages [OF a] db_inv_unique [OF bs] by (simp add: with_pages_def)
  then show ?case using 2(1) a once_gains [OF _ a] gains_pages [OF a] by (auto simp: x gains_def)
next
  case (3 x r x' y)
  obtain s as s' bs where x: "x = (s, as)" "x' = (s', bs)" by (cases x; cases x')
  obtain cfg p where c: "cdma_alloc_queue E ctx cfg s = Some (p, s')" "r = (if p = NULL then None else Some p)"
    and bs: "db_inv k s' ctx bs"
    using 3(2) by (auto simp: x with_pages_def elim: outcomeE)
  obtain as' R where a: "\<forall>y. \<not> free_at (s, as) y \<longrightarrow> queues s' y = queues s y" "gains k ctx (s, as) R (s', as')"
      "p \<noteq> NULL \<longrightarrow> free_at (s, as) p"
    using alloc_queue_spec [OF _ _ _ _ c(1), of k as] 3(1) by (auto simp: x split: if_splits)
  have as': "as' = bs" using gains_pages [OF a(2)] db_inv_unique [OF bs] by (simp add: with_pages_def)
  have live: "\<not> free_at (s, as) z" if "Inl (RMem z) \<in># queue_res k ctx (s, as) y" for z
    using mset_subset_eqD [OF 3(4)] that by (simp add: x free_at_def)
  have b: "db_bal (s', bs) = db_bal (s, as) + R" using a(2) as' by (simp add: gains_def)
  have q: "queues (fst (s', bs)) y = queues (fst (s, as)) y" using a(1) live queue_mem(1) by (metis fst_conv)
  have f: "part_frame ctx (Collect (free_at (s, as))) (fst (s, as)) (fst (s', bs))" using a(2) as' by (simp add: gains_def)
  have n: "\<forall>p\<in>set (parts (queues (fst (s, as)) y)). p \<notin> Collect (free_at (s, as))" using live queue_mem(2) by blast
  note k = queue_kept [OF f n q, of k]
  have "queue_res k ctx (s, as) y \<subseteq># db_bal (s', bs)" using 3(4) by (simp add: x b subset_mset.add_increasing2)
  then show ?case using k 3(3) c(2) a(3) live queue_mem(1) by (auto simp: x)
next
  case (4 x q x')
  obtain s as s' bs where x: "x = (s, as)" "x' = (s', bs)" by (cases x; cases x')
  obtain as' where l: "loses k ctx (set (parts (queues s q))) (s, as) (queue_res k ctx (s, as) q) (s', as')"
    using free_queue_spec [of E k ctx s as q s'] 4 by (auto simp: x)
  have "as' = bs" using loses_pages [OF l] 4(4) db_inv_unique [of k s' ctx as' bs] by (simp add: x with_pages_def)
  then show ?case using 4(1) l once_loses [OF _ l] loses_pages [OF l] by (auto simp: x loses_def)
next
  case (5 x q y x')
  obtain s as s' bs where x: "x = (s, as)" "x' = (s', bs)" by (cases x; cases x')
  have "queue_res k ctx x q \<subseteq># db_bal x" using 5(5) by (rule sub_sum_mset)
  then obtain as' where l: "queues s' = queues s"
      "loses k ctx (set (parts (queues s q))) (s, as) (queue_res k ctx (s, as) q) (s', as')"
    using free_queue_spec [of E k ctx s as q s'] 5 by (auto simp: x)
  have as': "as' = bs" using loses_pages [OF l(2)] 5(6) db_inv_unique [of k s' ctx as' bs] by (simp add: x with_pages_def)
  have f: "part_frame ctx (set (parts (queues s q))) (fst (s, as)) (fst (s', bs))" using l(2) as' by (simp add: loses_def)
  have "once (s, as)" using 5(1) by (simp add: x)
  then have d: "Inl (RMem p) \<notin># queue_res k ctx (s, as) y" if "p \<in> set (parts (queues s q))" for p
    using once_disjoint [of "(s, as)" "queue_res k ctx (s, as) q"] 5(5) queue_mem(2) [of p "(s, as)" q k ctx] that by (simp add: x)
  then have n: "\<forall>p\<in>set (parts (queues (fst (s, as)) y)). p \<notin> set (parts (queues s q))"
    using queue_mem(2) [of _ "(s, as)" y k ctx] by blast
  have q: "queues (fst (s', bs)) y = queues (fst (s, as)) y" using l(1) by simp
  note k = queue_kept [OF f n q, of k]
  have "queue_res k ctx (s, as) y + queue_res k ctx (s, as) q \<subseteq># db_bal (s', bs) + queue_res k ctx (s, as) q"
    using 5(5) l(2) as' by (simp add: x loses_def ac_simps)
  then have "queue_res k ctx (s, as) y \<subseteq># db_bal (s', bs)" by simp
  then show ?case using k 5(3) by (simp add: x)
qed

end
