(* ===== verification/Cdma_Sync.thy ===== *)
theory Cdma_Sync
  imports Cdma_Queue_Life
begin

text \<open>
  The mutexes and condition variables of the process. \<open>cdma_ack_event_init\<close> (\<open>cdma_u_jfc.c\<close>)
  initialises \<open>event_mutex\<close> and \<open>event_cond\<close> of a completion queue, and no operation destroys them:
  the balance \<open>db_bal\<close> leaves them out, and here \<open>syncs\<close> counts them. Every step of the life of a
  queue leaves \<open>syncs\<close> as it is, but for the creation of a completion queue, which adds its pair.
\<close>

section \<open>What leaves them alone\<close>

definition syncs :: "st \<Rightarrow> resource multiset" where
  "syncs s = filter_mset (\<lambda>r. \<not> no_sync r) (live s)"

text \<open>The pair of the completion queue at \<open>p\<close>; 64 and 104 are the offsets of the members.\<close>

definition jfc_syncs :: "ptr \<Rightarrow> resource multiset" where
  "jfc_syncs p = {#RMutex (p + 64), RCond (p + 104)#}"

named_theorems sync_simps "steps that leave mutexes and condition variables alone"

lemma syncs_live: "live s' = live s \<Longrightarrow> syncs s' = syncs s"
  by (simp add: syncs_def)

lemma syncs_store [sync_simps]:
  "syncs (s\<lparr>ctxs := a1\<rparr>) = syncs s" "syncs (s\<lparr>pages := a2\<rparr>) = syncs s" "syncs (s\<lparr>jfces := a3\<rparr>) = syncs s"
  "syncs (s\<lparr>jfcs := a4\<rparr>) = syncs s" "syncs (s\<lparr>jfss := a5\<rparr>) = syncs s" "syncs (s\<lparr>tps := a6\<rparr>) = syncs s"
  "syncs (s\<lparr>queues := a7\<rparr>) = syncs s" "syncs (s\<lparr>cqes := b0\<rparr>) = syncs s" "syncs (s\<lparr>swdbs := b2\<rparr>) = syncs s"
  "syncs (set_queue q v s) = syncs s" "syncs (set_jfs j w s) = syncs s" "syncs (set_cq c u s) = syncs s"
  by (simp_all add: syncs_def live_simps set_queue_def set_jfs_def set_cq_def)

lemma kernel_no_sync:
  "{#r \<in># kacquired fd rq out. \<not> no_sync r#} = {#}" "{#r \<in># kreleased fd rq. \<not> no_sync r#} = {#}"
  by (cases rq; simp add: no_sync_def)+

lemma syncs_emit [sync_simps]:
  "syncs (emit (EvAlloc ob p) s) = syncs s" "syncs (emit (EvFree p) s) = syncs s" "syncs (emit (EvMmapAnon n p) s) = syncs s"
  "syncs (emit (EvMmapDev fd n off p) s) = syncs s" "syncs (emit (EvMadvise p n r) s) = syncs s"
  "syncs (emit (EvMunmap p n) s) = syncs s" "syncs (emit (EvSpinInit p r) s) = syncs s" "syncs (emit (EvSpinDestroy p) s) = syncs s"
  "syncs (emit (EvIoctl fd rq r out) s) = syncs s" "syncs (emit (EvClose fd) s) = syncs s" "syncs (emit (EvLock p) s) = syncs s"
  "syncs (emit (EvUnlock p) s) = syncs s" "syncs (emit (EvMmio64 p d) s) = syncs s" "syncs (emit EvBarrierSt s) = syncs s"
  by (simp_all add: syncs_def live_simps kernel_no_sync del: filter_mset_eq_mempty_iff)

lemma syncs_sys [sync_simps]:
  "syncs (sys_free p s) = syncs s" "syncs (sys_munmap p n s) = syncs s" "syncs (sys_close fd s) = syncs s"
  by (simp_all add: sys_defs sync_simps)

lemma sys_step:
  "sys_alloc E ob s = (p, s') \<Longrightarrow> syncs s' = syncs s" "sys_spin_init E p s = (r, s') \<Longrightarrow> syncs s' = syncs s"
  "sys_mmap_dev E fd n off s = (p, s') \<Longrightarrow> syncs s' = syncs s" "sys_ioctl E fd rq s = (x, s') \<Longrightarrow> syncs s' = syncs s"
  by (auto simp: sys_defs Let_def sync_simps split: prod.splits)

lemma sys_snd [sync_simps]:
  "syncs (snd (sys_alloc E ob s)) = syncs s" "syncs (snd (sys_spin_init E p s)) = syncs s"
  "syncs (snd (sys_mmap_dev E fd n off s)) = syncs s" "syncs (snd (sys_ioctl E fd rq s)) = syncs s"
  by (rule sys_step, rule surjective_pairing)+

subsection \<open>Buffers and doorbells\<close>

lemma buf_syncs [sync_simps]:
  "syncs (snd (cdma_u_alloc_buf E n s)) = syncs s" "syncs (cdma_u_free_buf p n s) = syncs s"
  "syncs (snd (cdma_u_free_queue_buf q s)) = syncs s"
  by (simp_all add: cdma_u_alloc_buf_def cdma_u_free_buf_def cdma_u_free_queue_buf_def sys_defs Let_def sync_simps)

lemma alloc_queue_buf_syncs: "cdma_u_alloc_queue_buf E q n es ps en s = Some (r, q', s') \<Longrightarrow> syncs s' = syncs s"
  by (auto simp: cdma_u_alloc_queue_buf_def bind_eq_Some_conv Let_def split_beta sync_simps split: if_splits)

lemma db_page_syncs [sync_simps]:
  "syncs (snd (cdma_add_db_page E ctx s)) = syncs s" "syncs (cdma_clear_db_page p s) = syncs s"
  "syncs (unlink_db_page ctx p s) = syncs s"
  by (simp_all add: cdma_add_db_page_def cdma_bitmap_alloc_def cdma_bitmap_free_def cdma_clear_db_page_def
      unlink_db_page_def Let_def split_beta sync_simps)

lemma sw_db_syncs:
  "cdma_u_alloc_sw_db E ctx s = Some (db, s') \<Longrightarrow> syncs s' = syncs s"
  "cdma_u_free_sw_db ctx p s = Some s' \<Longrightarrow> syncs s' = syncs s"
  by (auto simp: cdma_u_alloc_sw_db_def cdma_u_free_sw_db_def bind_eq_Some_conv Let_def split_beta sync_simps split: if_splits)

lemma db_syncs:
  "cdma_u_alloc_db E ctx db s = Some (r, db', s') \<Longrightarrow> syncs s' = syncs s"
  "cdma_u_free_db ctx db s = Some (db', s') \<Longrightarrow> syncs s' = syncs s"
  by (auto simp: cdma_u_alloc_db_def cdma_u_free_db_def bind_eq_Some_conv Let_def split_beta sync_simps split: if_splits)

subsection \<open>Event channels, transport channels, send queues\<close>

lemma jfce_syncs [sync_simps]:
  "syncs (snd (cdma_u_create_jfce E ctx s)) = syncs s" "syncs (snd (cdma_u_delete_jfce p s)) = syncs s"
  by (simp_all add: cdma_u_create_jfce_def cdma_cmd_create_jfce_def cdma_u_delete_jfce_def Let_def split_beta sync_simps)

lemma ctp_syncs [sync_simps]:
  "syncs (snd (cdma_u_create_ctp E ctx cfg s)) = syncs s" "syncs (snd (cdma_u_delete_ctp E p s)) = syncs s"
  by (simp_all add: cdma_u_create_ctp_def cdma_cmd_create_ctp_def cdma_u_delete_ctp_def cdma_cmd_delete_ctp_def
      Let_def split_beta sync_simps)

lemma create_sq_syncs: "cdma_u_create_sq E jfs sq cfg s = Some (r, sq', s') \<Longrightarrow> syncs s' = syncs s"
  by (auto simp: cdma_u_create_sq_def bind_eq_Some_conv Let_def split_beta sync_simps
      dest!: alloc_queue_buf_syncs split: if_splits)

lemma jfs_cmd_syncs [sync_simps]:
  "syncs (snd (cdma_u_exec_create_jfs_cmd E ctx jfs cfg s)) = syncs s" "syncs (snd (cdma_u_cmd_delete_jfs E jfs s)) = syncs s"
  "syncs (free_jfs_sq jfs s) = syncs s"
  by (simp_all add: cdma_u_exec_create_jfs_cmd_def cdma_u_cmd_create_jfs_def cdma_u_cmd_delete_jfs_def free_jfs_sq_def
      cdma_u_delete_sq_def Let_def split_beta sync_simps)

lemma create_jfs_syncs: "cdma_u_create_jfs E ctx cfg s = Some (p, s') \<Longrightarrow> syncs s' = syncs s"
  by (auto simp: cdma_u_create_jfs_def bind_eq_Some_conv Let_def split_beta sync_simps
      dest!: create_sq_syncs db_syncs split: if_splits)

text \<open>Creating a send queue leaves the queue objects alone.\<close>

lemma jfs_steps_queues [simp]:
  "queues (snd (cdma_u_exec_create_jfs_cmd E ctx jfs cfg s)) = queues s" "queues (snd (cdma_u_cmd_delete_jfs E jfs s)) = queues s"
  "queues (set_jfs jfs j s) = queues s" "queues (sys_free p s) = queues s" "queues (snd (sys_alloc E ob s)) = queues s"
  by (simp_all add: cdma_u_exec_create_jfs_cmd_def cdma_u_cmd_create_jfs_def cdma_u_cmd_delete_jfs_def set_jfs_def sys_defs
      Let_def split_beta)

lemma free_jfs_sq_queues [simp]: "queues (free_jfs_sq jfs s) = queues s"
  using free_queue_buf_frame [of "jfs_sq (jfss s jfs)" s]
  by (auto simp: free_jfs_sq_def cdma_u_delete_sq_def split_beta Let_def)

lemma spin_init_queues [simp]: "queues (snd (sys_spin_init E p s)) = queues s"
  by (simp add: sys_defs Let_def)

lemma alloc_queue_buf_queues: "cdma_u_alloc_queue_buf E q n es ps en s = Some (r, q', s') \<Longrightarrow> queues s' = queues s"
  using alloc_queue_buf_frame [of E q n es ps en s r q' s'] by auto

lemma create_sq_queues: "cdma_u_create_sq E jfs sq cfg s = Some (r, sq', s') \<Longrightarrow> queues s' = queues s"
  by (auto simp: cdma_u_create_sq_def bind_eq_Some_conv Let_def split_beta
      dest!: alloc_queue_buf_queues split: if_splits)

lemma alloc_db_queues: "cdma_u_alloc_db E ctx db s = Some (r, db', s') \<Longrightarrow> queues s' = queues s"
  by (auto simp: cdma_u_alloc_db_def sys_defs bind_eq_Some_conv Let_def split: if_splits)

lemma create_jfs_queues: "cdma_u_create_jfs E ctx cfg s = Some (p, s') \<Longrightarrow> queues s' = queues s"
  by (auto simp: cdma_u_create_jfs_def bind_eq_Some_conv Let_def split_beta
      dest!: create_sq_queues alloc_db_queues split: if_splits)

lemma clean_jfc_syncs: "cdma_u_clean_jfc jfc jid s = Some s' \<Longrightarrow> syncs s' = syncs s"
  using clean_jfc_quiet [of jfc jid s s'] by (intro syncs_live) (simp add: quiet_def)

lemma delete_jfs_syncs: "cdma_u_delete_jfs E p s = Some (r, s') \<Longrightarrow> syncs s' = syncs s"
  by (auto simp: cdma_u_delete_jfs_def bind_eq_Some_conv Let_def split_beta sync_simps
      dest!: clean_jfc_syncs db_syncs split: if_splits)

section \<open>Completion queues\<close>

lemma jfc_buf_syncs:
  "cdma_u_alloc_jfc_buf E ctx cfg jfc s = Some (r, s') \<Longrightarrow> syncs s' = syncs s"
  "cdma_u_free_jfc_buf ctx jfc s = Some s' \<Longrightarrow> syncs s' = syncs s"
  by (auto simp: cdma_u_alloc_jfc_buf_def cdma_u_free_jfc_buf_def bind_eq_Some_conv Let_def split_beta sync_simps
      dest!: alloc_queue_buf_syncs sw_db_syncs split: if_splits)

lemma rearm_syncs [sync_simps]: "syncs (snd (cdma_u_rearm_jfc E c b s)) = syncs s"
  by (simp add: cdma_u_rearm_jfc_def Let_def sync_simps)

lemma cmd_jfc_syncs [sync_simps]: "syncs (snd (cdma_cmd_delete_jfc E jfc s)) = syncs s"
  by (simp add: cdma_cmd_delete_jfc_def Let_def split_beta sync_simps)

lemma event_init_syncs:
  assumes "sync_ok E"
  shows "syncs (cdma_ack_event_init E jfc s) = syncs s + jfc_syncs jfc"
  using assms by (simp add: cdma_ack_event_init_def sys_defs Let_def syncs_def live_simps sync_ok_def jfc_syncs_def)

lemma cmd_create_jfc_syncs:
  assumes "sync_ok E" and "cdma_cmd_create_jfc E ctx jfc cfg s = (r, s')"
  shows "syncs s' = (if r = 0 then syncs s + jfc_syncs jfc else syncs s)"
  using assms(2) by (auto simp: cdma_cmd_create_jfc_def cdma_fill_jfc_def Let_def split_beta event_init_syncs [OF assms(1)]
      sync_simps split: if_splits)

text \<open>A completion queue that was created has its pair; one that was not leaves nothing.\<close>

lemma create_jfc_syncs:
  assumes ok: "sync_ok E" and run: "cdma_u_create_jfc E ctx cfg s = Some (p, s')"
  shows "syncs s' = (if p = NULL then syncs s else syncs s + jfc_syncs p)"
  using run by (auto simp: cdma_u_create_jfc_def bind_eq_Some_conv Let_def split_beta sync_simps
      cmd_create_jfc_syncs [OF ok surjective_pairing] dest!: jfc_buf_syncs split: if_splits)

lemma delete_jfc_syncs: "cdma_u_delete_jfc E jfc s = Some (r, s') \<Longrightarrow> syncs s' = syncs s"
  by (auto simp: cdma_u_delete_jfc_def bind_eq_Some_conv Let_def split_beta sync_simps
      dest!: jfc_buf_syncs split: if_splits)

section \<open>Queues\<close>

lemma create_jfs_made:
  "cdma_u_create_jfs E ctx cfg s = Some (p, s') \<Longrightarrow> syncs s' = syncs s \<and> queues s' = queues s"
  using create_jfs_syncs create_jfs_queues by blast

text \<open>A failure leaves nothing, or the pair of a completion queue that was created on the way.\<close>

definition leaves_pair :: "st \<Rightarrow> st \<Rightarrow> bool" where
  "leaves_pair s s' \<longleftrightarrow> syncs s' = syncs s \<or> (\<exists>p. syncs s' = syncs s + jfc_syncs p)"

lemma leaves_pairI: "syncs s' = syncs s \<Longrightarrow> leaves_pair s s'" "syncs s' = syncs s + jfc_syncs p \<Longrightarrow> leaves_pair s s'"
  by (auto simp: leaves_pair_def)

lemma alloc_jfc_res_syncs:
  assumes ok: "sync_ok E" and run: "cdma_u_alloc_jfc_res E ctx q cfg jc s = Some (r, jc', s')"
  shows "if r = 0 then syncs s' = syncs s + jfc_syncs (que_jfc (queues s' q)) else leaves_pair s s'"
proof -
  obtain jfce s1 where e: "cdma_u_create_jfce E ctx s = (jfce, s1)" by (cases "cdma_u_create_jfce E ctx s")
  have s1: "syncs s1 = syncs s" using jfce_syncs(1) [of E ctx s] e by simp
  show ?thesis
  proof (cases "jfce = NULL")
    case True
    then show ?thesis using run e s1 by (auto simp: cdma_u_alloc_jfc_res_def intro: leaves_pairI(1))
  next
    case False
    obtain jfc s2 where c: "cdma_u_create_jfc E ctx (jc\<lparr>jfc_cfg_jfce := jfce\<rparr>) s1 = Some (jfc, s2)"
      using run e False by (auto simp: cdma_u_alloc_jfc_res_def Let_def bind_eq_Some_conv)
    note s2 = create_jfc_syncs [OF ok c]
    show ?thesis
    proof (cases "jfc = NULL")
      case True
      then show ?thesis using run e False c s1 s2 by (auto simp: cdma_u_alloc_jfc_res_def sync_simps intro!: leaves_pairI(1))
    next
      case nn: False
      let ?x = "if qcfg_event_mode cfg then cdma_u_rearm_jfc E jfc False s2 else (DMA_STATUS_OK, s2)"
      have x: "syncs (snd ?x) = syncs s + jfc_syncs jfc" using s1 s2 nn by (simp add: sync_simps)
      show ?thesis
      proof (cases "fst ?x = DMA_STATUS_OK")
        case True
        then have "r = 0" "s' = set_queue q ((queues (snd ?x) q)\<lparr>que_jfce := jfce, que_jfc := jfc\<rparr>) (snd ?x)"
          using run e False c nn by (auto simp: cdma_u_alloc_jfc_res_def Let_def split_beta split: if_splits)
        then show ?thesis using x by (simp add: sync_simps)
      next
        case bad: False
        then obtain rd s4 where d: "cdma_u_delete_jfc E jfc (snd ?x) = Some (rd, s4)" "r \<noteq> 0" "s' = snd (cdma_u_delete_jfce jfce s4)"
          using run e False c nn by (auto simp: cdma_u_alloc_jfc_res_def Let_def split_beta bind_eq_Some_conv split: if_splits)
        then have "syncs s' = syncs s + jfc_syncs jfc" using x delete_jfc_syncs [OF d(1)] by (simp add: sync_simps)
        then show ?thesis using d(2) by (auto intro: leaves_pairI(2))
      qed
    qed
  qed
qed

lemma free_jfc_res_syncs: "cdma_u_free_jfc_res E q s = Some s' \<Longrightarrow> syncs s' = syncs s"
  by (auto simp: cdma_u_free_jfc_res_def bind_eq_Some_conv sync_simps dest!: delete_jfc_syncs)

lemma create_queue_syncs:
  assumes ok: "sync_ok E" and run: "cdma_u_create_queue E ctx cfg i q s = Some (r, s')"
  shows "if r = 0 then syncs s' = syncs s + jfc_syncs (que_jfc (queues s' q)) else leaves_pair s s'"
proof (cases "ctx = NULL \<or> ctx_dev s ctx = NULL")
  case True
  then show ?thesis using run by (auto simp: cdma_u_create_queue_def leaves_pair_def)
next
  case c0: False
  let ?s1 = "set_queue q ((queues s q)\<lparr>que_ctx := ctx, que_cfg := cfg\<rparr>) s"
  obtain ret jc s2 where a: "cdma_u_alloc_jfc_res E ctx q cfg (cdma_assemble_jfc_cfg zero_jfc_cfg cfg i) ?s1 = Some (ret, jc, s2)"
    using run c0 by (auto simp: cdma_u_create_queue_def Let_def bind_eq_Some_conv)
  note s2 = alloc_jfc_res_syncs [OF ok a]
  show ?thesis
  proof (cases "ret = 0")
    case False
    then show ?thesis using run c0 a s2 by (auto simp: cdma_u_create_queue_def leaves_pair_def sync_simps)
  next
    case True
    then have l2: "syncs s2 = syncs s + jfc_syncs (que_jfc (queues s2 q))" using s2 by (simp add: sync_simps)
    have fr: "queues (snd (cdma_u_create_ctp E ctx tc s2)) = queues s2" for tc
      by (simp add: cdma_u_create_ctp_def cdma_cmd_create_ctp_def sys_defs Let_def split_beta)
    show ?thesis
      using run c0 a True l2 unfolding cdma_u_create_queue_def
      by (auto simp: bind_eq_Some_conv Let_def split_beta sync_simps fr intro: leaves_pairI
          dest!: create_jfs_made free_jfc_res_syncs split: if_splits)
  qed
qed

lemma queue_cmd_syncs [sync_simps]:
  "syncs (snd (cdma_u_cmd_create_queue E ctx q cfg s)) = syncs s" "syncs (snd (cdma_u_cmd_delete_queue E q s)) = syncs s"
  by (simp_all add: cdma_u_cmd_create_queue_def cdma_u_cmd_delete_queue_def Let_def split_beta sync_simps)

lemma alloc_queue_syncs:
  assumes ok: "sync_ok E" and run: "cdma_alloc_queue E ctx cfg s = Some (q, s')"
  shows "if q \<noteq> NULL then syncs s' = syncs s + jfc_syncs (que_jfc (queues s' q)) else leaves_pair s s'"
  using run by (auto simp: cdma_alloc_queue_def bind_eq_Some_conv Let_def split_beta leaves_pair_def sync_simps
      dest!: create_queue_syncs [OF ok] split: if_splits)

lemma free_queue_syncs: "cdma_free_queue E q s = Some s' \<Longrightarrow> syncs s' = syncs s"
  by (auto simp: cdma_free_queue_def cdma_u_delete_queue_def bind_eq_Some_conv split_beta sync_simps
      dest!: delete_jfs_syncs free_jfc_res_syncs)

section \<open>Sequences of allocations and releases\<close>

fun num_created :: "'x life_op list \<Rightarrow> nat" where
  "num_created [] = 0"
| "num_created (Created x # ops) = Suc (num_created ops)"
| "num_created (_ # ops) = num_created ops"

fun num_failed :: "'x life_op list \<Rightarrow> nat" where
  "num_failed [] = 0"
| "num_failed (Failed # ops) = Suc (num_failed ops)"
| "num_failed (_ # ops) = num_failed ops"

text \<open>Each allocation that succeeded has left one pair for good, each that failed at most one.\<close>

lemma queue_run_syncs:
  assumes "life_run (\<lambda>x obj x'. \<exists>cfg r. cdma_alloc_queue E ctx cfg (fst x) = Some r \<and> outcome r obj (fst x') \<and> with_pages k ctx x')
      (\<lambda>x q x'. cdma_free_queue E q (fst x) = Some (fst x') \<and> with_pages k ctx x') x ops x'"
    and ok: "sync_ok E"
  shows "\<exists>ps. syncs (fst x') = syncs (fst x) + (\<Sum>p\<leftarrow>ps. jfc_syncs p)
     \<and> num_created ops \<le> length ps \<and> length ps \<le> num_created ops + num_failed ops"
  using assms(1)
proof (induction rule: life_run.induct)
  case (life_nil s)
  then show ?case by simp
next
  case (life_created s q s1 ops s2)
  then obtain ps where ps: "syncs (fst s2) = syncs (fst s1) + (\<Sum>p\<leftarrow>ps. jfc_syncs p)"
    "num_created ops \<le> length ps" "length ps \<le> num_created ops + num_failed ops" by blast
  obtain cfg r where "cdma_alloc_queue E ctx cfg (fst s) = Some r" "outcome r (Some q) (fst s1)" using life_created.hyps(1) by blast
  then have c: "cdma_alloc_queue E ctx cfg (fst s) = Some (q, fst s1)" "q \<noteq> NULL" by (auto elim!: outcomeE split: if_splits)
  then have "syncs (fst s1) = syncs (fst s) + jfc_syncs (que_jfc (queues (fst s1) q))" using alloc_queue_syncs [OF ok c(1)] by simp
  then show ?case using ps by (intro exI [of _ "que_jfc (queues (fst s1) q) # ps"]) (simp add: ac_simps)
next
  case (life_failed s s1 ops s2)
  then obtain ps where ps: "syncs (fst s2) = syncs (fst s1) + (\<Sum>p\<leftarrow>ps. jfc_syncs p)"
    "num_created ops \<le> length ps" "length ps \<le> num_created ops + num_failed ops" by blast
  obtain cfg r where "cdma_alloc_queue E ctx cfg (fst s) = Some r" "outcome r None (fst s1)" using life_failed.hyps(1) by blast
  then have c: "cdma_alloc_queue E ctx cfg (fst s) = Some (NULL, fst s1)" by (auto elim!: outcomeE split: if_splits)
  consider "syncs (fst s1) = syncs (fst s)" | p where "syncs (fst s1) = syncs (fst s) + jfc_syncs p"
    using alloc_queue_syncs [OF ok c] by (auto simp: leaves_pair_def)
  then show ?case
  proof cases
    case 1
    then show ?thesis using ps by (intro exI [of _ ps]) simp
  next
    case (2 p)
    then show ?thesis using ps by (intro exI [of _ "p # ps"]) (simp add: ac_simps)
  qed
next
  case (life_deleted s q s1 ops s2)
  then show ?case using free_queue_syncs [of E q "fst s" "fst s1"] by simp
qed

end
