(* ===== verification/Cdma_Verbs.thy ===== *)
theory Cdma_Verbs
  imports Cdma_Queue
begin

text \<open>
  The data operations on a queue (\<open>cdma_u_cmd.c\<close>): a remote and a local segment become one
  work request with one scatter/gather entry on each side, posted to the queue's send queue.
\<close>

unbundle bit_operations_syntax

definition cdma_rw_check :: "dma_seg \<Rightarrow> dma_seg \<Rightarrow> int" where
  "cdma_rw_check rmt_seg local_seg =
     (if seg_len rmt_seg = 0 \<or> seg_len local_seg = 0 then - EINVAL
      else if seg_sva rmt_seg = 0 \<or> seg_sva local_seg = 0 then - EINVAL
      else 0)"

text \<open>The initialiser \<open>= {.opcode = op}\<close>; the body of the request is filled in later.\<close>

definition zero_flag :: dma_jfs_wr_flag where
  "zero_flag = \<lparr>fl_place_order = 0, fl_comp_order = 0, fl_fence = 0, fl_solicited_enable = 0,
     fl_complete_enable = 0, fl_inline_flag = 0\<rparr>"

definition zero_rw :: dma_rw_wr where
  "zero_rw = \<lparr>rw_src = \<lparr>sg_sge = [], sg_num_sge = 0\<rparr>, rw_dst = \<lparr>sg_sge = [], sg_num_sge = 0\<rparr>,
     rw_target_hint = 0, rw_notify_data = 0, rw_notify_addr = 0, rw_notify_tokenid = 0, rw_notify_tokenvalue = 0\<rparr>"

definition new_wr :: "u32 \<Rightarrow> dma_jfs_wr" where
  "new_wr op = \<lparr>wr_opcode = op, wr_flag = zero_flag, wr_user_ctx = 0, wr_tpn = 0, wr_rmt_eid = 0, wr_body = Wr_rw zero_rw\<rparr>"

definition cdma_fill_comm_wr :: "st \<Rightarrow> ptr \<Rightarrow> dma_jfs_wr \<Rightarrow> dma_jfs_wr" where
  "cdma_fill_comm_wr s queue wr =
     (let q = queues s queue;
          wr1 = wr\<lparr>wr_flag := (wr_flag wr)\<lparr>fl_complete_enable := 1, fl_fence := 0\<rparr>, wr_user_ctx := qcfg_user_ctx (que_cfg q)\<rparr>;
          wr2 = (if que_tp q \<noteq> NULL then wr1\<lparr>wr_tpn := tp_tpn (tps s (que_tp q))\<rparr> else wr1)
      in wr2\<lparr>wr_rmt_eid := dw0 (qcfg_rmt_eid (que_cfg q))\<rparr>)"

text \<open>The length of a segment has 64 bits, that of an entry 32.\<close>

definition seg_sge :: "dma_seg \<Rightarrow> dma_sge" where
  "seg_sge seg = \<lparr>sge_addr = seg_sva seg, sge_len = ucast (seg_len seg), sge_seg = seg\<rparr>"

definition cdma_fill_sge :: "dma_seg \<Rightarrow> dma_seg \<Rightarrow> dma_sge \<times> dma_sge" where
  "cdma_fill_sge rmt_seg local_seg = (seg_sge rmt_seg, seg_sge local_seg)"

text \<open>A list of one entry.\<close>

definition one_sg :: "dma_sge \<Rightarrow> dma_sg" where
  "one_sg e = \<lparr>sg_sge = [e], sg_num_sge = 1\<rparr>"

text \<open>The end that the four operations have in common.\<close>

definition post_to_queue :: "ptr \<Rightarrow> dma_jfs_wr \<Rightarrow> st \<Rightarrow> (dma_status \<times> st) option" where
  "post_to_queue queue wr s = do {
     (ret, _, s') \<leftarrow> cdma_u_post_jfs_wr (que_jfs (queues s queue)) [wr] s;
     Some (if ret \<noteq> 0 then DMA_STATUS_INVAL else DMA_STATUS_OK, s')
   }"

definition cdma_cas :: "ptr \<Rightarrow> ptr \<Rightarrow> ptr \<Rightarrow> u64 \<Rightarrow> u64 \<Rightarrow> st \<Rightarrow> (dma_status \<times> st) option" where
  "cdma_cas queue rmt_seg local_seg cmp swap s =
     (if cdma_rw_check (segs s rmt_seg) (segs s local_seg) \<noteq> 0 then Some (DMA_STATUS_INVAL, s)
      else (let wr = cdma_fill_comm_wr s queue (new_wr CDMA_WR_OPC_CAS);
                (rmt_sge, local_sge) = cdma_fill_sge (segs s rmt_seg) (segs s local_seg)
            in post_to_queue queue (wr\<lparr>wr_body := Wr_cas \<lparr>cas_dst = rmt_sge, cas_src = local_sge,
                 cas_cmp = cmp, cas_swap = swap\<rparr>\<rparr>) s))"

definition cdma_faa :: "ptr \<Rightarrow> ptr \<Rightarrow> ptr \<Rightarrow> u64 \<Rightarrow> st \<Rightarrow> (dma_status \<times> st) option" where
  "cdma_faa queue rmt_seg local_seg operand s =
     (if cdma_rw_check (segs s rmt_seg) (segs s local_seg) \<noteq> 0 then Some (DMA_STATUS_INVAL, s)
      else (let wr = cdma_fill_comm_wr s queue (new_wr CDMA_WR_OPC_FADD);
                (rmt_sge, local_sge) = cdma_fill_sge (segs s rmt_seg) (segs s local_seg)
            in post_to_queue queue (wr\<lparr>wr_body := Wr_faa \<lparr>faa_dst = rmt_sge, faa_src = local_sge,
                 faa_operand = operand\<rparr>\<rparr>) s))"

text \<open>The segment of the notification may be absent (\<open>NULL\<close>).\<close>

definition cdma_write :: "ptr \<Rightarrow> ptr \<Rightarrow> ptr \<Rightarrow> ptr \<Rightarrow> u64 \<Rightarrow> st \<Rightarrow> (dma_status \<times> st) option" where
  "cdma_write queue rmt_seg local_seg notify_seg notify_data s =
     (if cdma_rw_check (segs s rmt_seg) (segs s local_seg) \<noteq> 0 then Some (DMA_STATUS_INVAL, s)
      else (let n = segs s notify_seg;
                (wr, rw) = (if notify_seg \<noteq> NULL
                  then (new_wr CDMA_WR_OPC_WRITE_NOTIFY, zero_rw\<lparr>rw_notify_addr := seg_sva n, rw_notify_data := notify_data,
                          rw_notify_tokenid := seg_tid n, rw_notify_tokenvalue := seg_token_value n\<rparr>)
                  else (new_wr CDMA_WR_OPC_WRITE, zero_rw));
                wr1 = cdma_fill_comm_wr s queue wr;
                (rmt_sge, local_sge) = cdma_fill_sge (segs s rmt_seg) (segs s local_seg)
            in post_to_queue queue
                 (wr1\<lparr>wr_body := Wr_rw (rw\<lparr>rw_src := one_sg local_sge, rw_dst := one_sg rmt_sge\<rparr>)\<rparr>) s))"

definition cdma_read :: "ptr \<Rightarrow> ptr \<Rightarrow> ptr \<Rightarrow> st \<Rightarrow> (dma_status \<times> st) option" where
  "cdma_read queue rmt_seg local_seg s =
     (if cdma_rw_check (segs s rmt_seg) (segs s local_seg) \<noteq> 0 then Some (DMA_STATUS_INVAL, s)
      else (let wr = cdma_fill_comm_wr s queue (new_wr CDMA_WR_OPC_READ);
                (rmt_sge, local_sge) = cdma_fill_sge (segs s rmt_seg) (segs s local_seg)
            in post_to_queue queue
                 (wr\<lparr>wr_body := Wr_rw (zero_rw\<lparr>rw_src := one_sg rmt_sge, rw_dst := one_sg local_sge\<rparr>)\<rparr>) s))"

end
