(* ===== verification/Cdma_Event.thy ===== *)
theory Cdma_Event
  imports Cdma_Queue
begin

text \<open>
  Completions and asynchronous events of a queue (\<open>cdma_u_event.c\<close>). Logging is left out.
\<close>

text \<open>
  \<open>poll\<close> answers with its result and the bits \<open>POLLIN\<close> and \<open>POLLERR\<close> of \<open>revents\<close>. The record
  of the caller is a result.
\<close>

definition cdma_cmd_get_async_event :: "env \<Rightarrow> ptr \<Rightarrow> dma_aeqe \<Rightarrow> st \<Rightarrow> int \<times> dma_aeqe \<times> st" where
  "cdma_cmd_get_async_event E ctx arg s =
     (if aeqe_duration arg < 0 \<or> aeqe_duration arg > EVENT_WAIT_TIME then (- EINVAL, arg, s)
      else (let fd = ctx_async_fd (ctxs s ctx);
                ((ret, pollin, pollerr), s1) = sys_poll E fd (aeqe_duration arg) s
            in if ret \<le> 0 then (ret, arg, s1)
               else if pollin then
                 (let ((ret, out), s2) = sys_ioctl E fd CDMA_CMD_GET_ASYNC_EVENT s1;
                      type = out_event_type out
                  in if ret \<noteq> 0 then (ret, arg, s2)
                     else if type = aeqe_type_code DMA_AEQE_TYPE_JFS \<or> type = aeqe_type_code DMA_AEQE_TYPE_JFC
                     then (EVENT_EVENT_NUM, arg\<lparr>aeqe_queue_id := ucast (out_event_data out), aeqe_ctx := ctx,
                             aeqe_event_type := type\<rparr>, s2)
                     else if type = aeqe_type_code DMA_AEQE_TYPE_INVALID
                     then (EVENT_EVENT_NUM, arg\<lparr>aeqe_queue_id := 0, aeqe_ctx := ctx, aeqe_event_type := type\<rparr>, s2)
                     else (- EFAULT, arg, s2))
               else if pollerr then (- EFAULT, arg, s1)
               else (EVENT_EVENT_NUM, arg, s1)))"

definition cdma_wait_ae :: "env \<Rightarrow> ptr \<Rightarrow> dma_aeqe \<Rightarrow> st \<Rightarrow> int \<times> dma_aeqe \<times> st" where
  "cdma_wait_ae E ctx arg s = cdma_cmd_get_async_event E ctx arg s"

definition cdma_poll_queue :: "ptr \<Rightarrow> u32 \<Rightarrow> dma_cr list \<Rightarrow> st \<Rightarrow> (int \<times> dma_cr list \<times> st) option" where
  "cdma_poll_queue queue cr_cnt cr s = cdma_u_poll_jfc (que_jfc (queues s queue)) cr_cnt cr s"

definition cdma_wait_queue ::
  "env \<Rightarrow> ptr \<Rightarrow> u32 \<Rightarrow> int \<Rightarrow> dma_cr list \<Rightarrow> st \<Rightarrow> (int \<times> dma_cr list \<times> st) option" where
  "cdma_wait_queue E queue cr_cnt timeout cr s =
     (let (wait_cnt, s1) = cdma_u_wait_jfc E (que_jfce (queues s queue)) cr_cnt timeout s in
      if wait_cnt < 0 then Some (- EFAULT, cr, s1)
      else do {
        (poll_cnt, cr', s2) \<leftarrow> cdma_u_poll_jfc (que_jfc (queues s1 queue)) cr_cnt cr s1;
        if poll_cnt \<le> 0 then Some (- EFAULT, cr', s2)
        else (let s3 = cdma_u_ack_jfc (que_jfc (queues s2 queue)) (word_of_int poll_cnt) s2;
                  (status, s4) = cdma_u_rearm_jfc E (que_jfc (queues s3 queue)) False s3
              in Some (if status \<noteq> DMA_STATUS_OK then - EFAULT else poll_cnt, cr', s4))
      })"

end
