(* ===== verification/Cdma_Lib.thy ===== *)
theory Cdma_Lib
  imports Cdma_Verbs Cdma_Event
begin

text \<open>
  The interface of the library (\<open>cdma_u_lib.c\<close>): each call checks its pointers and passes on. A
  pointer to a configuration, to the caller's array of records or to the caller's event that may be
  NULL is an option; the functions on device lists are in \<open>Cdma_Device\<close>.
\<close>

section \<open>Objects\<close>

definition dma_create_context :: "env \<Rightarrow> ptr \<Rightarrow> st \<Rightarrow> (ptr \<times> st) option" where
  "dma_create_context E dma_dev s =
     (if dma_dev = NULL then Some (NULL, s)
      else do { (ctx, s1) \<leftarrow> cdma_create_context E dma_dev s; Some (if ctx = NULL then NULL else ctx, s1) })"

definition dma_delete_context :: "env \<Rightarrow> ptr \<Rightarrow> st \<Rightarrow> st option" where
  "dma_delete_context E ctx s = (if ctx = NULL then Some s else cdma_delete_context E ctx s)"

definition dma_alloc_queue :: "env \<Rightarrow> ptr \<Rightarrow> queue_cfg option \<Rightarrow> st \<Rightarrow> (ptr \<times> st) option" where
  "dma_alloc_queue E ctx cfg s =
     (case cfg of None \<Rightarrow> Some (NULL, s)
      | Some c \<Rightarrow> if ctx = NULL then Some (NULL, s)
                  else do { (queue, s1) \<leftarrow> cdma_alloc_queue E ctx c s; Some (if queue = NULL then NULL else queue, s1) })"

definition dma_free_queue :: "env \<Rightarrow> ptr \<Rightarrow> st \<Rightarrow> st option" where
  "dma_free_queue E queue s = (if queue = NULL then Some s else cdma_free_queue E queue s)"

definition dma_register_seg :: "env \<Rightarrow> ptr \<Rightarrow> dma_seg_cfg option \<Rightarrow> st \<Rightarrow> ptr \<times> st" where
  "dma_register_seg E ctx cfg s =
     (case cfg of None \<Rightarrow> (NULL, s)
      | Some c \<Rightarrow> if ctx = NULL \<or> scfg_addr c = 0 \<or> scfg_len c = 0 then (NULL, s)
                  else (let (seg, s1) = cdma_register_seg E ctx c s in (if seg = NULL then NULL else seg, s1)))"

definition dma_unregister_seg :: "env \<Rightarrow> ptr \<Rightarrow> ptr \<Rightarrow> st \<Rightarrow> st" where
  "dma_unregister_seg E ctx seg s = (if ctx = NULL \<or> seg = NULL then s else cdma_unregister_seg E ctx seg s)"

definition dma_import_seg :: "env \<Rightarrow> dma_seg_cfg option \<Rightarrow> st \<Rightarrow> ptr \<times> st" where
  "dma_import_seg E cfg s =
     (case cfg of None \<Rightarrow> (NULL, s)
      | Some c \<Rightarrow> if scfg_addr c = 0 \<or> scfg_len c = 0 then (NULL, s) else cdma_import_seg E c s)"

definition dma_unimport_seg :: "ptr \<Rightarrow> st \<Rightarrow> st" where
  "dma_unimport_seg seg s = (if seg = NULL then s else cdma_unimport_seg seg s)"

section \<open>Data operations\<close>

definition dma_write :: "ptr \<Rightarrow> ptr \<Rightarrow> ptr \<Rightarrow> st \<Rightarrow> (dma_status \<times> st) option" where
  "dma_write queue rmt_seg local_seg s =
     (if queue = NULL \<or> rmt_seg = NULL \<or> local_seg = NULL then Some (DMA_STATUS_INVAL, s)
      else cdma_write queue rmt_seg local_seg NULL 0 s)"

definition dma_read :: "ptr \<Rightarrow> ptr \<Rightarrow> ptr \<Rightarrow> st \<Rightarrow> (dma_status \<times> st) option" where
  "dma_read queue rmt_seg local_seg s =
     (if queue = NULL \<or> rmt_seg = NULL \<or> local_seg = NULL then Some (DMA_STATUS_INVAL, s)
      else cdma_read queue rmt_seg local_seg s)"

definition dma_cas :: "ptr \<Rightarrow> ptr \<Rightarrow> ptr \<Rightarrow> u64 \<Rightarrow> u64 \<Rightarrow> st \<Rightarrow> (dma_status \<times> st) option" where
  "dma_cas queue rmt_seg local_seg cmp swap s =
     (if queue = NULL \<or> rmt_seg = NULL \<or> local_seg = NULL then Some (DMA_STATUS_INVAL, s)
      else cdma_cas queue rmt_seg local_seg cmp swap s)"

definition dma_faa :: "ptr \<Rightarrow> ptr \<Rightarrow> ptr \<Rightarrow> u64 \<Rightarrow> st \<Rightarrow> (dma_status \<times> st) option" where
  "dma_faa queue rmt_seg local_seg add s =
     (if queue = NULL \<or> rmt_seg = NULL \<or> local_seg = NULL then Some (DMA_STATUS_INVAL, s)
      else cdma_faa queue rmt_seg local_seg add s)"

definition dma_write_with_notify ::
  "ptr \<Rightarrow> ptr \<Rightarrow> ptr \<Rightarrow> ptr \<Rightarrow> u64 \<Rightarrow> st \<Rightarrow> (dma_status \<times> st) option" where
  "dma_write_with_notify queue rmt_seg local_seg notify_seg notify_data s =
     (if queue = NULL \<or> rmt_seg = NULL \<or> local_seg = NULL \<or> notify_seg = NULL then Some (DMA_STATUS_INVAL, s)
      else if seg_sva (segs s notify_seg) = 0 \<or> seg_len (segs s notify_seg) = 0 then Some (DMA_STATUS_INVAL, s)
      else cdma_write queue rmt_seg local_seg notify_seg notify_data s)"

section \<open>Completions and events\<close>

definition dma_poll_queue ::
  "ptr \<Rightarrow> u32 \<Rightarrow> dma_cr list option \<Rightarrow> st \<Rightarrow> (int \<times> dma_cr list option \<times> st) option" where
  "dma_poll_queue queue cr_cnt cr s =
     (case cr of None \<Rightarrow> Some (- EINVAL, None, s)
      | Some crs \<Rightarrow> if queue = NULL \<or> cr_cnt = 0 then Some (- EINVAL, Some crs, s)
          else do { (r, crs', s') \<leftarrow> cdma_poll_queue queue cr_cnt crs s; Some (r, Some crs', s') })"

definition dma_wait_queue ::
  "env \<Rightarrow> ptr \<Rightarrow> u32 \<Rightarrow> int \<Rightarrow> dma_cr list option \<Rightarrow> st \<Rightarrow> (int \<times> dma_cr list option \<times> st) option" where
  "dma_wait_queue E queue cr_cnt timeout cr s =
     (case cr of None \<Rightarrow> Some (- EINVAL, None, s)
      | Some crs \<Rightarrow>
          if queue = NULL \<or> \<not> qcfg_event_mode (que_cfg (queues s queue)) \<or> cr_cnt = 0 then Some (- EINVAL, Some crs, s)
          else do { (r, crs', s') \<leftarrow> cdma_wait_queue E queue cr_cnt timeout crs s; Some (r, Some crs', s') })"

definition dma_wait_ae :: "env \<Rightarrow> ptr \<Rightarrow> dma_aeqe option \<Rightarrow> st \<Rightarrow> int \<times> dma_aeqe option \<times> st" where
  "dma_wait_ae E ctx aeqe s =
     (case aeqe of None \<Rightarrow> (- EINVAL, None, s)
      | Some a \<Rightarrow> if ctx = NULL then (- EINVAL, Some a, s)
                  else (let (r, a', s') = cdma_wait_ae E ctx a s in (r, Some a', s')))"

end
