(* ===== verification/Cdma_Demo.thy ===== *)
theory Cdma_Demo
  imports Cdma_Queue
begin

text \<open>
  A concrete system, a context on a device with its limits, and a run on them, evaluated step by
  step: two queues are allocated and the first one is freed. The theorems on queues are applied to
  this run.
\<close>

unbundle bit_operations_syntax

text \<open>The demonstration system, but for mappings at the end of the address space.\<close>

definition room_sys :: env where
  "room_sys = demo_sys\<lparr>e_mmap_anon := \<lambda>t _. if demo_mmap t < 0x8000000000000000 then demo_mmap t else MAP_FAILED\<rparr>"

definition demo_queue_st :: st where
  "demo_queue_st = init_st\<lparr>ctxs := (\<lambda>_. zero_context)(0x40 := zero_context\<lparr>ctx_page_size := 4096, ctx_cqe_size := 64,
       ctx_dma_ctx := zero_dma_context\<lparr>dctx_dma_dev := 0x30\<rparr>\<rparr>),
     devs := (\<lambda>_. zero_dev)(0x30 := zero_dev\<lparr>dev_fd := 3, dev_attr := zero_attr\<lparr>attr_dev_cap := zero_cap\<lparr>max_jfc_depth := 4096,
       max_jfs_depth := 4096, max_jfs_sge := 8, max_jfs_rsge := 8, ceq_cnt := 4\<rparr>\<rparr>\<rparr>)\<rparr>"

abbreviation demo_queue_cfg :: queue_cfg where
  "demo_queue_cfg \<equiv> zero_queue_cfg\<lparr>qcfg_queue_depth := 16, qcfg_event_mode := True\<rparr>"

section \<open>Values of the helpers at the sizes of the run\<close>

lemma demo_values:
  "align 64 64 = 64" "align_power2 64 = Some 6" "roundup_pow_of_two 64 = Some 64"
  "cdma_bitmap_use_idx [- 1] 1 64 0 = (0, 0, [- 2])" "cdma_bitmap_use_idx [- 2] 1 64 0 = (0, 1, [- 4])"
  "cdma_bitmap_free_idx [- 4] 1 0 = [- 3]"
  by code_simp+

lemma demo_geometry: "cdma_u_queue_geometry q 64 64 4096
    = Some (q\<lparr>baseblk_shift := 6, qbuf_size := 4096, baseblk_cnt := 64, baseblk_mask := 63\<rparr>)"
  by code_simp simp

lemma demo_sqe_bb_cnt: "jfs_cfg_max_sge c = 8 \<Longrightarrow> sqe_bb_cnt c = 4"
  by (simp add: sqe_bb_cnt_def cdma_sq_cal_wqebb_num_def Let_def)

lemma demo_page_mask: "mask 12 = (0xfff :: u64)"
  by (simp add: mask_eq_exp_minus_1)

text \<open>A step is evaluated before what follows it.\<close>

lemma bind_weak_cong: "x = y \<Longrightarrow> Option.bind x f = Option.bind y f"
  by simp

section \<open>The definitions to evaluate\<close>

lemmas eval_sys = room_sys_def demo_sys_def demo_env_def demo_alloc_def demo_mmap_def demo_addr_def demo_page_mask
  sys_defs emit_def init_st_def demo_queue_st_def

lemmas eval_zero = zero_jfce_def zero_jfc_def zero_jfs_def zero_queue_def zero_tp_def zero_jetty_queue_def
  zero_queue_cfg_def zero_jfc_cfg_def zero_jfs_cfg_def zero_tp_cfg_def zero_context_def zero_dma_context_def
  zero_dev_def zero_attr_def zero_cap_def zero_cqe_def

lemmas eval_buf = cdma_u_alloc_buf_def cdma_u_free_buf_def cdma_u_alloc_queue_buf_def cdma_u_free_queue_buf_def
  demo_values demo_geometry demo_sqe_bb_cnt cdma_bitmap_alloc_def cdma_add_db_page_def find_db_page.simps
  cdma_u_alloc_sw_db_def cdma_u_free_sw_db_def cdma_u_alloc_db_def cdma_u_free_db_def cdma_get_dsqe_db_offset_def
  ctx_dev_def ctx_fd_def

lemmas eval_jfc = cdma_u_create_jfce_def cdma_cmd_create_jfce_def cdma_u_delete_jfce_def cdma_u_create_jfc_def
  cdma_u_check_jfc_cfg_def cdma_u_alloc_jfc_buf_def cdma_u_free_jfc_buf_def cdma_cmd_create_jfc_def cdma_fill_jfc_def
  cdma_ack_event_init_def cdma_u_delete_jfc_def cdma_cmd_delete_jfc_def set_cq_def cdma_u_rearm_jfc_def
  cdma_u_clean_jfc_def clean_scan.simps clean_back.simps cdma_u_get_next_cqe_def cdma_u_get_buf_entry_def int_sub_def

lemmas eval_jfs = cdma_u_create_jfs_def cdma_verify_jfs_param_def cdma_u_create_sq_def cdma_u_init_sq_def set_jfs_def
  cdma_u_exec_create_jfs_cmd_def cdma_u_cmd_create_jfs_def cdma_fill_jfs_def cdma_u_delete_jfs_def
  cdma_u_cmd_delete_jfs_def free_jfs_sq_def cdma_u_delete_sq_def

lemmas eval_queue = cdma_u_create_ctp_def cdma_cmd_create_ctp_def cdma_u_delete_ctp_def cdma_cmd_delete_ctp_def
  cdma_alloc_queue_def cdma_u_cmd_create_queue_def cdma_u_create_queue_def cdma_u_alloc_jfc_res_def
  cdma_assemble_jfc_cfg_def cdma_assemble_tp_cfg_def cdma_assemble_jfs_cfg_def set_queue_def
  cdma_free_queue_def cdma_u_delete_queue_def cdma_u_free_jfc_res_def cdma_u_cmd_delete_queue_def

lemma demo_queue_eval:
  "\<exists>q t. do {
     (p, s1) \<leftarrow> cdma_alloc_queue room_sys 0x40 demo_queue_cfg demo_queue_st;
     (q, s2) \<leftarrow> cdma_alloc_queue room_sys 0x40 demo_queue_cfg s1;
     s3 \<leftarrow> cdma_free_queue room_sys p s2;
     Some (p, s1, q, s2, s3)
   } = Some (0x10000, t) \<and> fst (snd t) = q \<and> q \<noteq> NULL \<and> q \<noteq> 0x10000"
  by (simp add: Let_def eval_sys eval_zero eval_buf eval_jfc eval_jfs eval_queue cong: bind_weak_cong let_weak_cong)

lemma demo_queue_run:
  obtains q s1 s2 s3 where "cdma_alloc_queue room_sys 0x40 demo_queue_cfg demo_queue_st = Some (0x10000, s1)"
    and "cdma_alloc_queue room_sys 0x40 demo_queue_cfg s1 = Some (q, s2)" and "q \<noteq> NULL" and "q \<noteq> 0x10000"
    and "cdma_free_queue room_sys 0x10000 s2 = Some s3"
  using demo_queue_eval by (auto simp: bind_eq_Some_conv)

end
