(* ===== verification/Cdma_Queue_Ready.thy ===== *)
theory Cdma_Queue_Ready
  imports Cdma_Sync Cdma_Lib Cdma_Demo
begin

text \<open>
  Allocating a queue returns whatever fails on the way, and a queue that was allocated is ready: its
  rings satisfy the invariants on which posting (\<open>sq_wf\<close>) and polling (\<open>cq_wf\<close>) rely. The creating
  steps are followed once more, now for the sizes of the rings; \<open>mmap_room\<close> keeps them away from the
  end of the address space. The last section states what the lifecycle of queues means for the
  resources of the process: all that a released queue owned is given back, except the mutex and the
  condition variable of its completion queue.
\<close>

section \<open>Creation returns\<close>

lemma alloc_queue_buf_returns:
  assumes "cdma_u_queue_geometry q n es ps \<noteq> None"
  shows "cdma_u_alloc_queue_buf E q n es ps en s \<noteq> None"
  using assms by (auto simp: cdma_u_alloc_queue_buf_def Let_def split_beta)

abbreviation jfc_depth_of :: "dma_jfc_cfg \<Rightarrow> u32" where
  "jfc_depth_of cfg \<equiv> if jfc_cfg_depth cfg < CDMA_U_MIN_JFC_DEPTH then CDMA_U_MIN_JFC_DEPTH else jfc_cfg_depth cfg"

lemma set_cq_inv:
  assumes ok: "sys_ok E k" and inv: "db_inv k s ctx as" and w: "q_wrid q0 = NULL"
    and b: "cdma_u_alloc_queue_buf E q0 n es ps en s = Some (r, q, s1)"
  shows "db_inv k (set_cq jfc q s1) ctx as"
proof -
  have mm: "mmap_ok E" using ok by (simp add: sys_ok_def)
  note bl = cdma_u_alloc_queue_buf_live [OF b mm w]
  obtain t where t: "s1 = s\<lparr>tr := t\<rparr>" using alloc_queue_buf_frame [OF b] by blast
  have "live (set_cq jfc q s1) = live s + (if r = 0 then queue_buf_res q else {#})"
    using bl by (auto simp: set_cq_def live_simps)
  from db_own_gain [OF inv _ _ this] show ?thesis by (simp add: set_cq_def t)
qed

lemma alloc_jfc_buf_returns:
  assumes ok: "sys_ok E k" and inv: "db_inv k s ctx as" and w: "q_wrid (jfc_cq (jfcs s jfc)) = NULL"
    and g: "cdma_u_queue_geometry (jfc_cq (jfcs s jfc)) (jfc_depth_of cfg) (ucast (ctx_cqe_size (ctxs s ctx))) CDMA_HW_PAGE_SIZE \<noteq> None"
  shows "cdma_u_alloc_jfc_buf E ctx cfg jfc s \<noteq> None"
proof -
  obtain r q s1 where b: "cdma_u_alloc_queue_buf E (jfc_cq (jfcs s jfc)) (jfc_depth_of cfg) (ucast (ctx_cqe_size (ctxs s ctx)))
       CDMA_HW_PAGE_SIZE False s = Some (r, q, s1)" using alloc_queue_buf_returns [OF g] by fast
  from cdma_u_alloc_sw_db_spec [OF ok set_cq_inv [OF ok inv w b]] obtain db s3 where
    "cdma_u_alloc_sw_db E ctx (set_cq jfc q s1) = Some (db, s3)" by blast
  then show ?thesis using b by (auto simp: cdma_u_alloc_jfc_buf_def Let_def split_beta)
qed

lemma create_jfc_returns:
  assumes ok: "sys_ok E k" and inv: "db_inv k s ctx as"
    and g: "cdma_u_queue_geometry zero_jetty_queue (jfc_depth_of cfg) (ucast (ctx_cqe_size (ctxs s ctx))) CDMA_HW_PAGE_SIZE \<noteq> None"
  shows "cdma_u_create_jfc E ctx cfg s \<noteq> None"
proof -
  obtain x s1 where x: "sys_alloc E ObjJfc s = (x, s1)" by (cases "sys_alloc E ObjJfc s")
  note x' = sys_alloc_fresh [OF ok x]
  let ?z = "s1\<lparr>jfcs := (jfcs s1)(x := zero_jfc)\<rparr>"
  obtain r s2 where sp: "sys_spin_init E x ?z = (r, s2)" by (cases "sys_spin_init E x ?z")
  show ?thesis
  proof (cases "cdma_u_check_jfc_cfg ctx cfg s \<noteq> 0 \<or> x = NULL \<or> r \<noteq> 0")
    case True
    then show ?thesis using x sp by (auto simp: cdma_u_create_jfc_def)
  next
    case False
    then have chk: "cdma_u_check_jfc_cfg ctx cfg s = 0" "x \<noteq> NULL" "r = 0" by simp_all
    have s2: "ctxs s2 = ctxs s" "pages s2 = pages s" "jfcs s2 x = zero_jfc" "live s2 = live s + ({#RMem x#} + {#RSpin x#})"
      using sp x' chk by (auto simp: sys_spin_init_def Let_def live_simps)
    have inv2: "db_inv k s2 ctx as" using db_own_gain [OF inv s2(1,2,4)] by blast
    have w2: "q_wrid (jfc_cq (jfcs s2 x)) = NULL" by (simp add: s2(3) zero_jfc_def zero_jetty_queue_def)
    have g2: "cdma_u_queue_geometry (jfc_cq (jfcs s2 x)) (jfc_depth_of cfg) (ucast (ctx_cqe_size (ctxs s2 ctx))) CDMA_HW_PAGE_SIZE \<noteq> None"
      using g s2(1,3) by (simp add: zero_jfc_def)
    obtain ret s3 where b: "cdma_u_alloc_jfc_buf E ctx cfg x s2 = Some (ret, s3)"
      using alloc_jfc_buf_returns [OF ok inv2 w2 g2] by fast
    from alloc_jfc_buf_spec [OF ok inv2 w2 b] obtain as3 where as3: "db_inv k s3 ctx as3"
        "if ret = 0 then db_own s3 as3 = db_own s2 as + queue_buf_res (jfc_cq (jfcs s3 x))
           \<and> sw_db (jfcs s3 x) \<notin> db_used s2 as \<and> db_used s3 as3 = insert (sw_db (jfcs s3 x)) (db_used s2 as)
         else db_own s3 as3 = db_own s2 as \<and> db_used s3 as3 = db_used s2 as" by blast
    obtain rc s4 where c: "cdma_cmd_create_jfc E ctx x cfg s3 = (rc, s4)" by (cases "cdma_cmd_create_jfc E ctx x cfg s3")
    have "\<exists>s5. cdma_u_free_jfc_buf ctx x s4 = Some s5" if "ret = 0" "rc \<noteq> 0"
    proof -
      have s4: "ctxs s4 = ctxs s3" "pages s4 = pages s3" "live s4 = live s3 + {#}" "jfcs s4 = jfcs s3"
        using c that by (auto simp: cdma_cmd_create_jfc_def sys_ioctl_def Let_def split_beta live_simps split: if_splits)
      note g4 = db_own_gain [OF as3(1) s4(1-3)]
      show ?thesis using free_jfc_buf_spec [OF ok, of s4 ctx as3 x] g4 as3(2) that(1) s4(4) by auto
    qed
    then show ?thesis using x sp chk b c by (auto simp: cdma_u_create_jfc_def Let_def)
  qed
qed

lemma create_jfs_returns:
  assumes ok: "sys_ok E k" and ps: "ctx_page_size (ctxs s ctx) = 2 ^ k"
    and d: "roundup_pow_of_two (ucast (sqe_bb_cnt cfg * jfs_cfg_depth cfg)) = Some d"
    and g: "\<And>q. cdma_u_queue_geometry q (ucast d) CDMA_JFS_WQEBB CDMA_HW_PAGE_SIZE \<noteq> None"
  shows "cdma_u_create_jfs E ctx cfg s \<noteq> None"
proof -
  obtain x s1 where x: "sys_alloc E ObjJfs s = (x, s1)" by (cases "sys_alloc E ObjJfs s")
  note x' = sys_alloc_fresh [OF ok x]
  have sqr: "cdma_u_create_sq E x q cfg t \<noteq> None" for q t
    using d by (simp add: cdma_u_create_sq_def Let_def split_beta bind_eq_None_conv alloc_queue_buf_returns [OF g] del: not_None_eq)
  have mm: "mmap_ok E" using ok by (simp add: sys_ok_def)
  have w: "q_wrid (jfs_sq zero_jfs) = NULL" by (simp add: zero_jfs_def zero_jetty_queue_def)
  show ?thesis
  proof (cases "ctx = NULL \<or> ctx_dev s ctx = NULL \<or> cdma_verify_jfs_param ctx cfg s \<noteq> 0 \<or> x = NULL")
    case True
    then show ?thesis using x by (auto simp: cdma_u_create_jfs_def)
  next
    case False
    then have chk: "ctx \<noteq> NULL" "ctx_dev s ctx \<noteq> NULL" "cdma_verify_jfs_param ctx cfg s = 0" "x \<noteq> NULL" by simp_all
    obtain r q s2 where q: "cdma_u_create_sq E x (jfs_sq zero_jfs) cfg (set_jfs x zero_jfs s1) = Some (r, q, s2)" using sqr by fast
    obtain t2 where t2: "s2 = (set_jfs x zero_jfs s1)\<lparr>tr := t2\<rparr>" using create_sq_spec [OF mm w q] by blast
    let ?s4 = "set_jfs x ((jfss (set_jfs x ((jfss s2 x)\<lparr>jfs_sq := q\<rparr>) s2) x)\<lparr>jfs_type := CDMA_NORMAL_JETTY_TYPE\<rparr>)
         (set_jfs x ((jfss s2 x)\<lparr>jfs_sq := q\<rparr>) s2)"
    obtain rc s5 where c: "cdma_u_exec_create_jfs_cmd E ctx x cfg ?s4 = (rc, s5)" by (cases "cdma_u_exec_create_jfs_cmd E ctx x cfg ?s4")
    have "ctxs s5 = ctxs ?s4"
      using cmd_create_jfs_spec [OF c [unfolded cdma_u_exec_create_jfs_cmd_def Let_def]] by (auto split: if_splits)
    then have "ctx_page_size (ctxs s5 ctx) = 2 ^ k" using ps x' t2 by (simp add: set_jfs_def)
    then have "\<exists>r db s6. cdma_u_alloc_db E ctx b s5 = Some (r, db, s6)" for b
      using cdma_u_alloc_db_mapped [OF ok, of s5 ctx b] by blast
    from this [of "(q_db ((jfs_sq (jfss s5 x))))\<lparr>db_id := jfs_id (jfss s5 x), db_type := CDMA_MMAP_JETTY_DSQE\<rparr>"]
    show ?thesis using x chk q c by (auto simp: cdma_u_create_jfs_def Let_def split_beta)
  qed
qed
section \<open>A created queue is ready for use\<close>

text \<open>Mappings do not reach the end of the address space, an element's length past the buffer included.\<close>

definition mmap_room :: "env \<Rightarrow> bool" where
  "mmap_room E \<longleftrightarrow> (\<forall>t n. e_mmap_anon E t n \<noteq> MAP_FAILED \<longrightarrow> unat (e_mmap_anon E t n) + unat n + 256 \<le> 2 ^ 64)"

lemma queue_buf_ring:
  assumes run: "cdma_u_alloc_queue_buf E q n es CDMA_HW_PAGE_SIZE en s = Some (0, q', s')"
    and n: "n \<noteq> 0" "es \<noteq> 0" "2 * unat n * unat es \<le> 2 ^ 31" and room: "mmap_room E"
  obtains c sh where "ring_geometry_is c sh q'" and "unat n \<le> 2 ^ c" and "unat es \<le> 2 ^ sh" and "2 ^ sh < 2 * unat es"
    and "qbuf q' \<noteq> NULL" and "qbuf_curr q' = qbuf q'" and "unat (qbuf q') + 2 ^ (c + sh) + 256 \<le> 2 ^ 64"
    and "q_pi q' = q_pi q" and "q_ci q' = q_ci q" and "q_sqe_bb_cnt q' = q_sqe_bb_cnt q" and "q_max_sge_num q' = q_max_sge_num q"
proof -
  have hw: "(2 :: u32) ^ 12 = CDMA_HW_PAGE_SIZE" by simp
  have "(12 :: nat) \<le> 31" by simp
  from queue_geometry_spec [OF n this, of q, unfolded hw] obtain c sh where g: "cdma_u_queue_geometry q n es CDMA_HW_PAGE_SIZE = Some (pow2_geometry c sh q)"
    and b: "unat n \<le> 2 ^ c" "unat es \<le> 2 ^ sh" "2 ^ sh < 2 * unat es" "c + sh \<le> 31"
    by (elim exE conjE) (rule that; assumption)
  from run obtain g' wrid buf where g': "cdma_u_queue_geometry q n es CDMA_HW_PAGE_SIZE = Some g'"
      "q' = g'\<lparr>q_wrid := wrid, qbuf := buf, qbuf_curr := buf\<rparr>" "buf \<noteq> NULL" "buf \<noteq> MAP_FAILED"
      "buf = e_mmap_anon E (if en then EvAlloc ObjWrid wrid # tr s else tr s) (qbuf_size g')"
    by (rule alloc_queue_buf_cases)
  have e: "g' = pow2_geometry c sh q" using g g'(1) by simp
  have r: "ring_geometry_is c sh q'" using pow2_geometry_wf [OF b(4), of q] by (simp add: g'(2) e ring_geometry_is_def)
  have "unat (qbuf_size g') = 2 ^ (c + sh)" using ring_geometry_facts(4) [OF r] by (simp add: g'(2))
  then have "unat buf + 2 ^ (c + sh) + 256 \<le> 2 ^ 64" using room g'(4,5) unfolding mmap_room_def by metis
  then show ?thesis using r b g'(3) by (intro that) (simp_all add: g'(2) e pow2_geometry_def)
qed

lemma unat_u8: "unat (x :: u8) \<le> 255"
  using unat_u8_less [of x] by linarith

lemma sqe_bb_cnt_bounds: "2 \<le> unat (sqe_bb_cnt cfg)" "unat (sqe_bb_cnt cfg) \<le> 4"
proof -
  let ?m = "ucast (jfs_cfg_max_sge cfg) :: u32"
  have m: "unat ?m \<le> 255" using unat_u8 [of "jfs_cfg_max_sge cfg"] by (simp add: unat_ucast)
  have "80 + (?m - 1) * 16 = 64 + ?m * 16" by (simp add: algebra_simps)
  moreover have "unat (64 + ?m * 16) = 64 + unat ?m * 16" using m by (simp add: unat_word_ariths)
  ultimately have "unat ((80 + (?m - 1) * 16) div 64) = (64 + unat ?m * 16) div 64" by (simp only: unat_div_distrib) simp
  then have "unat (cdma_sq_cal_wqebb_num SQE_WRITE_NOTIFY_CTL_LEN ?m CDMA_JFS_WQEBB) = (64 + unat ?m * 16) div 64 + 1"
    using m by (simp add: cdma_sq_cal_wqebb_num_def unat_add_u32_le)
  moreover have "2 \<le> (64 + unat ?m * 16) div 64 + 1" by simp
  ultimately show "2 \<le> unat (sqe_bb_cnt cfg)" "unat (sqe_bb_cnt cfg) \<le> 4"
    by (auto simp: sqe_bb_cnt_def Let_def word_less_nat_alt)
qed

lemma jfs_depth:
  assumes "jfs_cfg_depth cfg \<noteq> 0" and d: "unat (jfs_cfg_depth cfg) \<le> 2 ^ 20"
  obtains D where "roundup_pow_of_two (ucast (sqe_bb_cnt cfg * jfs_cfg_depth cfg)) = Some D" and "(ucast D :: u32) \<noteq> 0"
    and "2 * unat (ucast D :: u32) * unat CDMA_JFS_WQEBB \<le> 2 ^ 31"
    and "unat (sqe_bb_cnt cfg) * unat (jfs_cfg_depth cfg) \<le> unat (ucast D :: u32)"
proof -
  let ?b = "unat (sqe_bb_cnt cfg)" let ?d = "unat (jfs_cfg_depth cfg)"
  have bd: "?b * ?d \<le> 2 ^ 22" using sqe_bb_cnt_bounds(2) d mult_le_mono [of ?b 4 ?d "2 ^ 20"] by simp
  have u: "unat (ucast (sqe_bb_cnt cfg * jfs_cfg_depth cfg) :: u64) = ?b * ?d"
    using bd by (simp add: unat_ucast unat_word_ariths)
  have "0 < ?b * ?d" using sqe_bb_cnt_bounds(1) [of cfg] assms(1) by (auto simp: unat_gt_0)
  then have "(ucast (sqe_bb_cnt cfg * jfs_cfg_depth cfg) :: u64) \<noteq> 0" using u by (simp flip: unat_gt_0)
  from roundup_pow_of_two_spec [OF this] obtain m where m: "roundup_pow_of_two (ucast (sqe_bb_cnt cfg * jfs_cfg_depth cfg)) = Some (2 ^ m)"
      "?b * ?d \<le> 2 ^ m" "2 ^ m < 2 * (?b * ?d)" using u bd by auto
  have "(2 :: nat) ^ m < 2 ^ 23" using m(3) bd by simp
  then have "m < 23" by (rule power_less_imp_less_exp [rotated]) simp
  then have m2: "m \<le> 22" by simp
  then have "(2 :: nat) ^ m \<le> 2 ^ 22" by (intro power_increasing) auto
  moreover have "unat (ucast (2 ^ m :: u64) :: u32) = 2 ^ m"
    using m2 \<open>(2 :: nat) ^ m \<le> 2 ^ 22\<close> by (simp add: unat_ucast)
  ultimately show ?thesis using m(1,2) by (intro that [of "2 ^ m"]) (auto simp flip: unat_gt_0)
qed

lemma created_sq:
  assumes ok: "sys_ok E k" "mmap_room E" and run: "cdma_u_create_jfs E ctx cfg s = Some (p, s')" "p \<noteq> NULL"
    and d: "unat (jfs_cfg_depth cfg) \<le> 2 ^ 20"
  shows "sq_wf (jfs_sq (jfss s' p)) \<and> q_pi (jfs_sq (jfss s' p)) = 0 \<and> q_ci (jfs_sq (jfss s' p)) = 0
    \<and> unat (sqe_bb_cnt cfg) * unat (jfs_cfg_depth cfg) \<le> ring_cap (jfs_sq (jfss s' p))
    \<and> q_sqe_bb_cnt (jfs_sq (jfss s' p)) = sqe_bb_cnt cfg"
proof -
  let ?q0 = "(cdma_u_init_sq zero_jetty_queue)\<lparr>q_sqe_bb_cnt := sqe_bb_cnt cfg, q_max_sge_num := ucast (jfs_cfg_max_sge cfg)\<rparr>"
  obtain D sq db s1 s2 where D: "roundup_pow_of_two (ucast (sqe_bb_cnt cfg * jfs_cfg_depth cfg)) = Some D"
    and q: "cdma_u_alloc_queue_buf E ?q0 (ucast D) CDMA_JFS_WQEBB CDMA_HW_PAGE_SIZE True s1 = Some (0, sq, s2)"
    and e: "jfs_sq (jfss s' p) = sq\<lparr>q_db := db, q_idx := jfs_id (jfss s' p), q_dwqe_addr := db_addr db\<rparr>"
    using jfs_made [OF ok(1) run] by metis
  have "cdma_verify_jfs_param ctx cfg s = 0" using run by (auto simp: cdma_u_create_jfs_def split: if_splits)
  then have d0: "jfs_cfg_depth cfg \<noteq> 0" by (auto simp: cdma_verify_jfs_param_def Let_def split: if_splits)
  obtain uD: "(ucast D :: u32) \<noteq> 0" "2 * unat (ucast D :: u32) * unat CDMA_JFS_WQEBB \<le> 2 ^ 31"
    "unat (sqe_bb_cnt cfg) * unat (jfs_cfg_depth cfg) \<le> unat (ucast D :: u32)" using jfs_depth [OF d0 d] D by auto
  have "CDMA_JFS_WQEBB \<noteq> 0" by simp
  from queue_buf_ring [OF q uD(1) this uD(2) ok(2)] obtain c sh where r: "ring_geometry_is c sh sq" "unat (ucast D :: u32) \<le> 2 ^ c"
      "unat CDMA_JFS_WQEBB \<le> 2 ^ sh" "2 ^ sh < 2 * unat CDMA_JFS_WQEBB" "qbuf_curr sq = qbuf sq"
      "unat (qbuf sq) + 2 ^ (c + sh) + 256 \<le> 2 ^ 64" "q_pi sq = q_pi ?q0" "q_ci sq = q_ci ?q0" "q_sqe_bb_cnt sq = q_sqe_bb_cnt ?q0" .
  have q0: "q_pi ?q0 = 0" "q_ci ?q0 = 0" "q_sqe_bb_cnt ?q0 = sqe_bb_cnt cfg" by (simp_all add: cdma_u_init_sq_def)
  have "(2 :: nat) ^ sh < 2 ^ 7" "(2 :: nat) ^ 6 \<le> 2 ^ sh" using r(3,4) by simp_all
  then have "sh < 7" "6 \<le> sh" by (simp_all only: power_strict_increasing_iff [of "2 :: nat"] power_increasing_iff [of "2 :: nat"])
  then have sh: "sh = 6" by simp
  let ?q = "jfs_sq (jfss s' p)"
  have g: "ring_geometry_is c 6 ?q" using r(1) by (simp add: e sh ring_geometry_is_def)
  have "cdma_u_get_buf_entry ?q 0 = qbuf ?q" using get_buf_entry_eq(1) [OF g, of 0] by simp
  then have "sq_wf ?q" unfolding sq_wf_def using g r(5-8) q0 by (intro exI [of _ c]) (simp add: e sh)
  moreover have "unat (sqe_bb_cnt cfg) * unat (jfs_cfg_depth cfg) \<le> ring_cap ?q"
    using le_trans [OF uD(3) r(2)] ring_geometry_facts(6) [OF g] by (simp only:)
  ultimately show ?thesis using r(7-9) q0 by (simp add: e)
qed

lemma jfc_sizes:
  assumes "unat (jfc_cfg_depth cfg) \<le> 2 ^ 20" and cs: "64 \<le> unat (z :: u8)"
  shows "unat (jfc_depth_of cfg) = max 64 (unat (jfc_cfg_depth cfg))" and "jfc_depth_of cfg \<noteq> 0" and "(ucast z :: u32) \<noteq> 0"
    and "2 * unat (jfc_depth_of cfg) * unat (ucast z :: u32) \<le> 2 ^ 31" and "unat (ucast z :: u32) = unat z"
proof -
  show D: "unat (jfc_depth_of cfg) = max 64 (unat (jfc_cfg_depth cfg))" by (auto simp: max_def word_less_nat_alt)
  then have D': "unat (jfc_depth_of cfg) \<le> 2 ^ 20" using assms(1) by auto
  show "jfc_depth_of cfg \<noteq> 0" using D by (auto simp flip: unat_gt_0)
  show z: "unat (ucast z :: u32) = unat z" using unat_u8 [of z] by (simp add: unat_ucast)
  then show "(ucast z :: u32) \<noteq> 0" using cs by (simp flip: unat_gt_0)
  show "2 * unat (jfc_depth_of cfg) * unat (ucast z :: u32) \<le> 2 ^ 31"
    using mult_le_mono [OF mult_le_mono2 [OF D', of 2], of "unat (ucast z :: u32)" 255] z unat_u8 [of z] by simp
qed

lemma created_cq:
  assumes room: "mmap_room E" and run: "cdma_u_create_jfc E ctx cfg s = Some (p, s')" "p \<noteq> NULL"
    and d: "unat (jfc_cfg_depth cfg) \<le> 2 ^ 20" and cs: "64 \<le> unat (ctx_cqe_size (ctxs s ctx))"
  shows "cq_wf (jfc_cq (jfcs s' p)) \<and> q_ci (jfc_cq (jfcs s' p)) = 0
    \<and> max 64 (unat (jfc_cfg_depth cfg)) \<le> ring_cap (jfc_cq (jfcs s' p))"
proof -
  let ?z = "ctx_cqe_size (ctxs s ctx)" let ?D = "jfc_depth_of cfg"
  obtain q s1 s2 where q: "cdma_u_alloc_queue_buf E zero_jetty_queue ?D (ucast ?z) CDMA_HW_PAGE_SIZE False s1 = Some (0, q, s2)"
    and e: "jfc_cq (jfcs s' p) = q\<lparr>q_idx := jfc_id (jfcs s' p)\<rparr>" using jfc_made [OF run] by metis
  note z = jfc_sizes [OF d cs]
  obtain c sh where r: "ring_geometry_is c sh q" "unat ?D \<le> 2 ^ c" "unat (ucast ?z :: u32) \<le> 2 ^ sh" "qbuf q \<noteq> NULL"
      "unat (qbuf q) + 2 ^ (c + sh) + 256 \<le> 2 ^ 64" "q_ci q = q_ci zero_jetty_queue"
    using queue_buf_ring [OF q z(2-4) room] by metis
  have "2 ^ 6 \<le> (2 :: nat) ^ sh" using r(3) cs z(5) by simp
  then have "6 \<le> sh" by (simp only: power_increasing_iff [of "2 :: nat"])
  let ?q = "jfc_cq (jfcs s' p)"
  have g: "ring_geometry_is c sh ?q" using r(1) by (simp add: e ring_geometry_is_def)
  have "cq_wf ?q" unfolding cq_wf_def using g \<open>6 \<le> sh\<close> r(4,5) by (intro exI [of _ c] exI [of _ sh]) (simp add: e)
  moreover have "max 64 (unat (jfc_cfg_depth cfg)) \<le> ring_cap ?q" using ring_geometry_facts(6) [OF g] r(2) unfolding z(1) by simp
  ultimately show ?thesis using r(6) by (simp add: e zero_jetty_queue_def)
qed

section \<open>A queue that was allocated is ready\<close>

definition ring_sizes :: "st \<Rightarrow> ptr \<Rightarrow> queue_cfg \<Rightarrow> bool" where
  "ring_sizes s ctx cfg \<longleftrightarrow> unat (qcfg_queue_depth cfg) \<le> 2 ^ 20 \<and> 64 \<le> unat (ctx_cqe_size (ctxs s ctx))"

text \<open>
  Both rings satisfy the invariants that posting and polling rely on, are empty, and have room for as
  many of the largest elements, and of their completions, as were asked for; the send queue completes
  on the completion queue.
\<close>

definition ring_ready :: "st \<Rightarrow> ptr \<Rightarrow> ptr \<Rightarrow> nat \<Rightarrow> bool" where
  "ring_ready s jfs jfc n \<longleftrightarrow> (let sq = jfs_sq (jfss s jfs); cq = jfc_cq (jfcs s jfc) in
     sq_wf sq \<and> q_pi sq = 0 \<and> q_ci sq = 0 \<and> 2 \<le> unat (q_sqe_bb_cnt sq) \<and> unat (q_sqe_bb_cnt sq) * n \<le> ring_cap sq
     \<and> cq_wf cq \<and> q_ci cq = 0 \<and> max 64 n \<le> ring_cap cq \<and> jfs_cfg_jfc (jfs_cfg (jfss s jfs)) = jfc)"

lemma ctx_page_cqe: "c\<lparr>ctx_page := p\<rparr> = c'\<lparr>ctx_page := p\<rparr> \<Longrightarrow> ctx_cqe_size c = ctx_cqe_size c'"
  by (metis cdma_u_context.select_convs cdma_u_context.surjective cdma_u_context.update_convs)

lemma part_frame_cqe: "part_frame ctx X s s' \<Longrightarrow> ctx_cqe_size (ctxs s' c) = ctx_cqe_size (ctxs s c)"
  unfolding part_frame_def using ctx_page_cqe by blast

lemma alloc_jfc_res_returns:
  assumes ok: "sys_ok E k" "jfce_ok E" and w: "with_pages k ctx (s, as)" and d: "unat (jfc_cfg_depth jc) \<le> 2 ^ 20"
    and cs: "64 \<le> unat (ctx_cqe_size (ctxs s ctx))"
  shows "\<exists>r jc' s'. cdma_u_alloc_jfc_res E ctx q cfg jc s = Some (r, jc', s')
     \<and> (r = 0 \<longrightarrow> (\<exists>s1 s2. cdma_u_create_jfc E ctx jc' s1 = Some (que_jfc (queues s' q), s2) \<and> que_jfc (queues s' q) \<noteq> NULL
          \<and> jfcs s' = jfcs s2 \<and> jfc_cfg_depth jc' = jfc_cfg_depth jc \<and> ctxs s1 ctx = ctxs s ctx))"
proof -
  obtain e s1 where e: "cdma_u_create_jfce E ctx s = (e, s1)" by (cases "cdma_u_create_jfce E ctx s")
  note e' = create_jfce_spec [OF ok e] and m = make_jfce [OF ok w e]
  let ?jc = "jc\<lparr>jfc_cfg_jfce := e\<rparr>"
  show ?thesis
  proof (cases "e = NULL")
    case True
    then show ?thesis using e by (simp add: cdma_u_alloc_jfc_res_def Let_def)
  next
    case e0: False
    have c1: "ctxs s1 = ctxs s" using e' by (simp add: jfce_frame_def)
    have w1: "with_pages k ctx (s1, as)" using m e0 by (simp add: gains_def)
    have cs1: "64 \<le> unat (ctx_cqe_size (ctxs s1 ctx))" using cs c1 by simp
    have d1: "unat (jfc_cfg_depth ?jc) \<le> 2 ^ 20" using d by simp
    note z = jfc_sizes [OF d1 cs1]
    have "\<exists>g. cdma_u_queue_geometry zero_jetty_queue (jfc_depth_of ?jc) (ucast (ctx_cqe_size (ctxs s1 ctx))) (2 ^ 12) = Some g"
      using queue_geometry_spec [OF z(2-4), where p = 12 and q = zero_jetty_queue] by auto
    then have "cdma_u_queue_geometry zero_jetty_queue (jfc_depth_of ?jc) (ucast (ctx_cqe_size (ctxs s1 ctx))) CDMA_HW_PAGE_SIZE \<noteq> None"
      by simp
    moreover have "db_inv k s1 ctx as" using w1 by (simp add: with_pages_def)
    ultimately have "cdma_u_create_jfc E ctx ?jc s1 \<noteq> None" using create_jfc_returns [OF ok(1)] by blast
    then obtain c s2 where c: "cdma_u_create_jfc E ctx ?jc s1 = Some (c, s2)" by fast
    show ?thesis
    proof (cases "c = NULL")
      case True
      then show ?thesis using e e0 c by (simp add: cdma_u_alloc_jfc_res_def Let_def)
    next
      case c0: False
      with make_jfc [OF ok(1) w1 c] obtain as2 where v: "jfc_valid ctx (s2, as2) c" "with_pages k ctx (s2, as2)"
        by (auto dest: gains_pages)
      obtain st s3 where r3: "(if qcfg_event_mode cfg then cdma_u_rearm_jfc E c False s2 else (DMA_STATUS_OK, s2)) = (st, s3)"
        by (metis surj_pair)
      have "st = DMA_STATUS_OK \<and> jfcs s3 = jfcs s2"
        using r3 v(1) by (auto simp: jfc_valid_def cdma_u_rearm_jfc_def Let_def split: if_splits)
      then have st: "st = DMA_STATUS_OK" and j3: "jfcs s3 = jfcs s2" by simp_all
      note r3 = r3 [unfolded st]
      have run: "cdma_u_alloc_jfc_res E ctx q cfg jc s
          = Some (0, ?jc, set_queue q ((queues s3 q)\<lparr>que_jfce := e, que_jfc := c\<rparr>) s3)"
        using e e0 c c0 r3 by (simp add: cdma_u_alloc_jfc_res_def Let_def cong: if_cong)
      have "que_jfc (queues (set_queue q ((queues s3 q)\<lparr>que_jfce := e, que_jfc := c\<rparr>) s3) q) = c"
          "jfcs (set_queue q ((queues s3 q)\<lparr>que_jfce := e, que_jfc := c\<rparr>) s3) = jfcs s2"
        using j3 by (simp_all add: set_queue_def)
      then show ?thesis using run c c0 c1
        by (intro exI [of _ "0 :: int"] exI [of _ ?jc] exI [of _ "set_queue q ((queues s3 q)\<lparr>que_jfce := e, que_jfc := c\<rparr>) s3"]
          conjI impI exI [of _ s1] exI [of _ s2]) auto
    qed
  qed
qed

lemma create_queue_ready:
  assumes ok: "sys_ok E k" "jfce_ok E" "mmap_room E" and w: "with_pages k ctx (s, as)" and c: "ctx \<noteq> NULL" "ctx_dev s ctx \<noteq> NULL"
    and sz: "ring_sizes s ctx cfg"
  shows "\<exists>r s'. cdma_u_create_queue E ctx cfg qid q s = Some (r, s')
     \<and> (r = 0 \<longrightarrow> ring_ready s' (que_jfs (queues s' q)) (que_jfc (queues s' q)) (unat (qcfg_queue_depth cfg)))"
proof -
  let ?s1 = "set_queue q ((queues s q)\<lparr>que_ctx := ctx, que_cfg := cfg\<rparr>) s"
  let ?jc = "cdma_assemble_jfc_cfg zero_jfc_cfg cfg qid" let ?n = "unat (qcfg_queue_depth cfg)"
  have dj: "unat (jfc_cfg_depth ?jc) \<le> 2 ^ 20" "64 \<le> unat (ctx_cqe_size (ctxs ?s1 ctx))"
    using sz by (simp_all add: ring_sizes_def cdma_assemble_jfc_cfg_def set_queue_def)
  have w1: "with_pages k ctx (?s1, as)" using w by simp
  from alloc_jfc_res_returns [OF ok(1,2) w1 dj, of q cfg] obtain r2 jc2 s2 where
    a: "cdma_u_alloc_jfc_res E ctx q cfg ?jc ?s1 = Some (r2, jc2, s2)" and
    cq: "r2 = 0 \<longrightarrow> (\<exists>t1 t2. cdma_u_create_jfc E ctx jc2 t1 = Some (que_jfc (queues s2 q), t2) \<and> que_jfc (queues s2 q) \<noteq> NULL
          \<and> jfcs s2 = jfcs t2 \<and> jfc_cfg_depth jc2 = jfc_cfg_depth ?jc \<and> ctxs t1 ctx = ctxs ?s1 ctx)" by blast
  from alloc_jfc_res_spec [OF ok(1,2) w1 a] obtain as2 where w2: "with_pages k ctx (s2, as2)"
    by (auto split: if_splits dest: gains_pages)
  let ?dev = "devs ?s1 (ctx_dev ?s1 ctx)"
  let ?tc = "cdma_assemble_tp_cfg zero_tp_cfg ?dev cfg qid"
  let ?sc = "\<lambda>s4 t. cdma_assemble_jfs_cfg zero_jfs_cfg ?dev cfg qid
      \<lparr>jfs_cfg_jfc := que_jfc (queues s4 q), jfs_cfg_tpn := tp_tpn (tps s4 t)\<rparr>"
  let ?s4 = "\<lambda>s3 t. set_queue q ((queues s3 q)\<lparr>que_tp := t\<rparr>) s3"
  have sd: "jfs_cfg_depth (?sc s4 t) = qcfg_queue_depth cfg" for s4 t by (simp add: cdma_assemble_jfs_cfg_def)
  have ps: "ctx_page_size (ctxs (?s4 s3 t) ctx) = 2 ^ k \<and> jfcs s3 = jfcs s2" if "cdma_u_create_ctp E ctx ?tc s2 = (t, s3)" for t s3
    using create_ctp_spec [OF ok(1) that] w2 by (simp add: ctp_frame_def with_pages_def db_inv_def set_queue_def)
  have jfs: "cdma_u_create_jfs E ctx (?sc (?s4 s3 t) t) (?s4 s3 t) \<noteq> None" if "cdma_u_create_ctp E ctx ?tc s2 = (t, s3)" for t s3
  proof (cases "qcfg_queue_depth cfg = 0")
    case True
    then show ?thesis using sd [of "?s4 s3 t" t]
      by (auto simp: cdma_u_create_jfs_def cdma_verify_jfs_param_def Let_def simp del: not_None_eq)
  next
    case False
    have nd: "jfs_cfg_depth (?sc (?s4 s3 t) t) \<noteq> 0" "unat (jfs_cfg_depth (?sc (?s4 s3 t) t)) \<le> 2 ^ 20"
      using False sz sd by (simp_all add: ring_sizes_def)
    obtain D where D: "roundup_pow_of_two (ucast (sqe_bb_cnt (?sc (?s4 s3 t) t) * jfs_cfg_depth (?sc (?s4 s3 t) t))) = Some D"
      "(ucast D :: u32) \<noteq> 0" "2 * unat (ucast D :: u32) * unat CDMA_JFS_WQEBB \<le> 2 ^ 31" by (rule jfs_depth [OF nd])
    have "cdma_u_queue_geometry g (ucast D) CDMA_JFS_WQEBB CDMA_HW_PAGE_SIZE \<noteq> None" for g
      using queue_geometry_spec [OF D(2) _ D(3), where p = 12 and q = g] by auto
    from create_jfs_returns [OF ok(1) _ D(1) this] show ?thesis using ps [OF that] by blast
  qed
  from create_queue_runs [OF ok(1,2) w c a] obtain r s' where run: "cdma_u_create_queue E ctx cfg qid q s = Some (r, s')"
    using jfs unfolding Let_def by blast
  have "ring_ready s' (que_jfs (queues s' q)) (que_jfc (queues s' q)) ?n" if r: "r = 0"
  proof -
    obtain t s3 where t: "cdma_u_create_ctp E ctx ?tc s2 = (t, s3)" by (cases "cdma_u_create_ctp E ctx ?tc s2")
    obtain j s5 where j: "cdma_u_create_jfs E ctx (?sc (?s4 s3 t) t) (?s4 s3 t) = Some (j, s5)" using jfs [OF t] by fast
    have "r2 = 0" using run r a c by (auto simp: cdma_u_create_queue_def Let_def split: if_splits)
    have "t \<noteq> NULL" using run r a c \<open>r2 = 0\<close> t by (auto simp: cdma_u_create_queue_def Let_def bind_eq_Some_conv)
    have "j \<noteq> NULL" using run r a c \<open>r2 = 0\<close> t \<open>t \<noteq> NULL\<close> j
      by (auto simp: cdma_u_create_queue_def Let_def bind_eq_Some_conv split_beta)
    from create_jfs_spec [OF ok(1) _ j] ps [OF t] have fr: "queues s5 = queues (?s4 s3 t)" "jfcs s5 = jfcs (?s4 s3 t)"
      by (simp_all add: jfs_frame_def)
    have "s' = set_queue q ((queues s5 q)\<lparr>que_jfs := j, que_queue_cfg := \<lparr>cdma_jfc_cfg = jc2,
        cdma_jfs_cfg = ?sc (?s4 s3 t) t, cdma_tp_cfg = ?tc\<rparr>\<rparr>) s5"
      using run r a c \<open>r2 = 0\<close> t \<open>t \<noteq> NULL\<close> j \<open>j \<noteq> NULL\<close>
      by (simp add: cdma_u_create_queue_def Let_def set_queue_def)
    then obtain v where s': "s' = set_queue q v s5" "que_jfs v = j" "que_jfc v = que_jfc (queues s5 q)" by fastforce
    have q2: "queues s3 = queues s2" using create_ctp_spec [OF ok(1) t] by (simp add: ctp_frame_def)
    have e: "que_jfs (queues s' q) = j" "que_jfc (queues s' q) = que_jfc (queues s2 q)" "jfss s' = jfss s5" "jfcs s' = jfcs s2"
      using fr ps [OF t] q2 by (simp_all add: s' set_queue_def)
    obtain t1 t2 where cc: "cdma_u_create_jfc E ctx jc2 t1 = Some (que_jfc (queues s2 q), t2)" "que_jfc (queues s2 q) \<noteq> NULL"
      "jfcs s2 = jfcs t2" "jfc_cfg_depth jc2 = jfc_cfg_depth ?jc" "ctxs t1 ctx = ctxs ?s1 ctx" using cq \<open>r2 = 0\<close> by blast
    have dc: "jfc_cfg_depth jc2 = qcfg_queue_depth cfg" unfolding cc(4) by (simp add: cdma_assemble_jfc_cfg_def)
    from created_cq [OF ok(3) cc(1,2)] dj cc(3-5) dc
    have "cq_wf (jfc_cq (jfcs s2 (que_jfc (queues s2 q)))) \<and> q_ci (jfc_cq (jfcs s2 (que_jfc (queues s2 q)))) = 0
      \<and> max 64 ?n \<le> ring_cap (jfc_cq (jfcs s2 (que_jfc (queues s2 q))))" by simp
    moreover have "unat (jfs_cfg_depth (?sc (?s4 s3 t) t)) \<le> 2 ^ 20" using sz unfolding sd by (simp add: ring_sizes_def)
    from created_sq [OF ok(1,3) j \<open>j \<noteq> NULL\<close> this] sqe_bb_cnt_bounds(1) [of "?sc (?s4 s3 t) t"]
    have "sq_wf (jfs_sq (jfss s5 j)) \<and> q_pi (jfs_sq (jfss s5 j)) = 0 \<and> q_ci (jfs_sq (jfss s5 j)) = 0
      \<and> 2 \<le> unat (q_sqe_bb_cnt (jfs_sq (jfss s5 j))) \<and> unat (q_sqe_bb_cnt (jfs_sq (jfss s5 j))) * ?n \<le> ring_cap (jfs_sq (jfss s5 j))"
      unfolding sd by simp
    moreover have "jfs_cfg_jfc (jfs_cfg (jfss s5 j)) = que_jfc (queues s2 q)"
      by (rule jfs_made [OF ok(1) j \<open>j \<noteq> NULL\<close>]) (simp add: q2)
    ultimately show ?thesis unfolding ring_ready_def e Let_def by blast
  qed
  then show ?thesis using run by blast
qed

lemma alloc_queue_returns:
  assumes ok: "sys_ok E k" "jfce_ok E" "mmap_room E" and w: "with_pages k ctx (s, as)" and sz: "ring_sizes s ctx cfg"
    and c0: "ctx \<noteq> NULL"
  shows "\<exists>p s'. cdma_alloc_queue E ctx cfg s = Some (p, s') \<and> (p \<noteq> NULL \<longrightarrow> que_ctx (queues s' p) = ctx
     \<and> que_cfg (queues s' p) = cfg
     \<and> ring_ready s' (que_jfs (queues s' p)) (que_jfc (queues s' p)) (unat (qcfg_queue_depth cfg)))"
proof -
  obtain q s1 where q: "sys_alloc E ObjQueue s = (q, s1)" by (cases "sys_alloc E ObjQueue s")
  note q' = sys_alloc_fresh [OF ok(1) q]
  let ?s1 = "set_queue q zero_queue s1"
  obtain rc s2 where c: "cdma_u_cmd_create_queue E ctx q cfg ?s1 = (rc, s2)" by (cases "cdma_u_cmd_create_queue E ctx q cfg ?s1")
  show ?thesis
  proof (cases "q = NULL \<or> rc \<noteq> 0")
    case True
    then show ?thesis using q c c0 by (auto simp: cdma_alloc_queue_def)
  next
    case False
    then have q0: "q \<noteq> NULL" "rc = 0" by simp_all
    have cc: "ctx_fd ?s1 = ctx_fd s" "ctx_dev ?s1 = ctx_dev s" using q' by simp_all
    have "ctx_dev s ctx \<noteq> NULL \<and> (\<exists>rq out v. s2 = set_queue q v (emit (EvIoctl (ctx_fd s ctx) (CDMA_CMD_CREATE_QUEUE rq) 0 out) ?s1)
          \<and> que_queue_id v = word_of_int (out_queue_id out))"
      using cmd_create_queue_ok [OF c [unfolded q0(2)]] cc by simp
    then obtain rq out v where dev: "ctx_dev s ctx \<noteq> NULL" and
      s2: "s2 = set_queue q v (emit (EvIoctl (ctx_fd s ctx) (CDMA_CMD_CREATE_QUEUE rq) 0 out) ?s1)"
        "que_queue_id v = word_of_int (out_queue_id out)" by blast
    have f2: "part_frame ctx (Collect (free_at (s, as))) s s2" "ctxs s2 = ctxs s" "pages s2 = pages s"
        "live s2 = live s + {#RMem q, RQueue (ctx_fd s ctx) (que_queue_id (queues s2 q))#}"
      using q' q0 s2 by (auto simp: live_simps set_queue_def part_frame_def)
    have w2: "with_pages k ctx (s2, as)"
      using gains_live [OF w f2(1-4)] q' q0 by (auto simp: mem_fresh_def dest: gains_pages)
    have d2: "ctx_dev s2 ctx \<noteq> NULL" using dev part_frame_ctx [OF f2(1)] by simp
    have "ring_sizes s2 ctx cfg" using sz f2(2) by (simp add: ring_sizes_def)
    from create_queue_ready [OF ok w2 c0 d2 this, of "ucast (que_handle (queues s2 q))" q] obtain r s3 where
      r: "cdma_u_create_queue E ctx cfg (ucast (que_handle (queues s2 q))) q s2 = Some (r, s3)"
      "r = 0 \<longrightarrow> ring_ready s3 (que_jfs (queues s3 q)) (que_jfc (queues s3 q)) (unat (qcfg_queue_depth cfg))" by blast
    show ?thesis
    proof (cases "r = 0")
      case False
      then show ?thesis using q c c0 q0 r(1) by (simp add: cdma_alloc_queue_def)
    next
      case True
      then show ?thesis using q c c0 q0 r by (simp add: cdma_alloc_queue_def set_queue_def ring_ready_def)
    qed
  qed
qed

text \<open>
  C6: allocating a queue of at most 2^20 requests, on a context whose completion entries have at
  least 64 bytes, always returns, whatever fails on the way. The queue it returns, if any, belongs
  to the context and is ready: its send ring and its completion ring satisfy the invariants that
  posting and polling rely on, are empty, have room for that many of the largest elements and of
  their completions, and the send queue completes on that completion ring.
\<close>

theorem queue_ready:
  assumes ok: "sys_ok E k" "jfce_ok E" "mmap_room E" and w: "with_pages k ctx (s, as)" and sz: "ring_sizes s ctx cfg"
  shows "\<exists>p s'. dma_alloc_queue E ctx (Some cfg) s = Some (p, s') \<and> (p \<noteq> NULL \<longrightarrow> que_ctx (queues s' p) = ctx
     \<and> que_cfg (queues s' p) = cfg
     \<and> ring_ready s' (que_jfs (queues s' p)) (que_jfc (queues s' p)) (unat (qcfg_queue_depth cfg)))"
  using alloc_queue_returns [OF assms] by (cases "ctx = NULL") (fastforce simp: dma_alloc_queue_def)+

lemma room_sys_ok: "sys_ok room_sys 12" "jfce_ok room_sys" "mmap_room room_sys"
proof -
  have "sys_ok demo_sys 12" by (rule demo_sys_ok)
  then show "sys_ok room_sys 12" by (simp add: sys_ok_def mmap_ok_def room_sys_def demo_sys_def demo_env_def)
  show "jfce_ok room_sys" by (simp add: jfce_ok_def room_sys_def demo_sys_def demo_env_def)
  have "unat (demo_mmap t) + unat n + 256 \<le> 2 ^ 64" if "demo_mmap t < 0x8000000000000000" for t and n :: u32
  proof -
    have "unat (demo_mmap t) < 9223372036854775808" using that by (simp add: word_less_nat_alt)
    moreover have "(2 :: nat) ^ 64 = 18446744073709551616" by simp
    ultimately show ?thesis using unat_u32_less [of n] by linarith
  qed
  then show "mmap_room room_sys" by (simp add: mmap_room_def room_sys_def)
qed

lemma demo_queue_pages: "with_pages 12 0x40 (demo_queue_st, [])"
  by (simp add: with_pages_def db_inv_def demo_queue_st_def init_st_def dll_def pages_res_def zero_context_def)

lemma demo_queue_sizes: "ring_sizes demo_queue_st 0x40 demo_queue_cfg"
  by (simp add: ring_sizes_def demo_queue_st_def zero_queue_cfg_def)

lemma queue_ready_witness:
  "\<exists>p s'. dma_alloc_queue room_sys 0x40 (Some demo_queue_cfg) demo_queue_st = Some (p, s') \<and> p \<noteq> NULL
     \<and> ring_ready s' (que_jfs (queues s' p)) (que_jfc (queues s' p)) 16"
proof -
  obtain s1 where "cdma_alloc_queue room_sys 0x40 demo_queue_cfg demo_queue_st = Some (0x10000, s1)"
    by (rule demo_queue_run)
  then have "dma_alloc_queue room_sys 0x40 (Some demo_queue_cfg) demo_queue_st = Some (0x10000, s1)"
    by (simp add: dma_alloc_queue_def)
  with queue_ready [OF room_sys_ok demo_queue_pages demo_queue_sizes] show ?thesis
    by (auto simp: zero_queue_cfg_def)
qed

lemma room_sys_sync: "sync_ok room_sys"
  by (simp add: sync_ok_def room_sys_def demo_sys_def demo_env_def)

section \<open>What queues leave behind\<close>

text \<open>
  C5: over any sequence of allocations of queues on a context, successful or failed at any of their
  steps, and of releases of queues that exist, what the process has acquired is what the queues that
  remain own, plus a leak. The balance \<open>db_bal\<close>, in which a page of software doorbells is replaced by
  its doorbells in use, counts all resources but mutexes and condition variables: it is exactly
  that of the remaining queues, of each its memory, its kernel object and its four parts with their
  rings, spin locks, doorbells and descriptors, each once and shared with no other. Mutexes and
  condition variables (\<open>syncs\<close>) are never destroyed: one \<open>event_mutex\<close> and one \<open>event_cond\<close> stay for
  every allocation that succeeded, released or not, and at most one pair for every one that failed.
\<close>

theorem queues_balance:
  assumes "life_run (\<lambda>x obj x'. \<exists>cfg r. cdma_alloc_queue E ctx cfg (fst x) = Some r \<and> outcome r obj (fst x') \<and> with_pages k ctx x')
      (\<lambda>x q x'. cdma_free_queue E q (fst x) = Some (fst x') \<and> with_pages k ctx x') x ops x'"
    and "sys_ok E k" "jfce_ok E" "sync_ok E" "ctx \<noteq> NULL" "with_pages k ctx x" "once x" and "deletes_held [] ops"
  shows "db_bal x' = db_bal x + holdings (queue_res k ctx) x' (held_objs [] ops)
     \<and> (\<forall>q\<in>set (held_objs [] ops). queue_valid k ctx x' q)
     \<and> (\<exists>ps. syncs (fst x') = syncs (fst x) + (\<Sum>p\<leftarrow>ps. {#RMutex (p + 64), RCond (p + 104)#})
           \<and> num_created ops \<le> length ps \<and> length ps \<le> num_created ops + num_failed ops)"
  using queue.run_balance [OF assms(1), of "[]" "db_bal x"] assms(2,3,5-8)
    queue_run_syncs [OF assms(1,4), unfolded jfc_syncs_def] by simp

text \<open>
  Two queues are allocated, the first is freed: what is left is the second one, with its parts, and two
  mutexes and condition variables, one pair of them that of the queue that was freed.
\<close>

lemma queues_balance_witness:
  "\<exists>q x' p p'. q \<noteq> NULL \<and> db_bal x' = db_bal (demo_queue_st, []) + queue_res 12 0x40 x' q \<and> queue_valid 12 0x40 x' q
     \<and> syncs (fst x') = {#RMutex (p + 64), RCond (p + 104), RMutex (p' + 64), RCond (p' + 104)#}"
proof -
  let ?cr = "\<lambda>x obj x'. \<exists>cfg r. cdma_alloc_queue room_sys 0x40 cfg (fst x) = Some r \<and> outcome r obj (fst x') \<and> with_pages 12 0x40 x'"
  let ?de = "\<lambda>x q x'. cdma_free_queue room_sys q (fst x) = Some (fst x') \<and> with_pages 12 0x40 x'"
  have c: "(0x40 :: ptr) \<noteq> NULL" by simp
  obtain q s1 s2 s3 where run: "cdma_alloc_queue room_sys 0x40 demo_queue_cfg demo_queue_st = Some (0x10000, s1)"
    "cdma_alloc_queue room_sys 0x40 demo_queue_cfg s1 = Some (q, s2)" "q \<noteq> NULL" "q \<noteq> 0x10000"
    "cdma_free_queue room_sys 0x10000 s2 = Some s3" by (rule demo_queue_run)
  obtain as1 where w1: "with_pages 12 0x40 (s1, as1)"
    using alloc_queue_spec [OF room_sys_ok(1,2) c demo_queue_pages run(1)] by (auto split: if_splits dest: gains_pages)
  obtain as2 where w2: "with_pages 12 0x40 (s2, as2)"
    using alloc_queue_spec [OF room_sys_ok(1,2) c w1 run(2)] by (auto split: if_splits dest: gains_pages)
  have "live demo_queue_st = {#}" by (simp add: live_def demo_queue_st_def init_st_def)
  then have o: "once (demo_queue_st, [])" by (simp add: once_def db_bal_def db_own_def db_used_def pages_res_def)
  have z: "syncs (fst (demo_queue_st, [])) = {#}" using \<open>live demo_queue_st = {#}\<close> by (simp add: syncs_def)
  note balance = queues_balance [where E = room_sys and ctx = "0x40" and k = 12, OF _ room_sys_ok(1,2) room_sys_sync c demo_queue_pages o]
  have c1: "?cr (demo_queue_st, []) (Some 0x10000) (s1, as1)"
    by (rule exI [of _ demo_queue_cfg], rule exI [of _ "(0x10000, s1)"]) (simp add: outcome_def run w1)
  have c2: "?cr (s1, as1) (Some q) (s2, as2)"
    by (rule exI [of _ demo_queue_cfg], rule exI [of _ "(q, s2)"]) (simp add: outcome_def run w2)
  have "life_run ?cr ?de (demo_queue_st, []) [Created 0x10000, Created q] (s2, as2)"
    by (rule life_created, rule c1, rule life_created, rule c2, rule life_nil)
  from balance [OF this] have b: "db_bal (s2, as2) = db_bal (demo_queue_st, []) + (queue_res 12 0x40 (s2, as2) q + queue_res 12 0x40 (s2, as2) 0x10000)"
    and v: "queue_valid 12 0x40 (s2, as2) 0x10000" by simp_all
  have "queue_res 12 0x40 (s2, as2) 0x10000 \<subseteq># db_bal (s2, as2)" unfolding b by simp
  from free_queue_spec [OF room_sys_ok(1) w2 v this run(5)] obtain as3 where w3: "with_pages 12 0x40 (s3, as3)"
    by (auto dest: loses_pages)
  have d: "?de (s2, as2) 0x10000 (s3, as3)" using run w3 by simp
  have "life_run ?cr ?de (demo_queue_st, []) [Created 0x10000, Created q, Deleted 0x10000] (s3, as3)"
    by (rule life_created, rule c1, rule life_created, rule c2, rule life_deleted, rule d, rule life_nil)
  note r = balance [OF this]
  have "db_bal (s3, as3) = db_bal (demo_queue_st, []) + queue_res 12 0x40 (s3, as3) q" "queue_valid 12 0x40 (s3, as3) q"
    using r run(4) by (simp_all split: if_splits)
  moreover obtain ps where ps: "syncs (fst (s3, as3)) = (\<Sum>p\<leftarrow>ps. {#RMutex (p + 64), RCond (p + 104)#})" "length ps = 2"
    using r unfolding z by auto
  then obtain p p' where "ps = [p, p']" by (auto simp: length_Suc_conv numeral_2_eq_2)
  ultimately show ?thesis using run(3) ps(1)
    by (intro exI [of _ q] exI [of _ "(s3, as3)"] exI [of _ p] exI [of _ p']) simp
qed

end
