(* ===== verification/Cdma_Release.thy ===== *)
theory Cdma_Release
  imports Cdma_Queue_Ready
begin

text \<open>
  Releasing a queue. \<open>cdma_free_queue\<close> deletes the send queue first, which cleans the completion
  ring of its entries (\<open>cdma_u_clean_jfc\<close>); the two loops of cleaning end, and nothing on the way is
  undefined, when the consumer index of the ring is away from the ends of the signed and unsigned
  ranges. The theorems on what a release gives back then need not assume that it returns.
\<close>

section \<open>The loops of cleaning end\<close>

lemma clean_scan_returns:
  assumes wf: "cq_wf (jfc_cq j)" and room: "unat (q_ci (jfc_cq j)) + ring_cap (jfc_cq j) + 1 < 2 ^ 32"
  shows "i \<le> Suc (ring_cap (jfc_cq j)) \<Longrightarrow> \<exists>k\<le>Suc (ring_cap (jfc_cq j)).
    clean_scan j s (q_ci (jfc_cq j) + of_nat i) = Some (q_ci (jfc_cq j) + of_nat k)"
proof (induction "Suc (ring_cap (jfc_cq j)) - i" arbitrary: i)
  let ?q = "jfc_cq j" let ?N = "Suc (ring_cap ?q)"
  case 0
  then have i: "i = ?N" by simp
  have "unat (q_ci ?q + of_nat ?N) = unat (q_ci ?q) + ?N" "unat (q_ci ?q + of_nat (ring_cap ?q)) = unat (q_ci ?q) + ring_cap ?q"
    using room by (intro unat_add_of_nat_u32; simp)+
  then have "q_ci ?q + of_nat ?N > q_ci ?q + baseblk_cnt ?q" by (simp add: word_less_nat_alt ring_cap_def)
  then have "clean_scan j s (q_ci ?q + of_nat ?N) = Some (q_ci ?q + of_nat ?N)"
    by (subst clean_scan.simps) (simp add: get_next_cqe_eq [OF wf] del: of_nat_Suc)
  then show ?case unfolding i by blast
next
  let ?q = "jfc_cq j" let ?N = "Suc (ring_cap ?q)"
  case (Suc n)
  from Suc(2) have i: "Suc i \<le> ?N" by simp
  have "n = ?N - Suc i" using Suc(2) by linarith
  from Suc(1) [OF this i] obtain k where "k \<le> ?N" "clean_scan j s (q_ci ?q + of_nat (Suc i)) = Some (q_ci ?q + of_nat k)"
    by blast
  moreover have "q_ci ?q + of_nat i + 1 = q_ci ?q + of_nat (Suc i)" by simp
  ultimately have k: "k \<le> ?N" "clean_scan j s (q_ci ?q + of_nat i + 1) = Some (q_ci ?q + of_nat k)" by (simp_all only:)
  have "clean_scan j s (q_ci ?q + of_nat i) = Some (q_ci ?q + of_nat i)
      \<or> clean_scan j s (q_ci ?q + of_nat i) = Some (q_ci ?q + of_nat k)"
    unfolding clean_scan.simps [of j s "q_ci ?q + of_nat i"] k(2) by (simp add: get_next_cqe_eq [OF wf])
  then show ?case using \<open>k \<le> ?N\<close> i by (metis Suc_leD)
qed

lemma clean_back_returns:
  assumes "clean_safe (q_ci q) n"
  shows "k \<le> n \<Longrightarrow> \<exists>r. clean_back q jid (q_ci q + of_nat k) m s = Some r"
proof (induction k arbitrary: m s)
  case 0
  then show ?case by (subst clean_back.simps) (simp add: int_sub_before [OF assms])
next
  case (Suc k)
  have p: "q_ci q + of_nat (Suc k) - 1 = q_ci q + of_nat k" by simp
  have "\<exists>r. clean_back q jid (q_ci q + of_nat k) m' s' = Some r" for m' s' using Suc by simp
  then show ?case unfolding clean_back.simps [of q jid "q_ci q + of_nat (Suc k)"] p
    using int_sub_offset [OF assms, of k] Suc.prems by (auto simp: Let_def)
qed

lemma clean_jfc_returns:
  assumes "jfc = NULL \<or> cq_wf (jfc_cq (jfcs s jfc)) \<and> clean_safe (q_ci (jfc_cq (jfcs s jfc))) (Suc (ring_cap (jfc_cq (jfcs s jfc))))"
  shows "\<exists>s'. cdma_u_clean_jfc jfc jid s = Some s'"
proof (cases "jfc = NULL")
  case True
  then show ?thesis by (simp add: cdma_u_clean_jfc_def)
next
  case False
  let ?q = "jfc_cq (jfcs s jfc)" let ?s = "emit (EvLock jfc) s"
  have wf: "cq_wf ?q" and safe: "clean_safe (q_ci ?q) (Suc (ring_cap ?q))" using assms False by simp_all
  have "unat (q_ci ?q) + ring_cap ?q + 1 < 2 ^ 32" using safe by (auto simp: clean_safe_def)
  from clean_scan_returns [OF wf this, of 0 ?s] obtain k where k: "k \<le> Suc (ring_cap ?q)"
    "clean_scan (jfcs s jfc) ?s (q_ci ?q) = Some (q_ci ?q + of_nat k)" by auto
  from clean_back_returns [OF safe k(1), of jid 0 ?s] k(2) show ?thesis
    using False by (auto simp: cdma_u_clean_jfc_def Let_def)
qed
section \<open>Releasing a queue ends\<close>

text \<open>
  The completion ring of the send queue, if it has one, is well-formed and its consumer index is away
  from the values where the loops of cleaning compute out of range.
\<close>

definition cleanable :: "st \<Rightarrow> ptr \<Rightarrow> bool" where
  "cleanable s jfs \<longleftrightarrow> (let jfc = jfs_cfg_jfc (jfs_cfg (jfss s jfs)); cq = jfc_cq (jfcs s jfc) in
     jfc = NULL \<or> cq_wf cq \<and> clean_safe (q_ci cq) (Suc (ring_cap cq)))"

lemma delete_jfs_returns:
  assumes v: "jfs_valid k ctx s x" and c: "cleanable s x"
  shows "\<exists>s'. cdma_u_delete_jfs E x s = Some (0, s')"
proof -
  let ?j = "jfss s x" let ?c = "jfs_cfg_jfc (jfs_cfg ?j)"
  have v': "x \<noteq> NULL" "ctx \<noteq> NULL" "jfs_dma_ctx ?j = ctx" "ctx_dev s ctx \<noteq> NULL" "0 \<le> ctx_fd s ctx"
      "ctx_page_size (ctxs s ctx) = 2 ^ k" "db_mapped k (q_db (jfs_sq ?j))"
    using v by (simp_all add: jfs_valid_def)
  from cmd_delete_jfs_spec [OF v'(3,1,2,4,5), of E] obtain t where
    t: "snd (cdma_u_cmd_delete_jfs E x s) = s\<lparr>tr := t\<rparr>" by blast
  let ?s1 = "s\<lparr>tr := t\<rparr>"
  have "?c = NULL \<or> cq_wf (jfc_cq (jfcs ?s1 ?c)) \<and> clean_safe (q_ci (jfc_cq (jfcs ?s1 ?c))) (Suc (ring_cap (jfc_cq (jfcs ?s1 ?c))))"
    using c by (simp add: cleanable_def Let_def)
  from clean_jfc_returns [OF this] obtain s2 where c2: "cdma_u_clean_jfc ?c (jfs_id ?j) ?s1 = Some s2" by blast
  let ?s2 = "if ?c \<noteq> NULL then s2 else ?s1"
  have "jfss ?s2 = jfss s" "ctxs ?s2 = ctxs s" using clean_jfc_quiet [OF c2] by (auto simp: quiet_def jfs_frame_def)
  then have m: "db_mapped k (q_db (jfs_sq (jfss ?s2 x)))" "ctx_page_size (ctxs ?s2 ctx) = 2 ^ k" using v' by simp_all
  from cdma_u_free_db_mapped [OF m] obtain d where "cdma_u_free_db ctx (q_db (jfs_sq (jfss ?s2 x))) ?s2 = Some d" by blast
  then show ?thesis using c2 v'(1-3) unfolding cdma_u_delete_jfs_def split_beta t Let_def
    by (auto split: if_splits)
qed

lemma free_queue_ends:
  assumes ok: "sys_ok E k" and w: "with_pages k ctx (s, as)" and v: "queue_valid k ctx (s, as) q"
    and r: "queue_res k ctx (s, as) q \<subseteq># db_bal (s, as)" and c: "cleanable s (que_jfs (queues s q))"
  shows "\<exists>s' as'. dma_free_queue E q s = Some s' \<and> with_pages k ctx (s', as')
     \<and> db_bal (s, as) = db_bal (s', as') + queue_res k ctx (s, as) q"
proof -
  have v': "jfs_valid k ctx s (que_jfs (queues s q))" "q \<noteq> NULL"
    using v by (simp_all add: queue_valid_def parts_valid_def)
  from delete_jfs_returns [OF v'(1) c] obtain sj where "cdma_u_delete_jfs E (que_jfs (queues s q)) s = Some (0, sj)" by blast
  from free_queue_runs [OF ok w v r this] v'(2) show ?thesis by (auto simp: dma_free_queue_def loses_def)
qed

lemma cq_wf_cap:
  assumes "cq_wf q"
  shows "ring_cap q \<le> 33554432"
proof -
  obtain c sh where g: "ring_geometry_is c sh q" "6 \<le> sh" using assms by (auto simp: cq_wf_def)
  then have "c \<le> 25" by (simp add: ring_geometry_is_def)
  then have "(2 :: nat) ^ c \<le> 2 ^ 25" by (intro power_increasing) simp_all
  then show ?thesis using ring_geometry_facts(6) [OF g(1)] by simp
qed

lemma ready_cleanable:
  assumes "ring_ready s jfs jfc n"
  shows "cleanable s jfs"
proof -
  have q: "cq_wf (jfc_cq (jfcs s jfc))" "q_ci (jfc_cq (jfcs s jfc)) = 0" "jfs_cfg_jfc (jfs_cfg (jfss s jfs)) = jfc"
    using assms by (simp_all add: ring_ready_def Let_def)
  then show ?thesis using cq_wf_cap [OF q(1)] by (simp add: cleanable_def clean_safe_def)
qed

text \<open>
  C7: releasing a queue returns: when the queue is one of the process and the completion ring of its
  send queue is well-formed, with an index that is not within one ring of 2^31 or 2^32, both loops
  of cleaning end, no step is undefined, and the balance of the process loses exactly the
  resources of the queue. (Mutexes and condition variables are not in this balance: the pair of the
  completion queue is not destroyed, see \<open>Cdma_Sync\<close>.)
\<close>

theorem free_queue_returns:
  assumes "sys_ok E k" and "with_pages k ctx (s, as)" and "queue_valid k ctx (s, as) q"
    and "queue_res k ctx (s, as) q \<subseteq># db_bal (s, as)" and "cleanable s (que_jfs (queues s q))"
  shows "\<exists>s' as'. dma_free_queue E q s = Some s' \<and> with_pages k ctx (s', as')
     \<and> db_bal (s, as) = db_bal (s', as') + queue_res k ctx (s, as) q"
  by (rule free_queue_ends [OF assms])

lemma free_queue_returns_witness:
  "\<exists>s1 s2 as2. cdma_alloc_queue room_sys 0x40 demo_queue_cfg demo_queue_st = Some (0x10000, s1)
     \<and> dma_free_queue room_sys 0x10000 s1 = Some s2 \<and> db_bal (s2, as2) = db_bal (demo_queue_st, [])"
proof -
  have c: "(0x40 :: ptr) \<noteq> NULL" and p: "(0x10000 :: ptr) \<noteq> NULL" by simp_all
  obtain s1 where run: "cdma_alloc_queue room_sys 0x40 demo_queue_cfg demo_queue_st = Some (0x10000, s1)" by (rule demo_queue_run)
  from alloc_queue_spec [OF room_sys_ok(1,2) c demo_queue_pages run] p obtain as1 where
    v: "queue_valid 12 0x40 (s1, as1) 0x10000" and g: "gains 12 0x40 (demo_queue_st, []) (queue_res 12 0x40 (s1, as1) 0x10000) (s1, as1)"
    by auto
  then have b: "with_pages 12 0x40 (s1, as1)" "db_bal (s1, as1) = db_bal (demo_queue_st, []) + queue_res 12 0x40 (s1, as1) 0x10000"
    by (simp_all add: gains_def)
  have "cleanable s1 (que_jfs (queues s1 0x10000))"
    using alloc_queue_returns [OF room_sys_ok demo_queue_pages demo_queue_sizes c] run p by (auto intro: ready_cleanable)
  with free_queue_returns [OF room_sys_ok(1) b(1) v] b(2) obtain s2 as2 where
    "dma_free_queue room_sys 0x10000 s1 = Some s2" "db_bal (s2, as2) = db_bal (demo_queue_st, [])" by auto
  with run show ?thesis by blast
qed

end
