(* ===== verification/Cdma_Flow.thy ===== *)
theory Cdma_Flow
  imports Cdma_Lib
begin

text \<open>
  What the calls of the library do together: the five data operations are instances of one
  reference operation that appends the blocks of an element to the send queue of its queue
  (\<open>data_op_posts\<close>); polling takes the completion of such a request and empties the queue again
  (\<open>op_roundtrip\<close>); waiting polls, acknowledges and arms the queue for the next event
  (\<open>wait_queue_spec\<close>).
\<close>

section \<open>The five data operations, as one\<close>

datatype data_op = Op_write | Op_read | Op_cas u64 u64 | Op_faa u64 | Op_write_notify ptr u64

fun run_op :: "ptr \<Rightarrow> ptr \<Rightarrow> ptr \<Rightarrow> data_op \<Rightarrow> st \<Rightarrow> (dma_status \<times> st) option" where
  "run_op q r l Op_write s = dma_write q r l s"
| "run_op q r l Op_read s = dma_read q r l s"
| "run_op q r l (Op_cas cmp swap) s = dma_cas q r l cmp swap s"
| "run_op q r l (Op_faa add) s = dma_faa q r l add s"
| "run_op q r l (Op_write_notify n d) s = dma_write_with_notify q r l n d s"

fun op_code :: "data_op \<Rightarrow> u32" where
  "op_code Op_write = CDMA_WR_OPC_WRITE"
| "op_code Op_read = CDMA_WR_OPC_READ"
| "op_code (Op_cas _ _) = CDMA_WR_OPC_CAS"
| "op_code (Op_faa _) = CDMA_WR_OPC_FADD"
| "op_code (Op_write_notify _ _) = CDMA_WR_OPC_WRITE_NOTIFY"

definition plain_rw :: "dma_seg \<Rightarrow> dma_seg \<Rightarrow> dma_rw_wr" where
  "plain_rw src dst = \<lparr>rw_src = one_sg (seg_sge src), rw_dst = one_sg (seg_sge dst), rw_target_hint = 0,
     rw_notify_data = 0, rw_notify_addr = 0, rw_notify_tokenid = 0, rw_notify_tokenvalue = 0\<rparr>"

text \<open>A write goes from the local segment to the remote one, a read the other way.\<close>

fun op_body :: "st \<Rightarrow> dma_seg \<Rightarrow> dma_seg \<Rightarrow> data_op \<Rightarrow> dma_wr_body" where
  "op_body s rmt local Op_write = Wr_rw (plain_rw local rmt)"
| "op_body s rmt local Op_read = Wr_rw (plain_rw rmt local)"
| "op_body s rmt local (Op_cas cmp swap) =
     Wr_cas \<lparr>cas_dst = seg_sge rmt, cas_src = seg_sge local, cas_cmp = cmp, cas_swap = swap\<rparr>"
| "op_body s rmt local (Op_faa add) = Wr_faa \<lparr>faa_dst = seg_sge rmt, faa_src = seg_sge local, faa_operand = add\<rparr>"
| "op_body s rmt local (Op_write_notify n d) = Wr_rw ((plain_rw local rmt)\<lparr>rw_notify_addr := seg_sva (segs s n),
     rw_notify_data := d, rw_notify_tokenid := seg_tid (segs s n), rw_notify_tokenvalue := seg_token_value (segs s n)\<rparr>)"

definition op_request :: "st \<Rightarrow> ptr \<Rightarrow> ptr \<Rightarrow> ptr \<Rightarrow> data_op \<Rightarrow> dma_jfs_wr" where
  "op_request s q r l op = (let v = queues s q in
     \<lparr>wr_opcode = op_code op,
      wr_flag = \<lparr>fl_place_order = 0, fl_comp_order = 0, fl_fence = 0, fl_solicited_enable = 0,
        fl_complete_enable = 1, fl_inline_flag = 0\<rparr>,
      wr_user_ctx = qcfg_user_ctx (que_cfg v), wr_tpn = (if que_tp v = NULL then 0 else tp_tpn (tps s (que_tp v))),
      wr_rmt_eid = dw0 (qcfg_rmt_eid (que_cfg v)), wr_body = op_body s (segs s r) (segs s l) op\<rparr>)"

definition seg_usable :: "dma_seg \<Rightarrow> bool" where
  "seg_usable v \<longleftrightarrow> seg_len v \<noteq> 0 \<and> seg_sva v \<noteq> 0"

definition op_args_ok :: "st \<Rightarrow> ptr \<Rightarrow> ptr \<Rightarrow> ptr \<Rightarrow> data_op \<Rightarrow> bool" where
  "op_args_ok s q r l op \<longleftrightarrow> q \<noteq> NULL \<and> r \<noteq> NULL \<and> l \<noteq> NULL \<and> seg_usable (segs s r) \<and> seg_usable (segs s l)
     \<and> (case op of Op_write_notify n d \<Rightarrow> n \<noteq> NULL \<and> seg_usable (segs s n) | _ \<Rightarrow> True)"

lemma run_op_request:
  "run_op q r l op s = (if op_args_ok s q r l op then post_to_queue q (op_request s q r l op) s else Some (DMA_STATUS_INVAL, s))"
  by (cases op)
    (auto simp: dma_write_def dma_read_def dma_cas_def dma_faa_def dma_write_with_notify_def cdma_write_def cdma_read_def
      cdma_cas_def cdma_faa_def cdma_rw_check_def op_args_ok_def seg_usable_def op_request_def plain_rw_def zero_rw_def
      new_wr_def zero_flag_def cdma_fill_comm_wr_def cdma_fill_sge_def one_sg_def Let_def)

text \<open>One entry on each side: the element fits the temporary buffer.\<close>

lemma op_request_sel [simp]:
  "wr_opcode (op_request s q r l op) = op_code op" "wr_body (op_request s q r l op) = op_body s (segs s r) (segs s l) op"
  by (simp_all add: op_request_def Let_def)

lemma one_sg_sel [simp]: "sg_entries (one_sg g) = Some [g]" "sg_first (one_sg g) = Some g" "sg_num_sge (one_sg g) = 1"
  by (simp_all add: sg_entries_def sg_first_def one_sg_def)

lemma length_sges_one: "length (sges [g]) \<le> 1"
  by (simp add: sges_def)

lemma set_sqe_op:
  "\<exists>r t. cdma_set_sqe m (replicate 64 0) sq (op_request s q x l op) opcode = Some (r, t)"
proof (cases op)
  case Op_write
  then show ?thesis using sqe_write [of "op_request s q x l op" _ "[seg_sge (segs s l)]" "seg_sge (segs s x)" m sq opcode]
      length_sges_one [of "seg_sge (segs s l)"] by (fastforce simp: plain_rw_def sge_base_def)
next
  case (Op_write_notify n d)
  then show ?thesis using sqe_write [of "op_request s q x l op" _ "[seg_sge (segs s l)]" "seg_sge (segs s x)" m sq opcode]
      length_sges_one [of "seg_sge (segs s l)"] by (fastforce simp: plain_rw_def sge_base_def)
next
  case Op_read
  then show ?thesis using sqe_read [of "op_request s q x l op" _ "[seg_sge (segs s l)]" "seg_sge (segs s x)" m sq opcode]
      length_sges_one [of "seg_sge (segs s l)"] by (fastforce simp: plain_rw_def)
next
  case (Op_cas c w)
  then show ?thesis using sqe_cas [of "op_request s q x l op" _ m sq opcode] by (fastforce split: if_splits)
next
  case (Op_faa a)
  then show ?thesis using sqe_faa [of "op_request s q x l op" _ m sq opcode] by (fastforce split: if_splits)
qed

lemma encode_op:
  obtains e where "wr_encode m sq (op_request s q r l op) = Some e"
proof -
  let ?wr = "op_request s q r l op" let ?op = "cdma_parse_jfs_opcode (op_code op)"
  have "?op \<noteq> CDMA_OPCODE_INVALID \<and> cdma_check_sge_num ?op sq ?wr = Some (q_max_sge_num sq = 0)"
    by (cases op) (auto simp: cdma_check_sge_num_def cdma_parse_jfs_opcode_def wr_rw_def plain_rw_def word_less_nat_alt unat_eq_0)
  moreover obtain ret t where "cdma_set_sqe m (replicate 64 0) sq ?wr ?op = Some (ret, t)" using set_sqe_op by blast
  ultimately show ?thesis using that by (cases "q_max_sge_num sq = 0") (auto simp: wr_encode_def)
qed

text \<open>
  What an operation should do to the send queue: the blocks it adds, when its arguments are usable,
  its element can be built and there is room.
\<close>

definition sq_of :: "st \<Rightarrow> ptr \<Rightarrow> cdma_u_jetty_queue" where
  "sq_of s q = jfs_sq (jfss s (que_jfs (queues s q)))"

definition op_blocks :: "st \<Rightarrow> ptr \<Rightarrow> ptr \<Rightarrow> ptr \<Rightarrow> data_op \<Rightarrow> u32 list list option" where
  "op_blocks s q r l op =
     (if \<not> op_args_ok s q r l op then None
      else (case wr_encode (umem s) (sq_of s q) (op_request s q r l op) of
          Some (Inr bs) \<Rightarrow>
            if unat (q_pi (sq_of s q) - q_ci (sq_of s q)) + length bs \<le> ring_cap (sq_of s q) then Some bs else None
        | _ \<Rightarrow> None))"

lemma data_op_spec:
  assumes "sq_wf (sq_of s q)"
  shows "case op_blocks s q r l op of
      None \<Rightarrow> \<exists>t. run_op q r l op s = Some (DMA_STATUS_INVAL, s\<lparr>tr := t @ tr s\<rparr>)
        \<and> t \<in> {[], [EvUnlock (que_jfs (queues s q)), EvLock (que_jfs (queues s q))]}
    | Some bs \<Rightarrow> \<exists>s'. run_op q r l op s = Some (DMA_STATUS_OK, s') \<and>
        (let sq = sq_of s q; sq' = sq_of s' q; ctx = jfs_dma_ctx (jfss s (que_jfs (queues s q))) in
          sq_wf sq' \<and> q_ci sq' = q_ci sq \<and> sq_blocks s' sq' = blocks_after ctx s 1 (sq_blocks s sq @ bs) (q_pi sq')
          \<and> sq_user_ctxs s' sq' = sq_user_ctxs s sq @ replicate (length bs) (qcfg_user_ctx (que_cfg (queues s q)))
          \<and> unat (q_pi sq' - q_ci sq) = unat (q_pi sq - q_ci sq) + length bs \<and> queues s' = queues s \<and> jfcs s' = jfcs s)"
proof -
  let ?j = "que_jfs (queues s q)" let ?wr = "op_request s q r l op"
  have wf: "sq_wf (jfs_sq (jfss s ?j))" using assms by (simp add: sq_of_def)
  show ?thesis
  proof (cases "op_args_ok s q r l op")
    case False
    then show ?thesis by (auto simp: run_op_request op_blocks_def intro: exI [of _ "[]"])
  next
    case args: True
    obtain e where e: "wr_encode (umem s) (jfs_sq (jfss s ?j)) ?wr = Some e" by (rule encode_op)
    show ?thesis
    proof (cases "op_blocks s q r l op")
      case None
      have "check_sq_overflow (jfs_sq (jfss s ?j)) (of_nat (length bs))" if "e = Inr bs" for bs
        using None args e that length_encoded [OF e [unfolded that]] check_sq_overflow_iff [OF wf, of bs]
        by (simp add: op_blocks_def sq_of_def split: if_splits)
      from post_refused [OF wf e this refl] obtain err where
        "cdma_u_post_jfs_wr ?j [?wr] s = Some (err, Some ?wr, s\<lparr>tr := EvUnlock ?j # EvLock ?j # tr s\<rparr>)" "err \<noteq> 0" by blast
      then show ?thesis using args None
        by (auto simp: run_op_request post_to_queue_def intro: exI [of _ "[EvUnlock ?j, EvLock ?j]"])
    next
      case (Some bs)
      have eb: "e = Inr bs" and room: "unat (q_pi (jfs_sq (jfss s ?j)) - q_ci (jfs_sq (jfss s ?j))) + length bs \<le> ring_cap (jfs_sq (jfss s ?j))"
        using Some args e by (auto simp: op_blocks_def sq_of_def split: sum.splits if_splits)
      have len: "length bs \<le> 4" using length_encoded [OF e [unfolded eb]] by simp
      have "\<not> check_sq_overflow (jfs_sq (jfss s ?j)) (of_nat (length bs))" using check_sq_overflow_iff [OF wf len] room by simp
      then have "wr_stream (umem s) (jfs_sq (jfss s ?j)) [?wr] = Some (bs, replicate (length bs) (wr_user_ctx ?wr), 0, None, 1)"
        using e eb by simp
      from post_jfs_spec [OF wf this] obtain s' where
        p: "cdma_u_post_jfs_wr ?j [?wr] s = Some (0, None, s')"
        and post: "let sq = jfs_sq (jfss s ?j); sq' = jfs_sq (jfss s' ?j); ctx = jfs_dma_ctx (jfss s ?j); all = sq_blocks s sq @ bs in
            sq_wf sq' \<and> q_ci sq' = q_ci sq \<and> sq_blocks s' sq' = blocks_after ctx s 1 all (q_pi sq')
            \<and> sq_user_ctxs s' sq' = sq_user_ctxs s sq @ replicate (length bs) (wr_user_ctx ?wr)
            \<and> unat (q_pi sq' - q_ci sq) = unat (q_pi sq - q_ci sq) + length bs"
        and fr: "s' = s\<lparr>wqebbs := wqebbs s', wrids := wrids s', tr := tr s',
                jfss := (jfss s)(?j := (jfss s ?j)\<lparr>jfs_sq := jfs_sq (jfss s' ?j)\<rparr>)\<rparr>" by (auto simp: Let_def)
      have q: "queues s' = queues s" "jfcs s' = jfcs s" by (subst fr, simp)+
      then have "sq_of s' q = jfs_sq (jfss s' ?j)" by (simp add: sq_of_def)
      moreover have "wr_user_ctx ?wr = qcfg_user_ctx (que_cfg (queues s q))" by (simp add: op_request_def Let_def)
      moreover have "run_op q r l op s = Some (DMA_STATUS_OK, s')" using args p by (simp add: run_op_request post_to_queue_def)
      ultimately show ?thesis using post q unfolding Some option.case Let_def sq_of_def [of s] by auto
    qed
  qed
qed

text \<open>
  C10: the five data operations are one: each builds the work request of its kind (a write and a
  notified write from the local to the remote segment, a read the other way, an atomic with both),
  for the peer and the user context of its queue, asking for a completion. The blocks of the
  element are appended to the send queue, which keeps its invariant, with the user context for
  each of them. If an argument is unusable, the element cannot be built or there is no room, the
  status is \<open>DMA_STATUS_INVAL\<close> and the state is as before, but for the lock taken and released.
\<close>

theorem data_op_posts:
  assumes "sq_wf (sq_of s q)"
  shows "case op_blocks s q r l op of
      None \<Rightarrow> \<exists>t. run_op q r l op s = Some (DMA_STATUS_INVAL, s\<lparr>tr := t @ tr s\<rparr>)
        \<and> t \<in> {[], [EvUnlock (que_jfs (queues s q)), EvLock (que_jfs (queues s q))]}
    | Some bs \<Rightarrow> \<exists>s'. run_op q r l op s = Some (DMA_STATUS_OK, s') \<and>
        (let sq = sq_of s q; sq' = sq_of s' q; ctx = jfs_dma_ctx (jfss s (que_jfs (queues s q))) in
          sq_wf sq' \<and> q_ci sq' = q_ci sq \<and> sq_blocks s' sq' = blocks_after ctx s 1 (sq_blocks s sq @ bs) (q_pi sq')
          \<and> sq_user_ctxs s' sq' = sq_user_ctxs s sq @ replicate (length bs) (qcfg_user_ctx (que_cfg (queues s q))))"
  using data_op_spec [OF assms, of r l op] by (auto simp: Let_def split: option.splits)

text \<open>A queue over the empty send queue of \<open>Cdma_Post\<close>, with a local and a remote segment.\<close>

definition demo_op_st :: st where
  "demo_op_st = demo_post_st\<lparr>queues := (\<lambda>_. zero_queue)(0x80 := zero_queue\<lparr>que_jfs := 0x200\<rparr>),
     segs := (\<lambda>_. zero_seg)(0x90 := zero_seg\<lparr>seg_sva := 0x10000, seg_len := 64\<rparr>,
       0xa0 := zero_seg\<lparr>seg_sva := 0x20000, seg_len := 64\<rparr>)\<rparr>"

lemma data_op_posts_witness:
  "\<exists>s1 s2. run_op 0x80 0x90 0xa0 Op_write demo_op_st = Some (DMA_STATUS_OK, s1)
     \<and> length (sq_blocks s1 (sq_of s1 0x80)) = 1
     \<and> run_op 0x80 0x90 0xb0 (Op_cas 1 2) demo_op_st = Some (DMA_STATUS_INVAL, s2)"
proof -
  have "jfs_sq (jfss demo_post_st 0x200) = sq_of demo_op_st 0x80" by (simp add: sq_of_def demo_op_st_def)
  with demo_sq_wf have wf: "sq_wf (sq_of demo_op_st 0x80)" by simp
  have "map_option length (op_blocks demo_op_st 0x80 0x90 0xa0 Op_write) = Some 1"
      "op_blocks demo_op_st 0x80 0x90 0xb0 (Op_cas 1 2) = None" "sq_blocks demo_op_st (sq_of demo_op_st 0x80) = []" by code_simp+
  then show ?thesis
    using data_op_posts [OF wf, of "0x90" "0xa0" Op_write] data_op_posts [OF wf, of "0x90" "0xb0" "Op_cas 1 2"]
    by (fastforce simp: Let_def blocks_after_def)
qed

text \<open>
  A segment's length has 64 bits, an entry's 32: a local segment of four gigabytes passes the checks,
  and the write is accepted and posted with no entry at all.
\<close>

lemma write_len_truncated:
  "map_option (\<lambda>(status, s'). (status, List.map (ctl_get F_sge_num) (sq_blocks s' (sq_of s' 0x80))))
     (dma_write 0x80 0x90 0xa0 (demo_op_st\<lparr>segs := (segs demo_op_st)(0xa0 := zero_seg\<lparr>seg_sva := 0x20000, seg_len := 0x100000000\<rparr>)\<rparr>))
   = Some (DMA_STATUS_OK, [0])"
  by code_simp

section \<open>From a request to its completion\<close>

lemma poll_one_record:
  assumes j: "jfc \<noteq> NULL" and one: "cdma_u_poll_one jfc cr (emit (EvLock jfc) s) = Some (JFC_OK, cr', s')"
  shows "cdma_u_poll_jfc jfc 1 (cr # crs) s = Some (1, cr' # crs, emit (EvUnlock jfc) (write_sw_db jfc s'))"
  using assms by (simp add: poll_jfc_result_eq)

lemma write_sw_db_sel [simp]:
  "jfss (write_sw_db jfc s) = jfss s" "queues (write_sw_db jfc s) = queues s" "wqebbs (write_sw_db jfc s) = wqebbs s"
  "wrids (write_sw_db jfc s) = wrids s"
  by (simp_all add: write_sw_db_def)

lemma poll_one_frame: "cdma_u_poll_one jfc cr s = Some (r, cr', s') \<Longrightarrow> queues s' = queues s \<and> ctxs s' = ctxs s"
  by (auto simp: cdma_u_poll_one_def cdma_parse_cqe_for_jfc_def cdma_u_update_jetty_idx_def cdma_u_update_flush_cr_def
      set_sq_def Let_def bind_eq_Some_conv split: if_splits prod.splits)

text \<open>
  C3: a request comes back. After a data operation was accepted, let the device write the entry that
  completes its element: the next one of the queue's completion ring, for the queue's send queue,
  with the index of the last block posted. Then polling for one record returns one, with the
  user context of the queue and the status the device reported, and the send queue is empty again,
  with its invariant, so every block can be posted anew.
\<close>

theorem op_roundtrip:
  assumes wf: "sq_wf (sq_of s q)" and op: "op_blocks s q r l op = Some bs" and run: "run_op q r l op s = Some (DMA_STATUS_OK, s1)"
    and jfc: "jfc = que_jfc (queues s q)" "jfc \<noteq> NULL" "cq_wf (jfc_cq (jfcs s jfc))"
    and dev: "s2 = s1\<lparr>cqes := m\<rparr>" "cqe_new s2 (jfc_cq (jfcs s jfc)) (q_ci (jfc_cq (jfcs s jfc)))"
    and e: "e = cqe_at s2 (jfc_cq (jfcs s jfc)) (q_ci (jfc_cq (jfcs s jfc)))" "cqe_good e" "cqe_queue e = que_jfs (queues s q) + 72"
    and idx: "unat (cqe_entry_idx e) = unat (q_pi (sq_of s1 q) - 1) mod ring_cap (sq_of s1 q)"
  shows "\<exists>cr' s3. dma_poll_queue q 1 (Some (cr # crs)) s2 = Some (1, Some (cr' # crs), s3)
     \<and> cr_user_ctx cr' = qcfg_user_ctx (que_cfg (queues s q)) \<and> cr_status cr' = cqe_cr_status e
     \<and> sq_wf (sq_of s3 q) \<and> q_pi (sq_of s3 q) = q_pi (sq_of s1 q) \<and> sq_blocks s3 (sq_of s3 q) = []"
proof -
  let ?sq = "sq_of s1 q" let ?n = "unat (q_pi ?sq - q_ci ?sq)" let ?s = "emit (EvLock jfc) s2"
  have q0: "q \<noteq> NULL" using op by (auto simp: op_blocks_def op_args_ok_def split: if_splits)
  have p: "sq_wf ?sq" "q_ci ?sq = q_ci (sq_of s q)" "?n = unat (q_pi (sq_of s q) - q_ci (sq_of s q)) + length bs"
      "sq_user_ctxs s1 ?sq = sq_user_ctxs s (sq_of s q) @ replicate (length bs) (qcfg_user_ctx (que_cfg (queues s q)))"
      "queues s1 = queues s" "jfcs s1 = jfcs s"
    using data_op_spec [OF wf, of r l op] run op by (auto simp: Let_def)
  have "0 < length bs" using op length_encoded by (fastforce simp: op_blocks_def split: if_splits option.splits sum.splits)
  then have n: "0 < ?n" using p(3) by simp
  let ?j = "?n - 1"
  have j: "?j < ?n" using n by simp
  have "of_nat ?n = q_pi ?sq - q_ci ?sq" by simp
  then have "q_ci ?sq + of_nat ?j = q_pi ?sq - 1" using n by (simp add: of_nat_diff)
  then have idx': "unat (cqe_entry_idx e) = unat (q_ci ?sq + of_nat ?j) mod ring_cap ?sq" using idx by simp
  have s2: "jfcs ?s = jfcs s" "queues s2 = queues s" "jfss s2 = jfss s1" "wrids s2 = wrids s1" using p dev(1) by simp_all
  have cq: "cq_wf (jfc_cq (jfcs ?s jfc))" "cqe_new ?s (jfc_cq (jfcs ?s jfc)) (q_ci (jfc_cq (jfcs ?s jfc)))"
      "e = cqe_at ?s (jfc_cq (jfcs ?s jfc)) (q_ci (jfc_cq (jfcs ?s jfc)))"
    unfolding s2(1) using jfc dev e by simp_all
  have sq: "?sq = sq_at ?s (cqe_queue e)" using s2 p(5) by (simp add: sq_at_def e(3) sq_of_def)
  have at: "sq_at t (cqe_queue e) = jfs_sq (jfss t (que_jfs (queues s q)))" for t by (simp add: sq_at_def e(3))
  have one: "\<exists>cr' s'. cdma_u_poll_one jfc cr ?s = Some (JFC_OK, cr', s')
     \<and> cr_user_ctx cr' = sq_user_ctxs ?s ?sq ! ?j \<and> cr_status cr' = cqe_cr_status e \<and> cr_completion_len cr' = cqe_byte_cnt e
     \<and> (let sq' = sq_at s' (cqe_queue e) in sq_wf sq' \<and> q_pi sq' = q_pi ?sq
          \<and> sq_blocks s' sq' = drop (Suc ?j) (sq_blocks ?s ?sq) \<and> sq_user_ctxs s' sq' = drop (Suc ?j) (sq_user_ctxs ?s ?sq))
     \<and> q_ci (jfc_cq (jfcs s' jfc)) = q_ci (jfc_cq (jfcs ?s jfc)) + 1"
    by (rule poll_one_completes_spec [OF cq e(2) sq p(1) j idx'])
  have len: "length (sq_user_ctxs s (sq_of s q)) = unat (q_pi (sq_of s q) - q_ci (sq_of s q))" by (simp add: sq_user_ctxs_def)
  have "sq_user_ctxs ?s ?sq = sq_user_ctxs s1 ?sq" using s2(4) by (simp add: sq_user_ctxs_def)
  moreover have "\<not> ?j < unat (q_pi (sq_of s q) - q_ci (sq_of s q))" "?j - unat (q_pi (sq_of s q) - q_ci (sq_of s q)) < length bs"
    using p(3) \<open>0 < length bs\<close> by linarith+
  ultimately have u: "sq_user_ctxs ?s ?sq ! ?j = qcfg_user_ctx (que_cfg (queues s q))"
    unfolding p(4) by (simp only: nth_append len if_False nth_replicate)
  have "Suc ?j = length (sq_blocks ?s ?sq)" using n by (simp add: sq_blocks_def)
  then have d: "drop (Suc ?j) (sq_blocks ?s ?sq) = []" by simp
  from one obtain cr' s' where o: "cdma_u_poll_one jfc cr ?s = Some (JFC_OK, cr', s')"
    "cr_user_ctx cr' = qcfg_user_ctx (que_cfg (queues s q))" "cr_status cr' = cqe_cr_status e"
    and sq': "sq_wf (jfs_sq (jfss s' (que_jfs (queues s q))))" "q_pi (jfs_sq (jfss s' (que_jfs (queues s q)))) = q_pi ?sq"
      "sq_blocks s' (jfs_sq (jfss s' (que_jfs (queues s q)))) = []"
    unfolding Let_def u d at by (elim exE conjE) (rule that; assumption)
  have qs: "queues s' = queues s" using poll_one_frame [OF o(1)] s2(2) by simp
  let ?s3 = "emit (EvUnlock jfc) (write_sw_db jfc s')"
  have "dma_poll_queue q 1 (Some (cr # crs)) s2 = Some (1, Some (cr' # crs), ?s3)"
    using poll_one_record [OF jfc(2) o(1), of crs] q0 s2(2) jfc(1) by (simp add: dma_poll_queue_def cdma_poll_queue_def)
  moreover have "sq_of ?s3 q = jfs_sq (jfss s' (que_jfs (queues s q)))" using qs by (simp add: sq_of_def)
  moreover have "sq_blocks ?s3 x = sq_blocks s' x" for x by (simp add: sq_blocks_def)
  ultimately show ?thesis using o(2,3) sq' by (intro exI [of _ cr'] exI [of _ ?s3]) simp
qed

lemma wait_jfc_eq:
  assumes "jfce \<noteq> NULL" and "0 \<le> jfce_fd (jfces s jfce)" and "cnt \<noteq> 0"
    and "e_ioctl E (tr s) (jfce_fd (jfces s jfce)) (CDMA_CMD_WAIT_JFC cnt timeout) = (ret, out)"
  shows "cdma_u_wait_jfc E jfce cnt timeout s = (if ret \<noteq> 0 then - EFAULT else sint (out_event_cnt out),
     emit (EvIoctl (jfce_fd (jfces s jfce)) (CDMA_CMD_WAIT_JFC cnt timeout) ret out) s)"
  using assms by (simp add: cdma_u_wait_jfc_def cdma_cmd_wait_jfc_def sys_ioctl_def Let_def)

lemma poll_loop_frame:
  "poll_loop jfc k n crs s = Some (r, m, crs', s') \<Longrightarrow> queues s' = queues s \<and> ctxs s' = ctxs s"
proof (induction k arbitrary: n crs s)
  case (Suc k)
  then obtain ret cr s1 where one: "cdma_u_poll_one jfc (crs ! n) s = Some (ret, cr, s1)"
    and "(if ret \<noteq> JFC_OK then Some (ret, n, crs[n := cr], s1) else poll_loop jfc k (Suc n) (crs[n := cr]) s1) = Some (r, m, crs', s')"
    by (auto simp: bind_eq_Some_conv simp del: not_None_eq split: if_split_asm)
  then show ?case using Suc.IH [of "Suc n" "crs[n := cr]" s1] poll_one_frame [OF one] by (auto split: if_split_asm)
qed simp

lemma poll_jfc_frame:
  assumes "cdma_u_poll_jfc jfc cnt crs s = Some (r, crs', s')"
  shows "queues s' = queues s \<and> ctxs s' = ctxs s"
proof (cases "jfc = NULL")
  case True
  then show ?thesis using assms by (simp add: cdma_u_poll_jfc_def)
next
  case False
  then obtain ret n crs2 s1 where "poll_loop jfc (unat cnt) 0 crs (emit (EvLock jfc) s) = Some (ret, n, crs2, s1)"
      "s' = emit (EvUnlock jfc) (if n \<noteq> 0 then write_sw_db jfc s1 else s1)"
    using assms by (auto simp: poll_jfc_result_eq bind_eq_Some_conv)
  then show ?thesis using poll_loop_frame by (fastforce simp: write_sw_db_def)
qed

text \<open>
  C12: waiting for completions, as the code does it. If the wait of the kernel fails, or reports a negative count, the call
  fails with \<open>-EFAULT\<close> and touches neither the records nor the queue. Otherwise it polls, even
  after a timeout: the new entries are returned in order, and if there are some, the call counts
  them as acknowledged and ends with the doorbell that arms the queue for the next event, with
  the new consumer index and a new sequence number. The result is then their number, which may be
  more than one; if there are none it is \<open>-EFAULT\<close>, never 0. This is not what \<open>doc/CDMA_API.md\<close>
  says of \<open>dma_wait_queue\<close> (0 on 0 events, 1 on 1 event, others on failure): the code and its
  documentation agree on one completion only.
\<close>

theorem wait_queue_spec:
  assumes q: "queue \<noteq> NULL" "qcfg_event_mode (que_cfg (queues s queue))" "cnt \<noteq> 0"
    and e: "que_jfce (queues s queue) \<noteq> NULL" "fd = jfce_fd (jfces s (que_jfce (queues s queue)))" "0 \<le> fd"
    and jfc: "jfc = que_jfc (queues s queue)" "jfc \<noteq> NULL" "jfc_dma_ctx (jfcs s jfc) \<noteq> NULL" "cq_wf (jfc_cq (jfcs s jfc))"
    and es: "cq_new s jfc es" "list_all cqe_good es" "length es \<le> unat cnt" "unat cnt \<le> length crs"
      "length es = unat cnt \<or> \<not> cqe_new s (jfc_cq (jfcs s jfc)) (q_ci (jfc_cq (jfcs s jfc)) + of_nat (length es))"
    and ans: "e_ioctl E (tr s) fd (CDMA_CMD_WAIT_JFC cnt timeout) = (ret, out)"
  shows "\<exists>crs' s'. dma_wait_queue E queue cnt timeout (Some crs) s
       = Some (if ret \<noteq> 0 \<or> sint (out_event_cnt out) < 0 \<or> es = [] then - EFAULT else int (length es), Some crs', s')
     \<and> (if ret \<noteq> 0 \<or> sint (out_event_cnt out) < 0 then crs' = crs \<and> jfcs s' = jfcs s
        else poll_records es crs' \<and> drop (length es) crs' = drop (length es) crs
          \<and> (es \<noteq> [] \<longrightarrow> jfcs s' jfc = (jfcs s jfc)\<lparr>jfc_cq := (jfc_cq (jfcs s jfc))\<lparr>q_ci := q_ci (jfc_cq (jfcs s jfc)) + of_nat (length es)\<rparr>,
                 arm_sn := arm_sn (jfcs s jfc) + 1, comp_events_acked := comp_events_acked (jfcs s jfc) + of_nat (length es)\<rparr>
             \<and> (\<exists>stack. hd (tr s') = EvMmio64 (db_addr (ctx_db (ctxs s (jfc_dma_ctx (jfcs s jfc)))) + CDMA_JFC_HW_DB_OFFSET)
                  (jfc_db_value stack (jfcs s' jfc) False))))"
proof -
  let ?s1 = "emit (EvIoctl fd (CDMA_CMD_WAIT_JFC cnt timeout) ret out) s"
  let ?bad = "ret \<noteq> 0 \<or> sint (out_event_cnt out) < 0"
  have w: "cdma_u_wait_jfc E (que_jfce (queues s queue)) cnt timeout s = (if ret \<noteq> 0 then - EFAULT else sint (out_event_cnt out), ?s1)"
    using wait_jfc_eq [of "que_jfce (queues s queue)" s cnt E timeout ret out] e q(3) ans by simp
  show ?thesis
  proof (cases ?bad)
    case True
    then have "dma_wait_queue E queue cnt timeout (Some crs) s = Some (- EFAULT, Some crs, ?s1)"
      using q w by (auto simp: dma_wait_queue_def cdma_wait_queue_def)
    then show ?thesis using True by (intro exI [of _ crs] exI [of _ ?s1]) simp
  next
    case False
    have "cq_wf (jfc_cq (jfcs ?s1 jfc))" "cq_new ?s1 jfc es" using jfc(4) es(1) by simp_all
    from poll_jfc_new_spec [OF jfc(2) this es(2-4)] es(5) obtain crs' s2 where
      p: "cdma_u_poll_jfc jfc cnt crs ?s1 = Some (int (length es), crs', s2)" "poll_records es crs'"
        "drop (length es) crs' = drop (length es) crs"
        "jfcs s2 jfc = (jfcs s jfc)\<lparr>jfc_cq := (jfc_cq (jfcs s jfc))\<lparr>q_ci := q_ci (jfc_cq (jfcs s jfc)) + of_nat (length es)\<rparr>\<rparr>" by auto
    have f: "queues s2 = queues s" "ctxs s2 = ctxs s" using poll_jfc_frame [OF p(1)] by simp_all
    show ?thesis
    proof (cases "es = []")
      case True
      then have "dma_wait_queue E queue cnt timeout (Some crs) s = Some (- EFAULT, Some crs', s2)"
        using q w False p(1) jfc(1) by (simp add: dma_wait_queue_def cdma_wait_queue_def)
      then show ?thesis using True False p by (intro exI [of _ crs'] exI [of _ s2]) simp
    next
      case ne: False
      let ?s3 = "cdma_u_ack_jfc jfc (word_of_int (int (length es))) s2"
      have a: "jfcs ?s3 jfc = (jfcs s jfc)\<lparr>jfc_cq := (jfc_cq (jfcs s jfc))\<lparr>q_ci := q_ci (jfc_cq (jfcs s jfc)) + of_nat (length es)\<rparr>,
          arm_sn := arm_sn (jfcs s jfc) + 1, comp_events_acked := comp_events_acked (jfcs s jfc) + of_nat (length es)\<rparr>"
        "queues ?s3 = queues s" "ctxs ?s3 = ctxs s"
        using jfc(2) p(4) f by (simp_all add: cdma_u_ack_jfc_def cdma_ack_comp_event_def Let_def)
      let ?ev = "EvMmio64 (db_addr (ctx_db (ctxs s (jfc_dma_ctx (jfcs s jfc)))) + CDMA_JFC_HW_DB_OFFSET)
          (jfc_db_value (e_stack E (tr ?s3)) (jfcs ?s3 jfc) False)"
      have r: "cdma_u_rearm_jfc E jfc False ?s3 = (DMA_STATUS_OK, emit ?ev ?s3)"
        using jfc(2,3) a by (simp add: cdma_u_rearm_jfc_def Let_def)
      have "0 < int (length es)" using ne by simp
      then have "dma_wait_queue E queue cnt timeout (Some crs) s = Some (int (length es), Some crs', emit ?ev ?s3)"
        using q w False p(1) jfc(1) f a r by (simp add: dma_wait_queue_def cdma_wait_queue_def Let_def)
      then show ?thesis using ne False p(2,3) a(1) by (intro exI [of _ crs'] exI [of _ "emit ?ev ?s3"]) (simp, rule exI, rule refl)
    qed
  qed
qed

text \<open>
  An asynchronous wait that \<open>poll\<close> wakes with neither \<open>POLLIN\<close> nor \<open>POLLERR\<close> (a hang-up) reports one
  event although it has read none.
\<close>

lemma wait_ae_hangup:
  assumes "ctx \<noteq> NULL" and "0 \<le> aeqe_duration a" "aeqe_duration a \<le> EVENT_WAIT_TIME"
    and "e_poll E (tr s) (ctx_async_fd (ctxs s ctx)) (aeqe_duration a) = (ret, False, False)" and "0 < ret"
  shows "\<exists>s'. dma_wait_ae E ctx (Some a) s = (1, Some a, s')"
  using assms by (simp add: dma_wait_ae_def cdma_wait_ae_def cdma_cmd_get_async_event_def sys_poll_def Let_def)

text \<open>The same queue with a completion ring in which the device will report block 6.\<close>

definition demo_flow_st :: st where
  "demo_flow_st = demo_op_st\<lparr>jfcs := jfcs demo_cq_st,
     queues := (\<lambda>_. zero_queue)(0x80 := zero_queue\<lparr>que_jfs := 0x200, que_jfc := 0x800, que_jfce := 0x900,
       que_cfg := zero_queue_cfg\<lparr>qcfg_user_ctx := 0x55, qcfg_event_mode := True\<rparr>\<rparr>),
     jfces := (\<lambda>_. zero_jfce)(0x900 := zero_jfce\<lparr>jfce_fd := 11\<rparr>)\<rparr>"

lemma op_roundtrip_witness:
  "\<exists>s1 cr' s3. run_op 0x80 0x90 0xa0 Op_write demo_flow_st = Some (DMA_STATUS_OK, s1)
     \<and> dma_poll_queue 0x80 1 (Some [demo_cr]) (s1\<lparr>cqes := cqes demo_cq_st\<rparr>) = Some (1, Some [cr'], s3)
     \<and> cr_user_ctx cr' = 0x55 \<and> cr_status cr' = DMA_CR_SUCCESS \<and> sq_blocks s3 (sq_of s3 0x80) = []"
proof -
  let ?s = demo_flow_st let ?s1 = "snd (the (run_op 0x80 0x90 0xa0 Op_write ?s))" let ?e = "demo_cqe 1 6 0"
  have "sq_of demo_flow_st 0x80 = jfs_sq (jfss demo_post_st 0x200)" by (simp add: sq_of_def demo_flow_st_def demo_op_st_def)
  then have wf: "sq_wf (sq_of ?s 0x80)" using demo_sq_wf by simp
  have "map_option length (op_blocks ?s 0x80 0x90 0xa0 Op_write) = Some 1" by code_simp
  then obtain bs where bs: "op_blocks ?s 0x80 0x90 0xa0 Op_write = Some bs" by auto
  have run: "run_op 0x80 0x90 0xa0 Op_write ?s = Some (DMA_STATUS_OK, ?s1)"
    using data_op_spec [OF wf, of "0x90" "0xa0" Op_write] bs by fastforce
  have c: "que_jfc (queues ?s 0x80) = 0x800" "que_jfs (queues ?s 0x80) + 72 = 0x248" "jfcs ?s = jfcs demo_cq_st"
      "qcfg_user_ctx (que_cfg (queues ?s 0x80)) = 0x55"
    by (simp_all add: demo_flow_st_def)
  have cq: "cq_wf (jfc_cq (jfcs ?s 0x800))" unfolding c(3) by (rule demo_cq_wf)
  have n: "cqe_new (t\<lparr>cqes := cqes demo_cq_st\<rparr>) = cqe_new demo_cq_st" "cqe_at (t\<lparr>cqes := cqes demo_cq_st\<rparr>) = cqe_at demo_cq_st" for t :: st
    by (simp_all add: fun_eq_iff cqe_new_def cqe_at_def)
  have d: "cqe_new demo_cq_st (jfc_cq (jfcs demo_cq_st 0x800)) (q_ci (jfc_cq (jfcs demo_cq_st 0x800)))"
    "cqe_at demo_cq_st (jfc_cq (jfcs demo_cq_st 0x800)) (q_ci (jfc_cq (jfcs demo_cq_st 0x800))) = ?e"
    "cqe_good ?e" "cqe_queue ?e = 0x248" "cqe_cr_status ?e = DMA_CR_SUCCESS" by code_simp+
  have i: "cqe_entry_idx ?e = 6" "q_pi (sq_of ?s1 0x80) = 0xffffffff" "baseblk_cnt (sq_of ?s1 0x80) = 8" by code_simp+
  have "unat (cqe_entry_idx ?e) = unat (q_pi (sq_of ?s1 0x80) - 1) mod ring_cap (sq_of ?s1 0x80)"
    unfolding i ring_cap_def by simp
  from op_roundtrip [where m = "cqes demo_cq_st", OF wf bs run c(1) [symmetric] _ cq refl, unfolded n c(2-4), OF _ d(1) d(2) [symmetric] d(3,4) this, of demo_cr "[]"]
  show ?thesis using run d(5) by auto
qed

lemma wait_queue_spec_witness:
  "\<exists>crs' s'. dma_wait_queue demo_sys 0x80 5 100 (Some (replicate 5 demo_cr)) (demo_flow_st\<lparr>cqes := cqes demo_cq_st\<rparr>)
       = Some (3, Some crs', s') \<and> arm_sn (jfcs s' 0x800) = 2 \<and> comp_events_acked (jfcs s' 0x800) = 3"
proof -
  let ?s = "demo_flow_st\<lparr>cqes := cqes demo_cq_st\<rparr>" let ?es = "[demo_cqe 1 6 0, demo_cqe 1 7 0, demo_cqe 0 0 0]"
  let ?ans = "e_ioctl demo_sys (tr ?s) 11 (CDMA_CMD_WAIT_JFC 5 100)"
  have c: "jfcs ?s = jfcs demo_cq_st" "jfc_cq (jfcs demo_cq_st 0x800) = demo_cq" by (simp_all add: demo_flow_st_def demo_cq_st_def)
  have "\<forall>i\<in>set [0..<3]. cqe_new ?s demo_cq (q_ci demo_cq + of_nat i) \<and> cqe_at ?s demo_cq (q_ci demo_cq + of_nat i) = ?es ! i"
    by code_simp
  then have new: "cq_new ?s 0x800 ?es" by (simp add: cq_new_def Let_def c)
  have good: "list_all cqe_good ?es" by code_simp
  have stop: "\<not> cqe_new ?s (jfc_cq (jfcs ?s 0x800)) (q_ci (jfc_cq (jfcs ?s 0x800)) + of_nat (length ?es))" by code_simp
  have wf: "cq_wf (jfc_cq (jfcs ?s 0x800))" unfolding c(1) by (rule demo_cq_wf)
  have q: "qcfg_event_mode (que_cfg (queues ?s 0x80))" "que_jfce (queues ?s 0x80) = 0x900" "que_jfc (queues ?s 0x80) = 0x800"
    "jfce_fd (jfces ?s 0x900) = 11" by (simp_all add: demo_flow_st_def)
  have j: "jfc_dma_ctx (jfcs ?s 0x800) = 0x40" "arm_sn (jfcs ?s 0x800) = 1" "comp_events_acked (jfcs ?s 0x800) = 0"
    by code_simp+
  have a: "fst ?ans = 0" "sint (out_event_cnt (snd ?ans)) = 1" by (simp_all add: demo_sys_def demo_env_def)
  have "\<exists>crs' s'. dma_wait_queue demo_sys 0x80 5 100 (Some (replicate 5 demo_cr)) ?s
       = Some (if fst ?ans \<noteq> 0 \<or> sint (out_event_cnt (snd ?ans)) < 0 \<or> ?es = [] then - EFAULT else int (length ?es), Some crs', s')
     \<and> (if fst ?ans \<noteq> 0 \<or> sint (out_event_cnt (snd ?ans)) < 0 then crs' = replicate 5 demo_cr \<and> jfcs s' = jfcs ?s
        else poll_records ?es crs' \<and> drop (length ?es) crs' = drop (length ?es) (replicate 5 demo_cr)
          \<and> (?es \<noteq> [] \<longrightarrow> jfcs s' 0x800 = (jfcs ?s 0x800)\<lparr>jfc_cq := (jfc_cq (jfcs ?s 0x800))\<lparr>q_ci := q_ci (jfc_cq (jfcs ?s 0x800)) + of_nat (length ?es)\<rparr>,
                 arm_sn := arm_sn (jfcs ?s 0x800) + 1, comp_events_acked := comp_events_acked (jfcs ?s 0x800) + of_nat (length ?es)\<rparr>
             \<and> (\<exists>stack. hd (tr s') = EvMmio64 (db_addr (ctx_db (ctxs ?s (jfc_dma_ctx (jfcs ?s 0x800)))) + CDMA_JFC_HW_DB_OFFSET)
                  (jfc_db_value stack (jfcs s' 0x800) False))))"
    by (rule wait_queue_spec [of "0x80" ?s 5 11 "0x800" ?es "replicate 5 demo_cr" demo_sys 100 "fst ?ans" "snd ?ans"])
       (use new good stop wf q j in simp_all)
  then show ?thesis using a j by auto
qed

end
