(* ===== verification/Cdma_Session.thy ===== *)
theory Cdma_Session
  imports Cdma_Flow "HOL-Library.Sublist"
begin

text \<open>
  A queue in use: posting (\<open>cdma_u_jfs.c\<close>) and polling (\<open>cdma_u_jfc.c\<close>) share the send ring with the
  device, which writes entries into the completion ring in between. The invariant \<open>session_inv\<close> ties
  the two rings to what the device owes, every step keeps it, and the lemmas of single calls are
  composed into a statement about any sequence of them.
\<close>

section \<open>Posting does not resize the ring\<close>

lemma post_jfs_cnt:
  assumes wf: "sq_wf (jfs_sq (jfss s jfs))" and run: "cdma_u_post_jfs_wr jfs wrs s = Some (r, bad, s')"
  shows "baseblk_cnt (jfs_sq (jfss s' jfs)) = baseblk_cnt (jfs_sq (jfss s jfs))"
proof -
  let ?sq = "jfs_sq (jfss s jfs)" let ?ctx = "jfs_dma_ctx (jfss s jfs)"
  obtain sq' a e s1 n where p: "post_wrs ?ctx ?sq wrs NULL False 0 (emit (EvLock jfs) s) = Some (r, sq', a, e, s1, bad, n)"
    and sq: "jfs_sq (jfss s' jfs) = sq'"
    using run by (auto simp: cdma_u_post_jfs_wr_def cdma_post_sq_wr_def Let_def bind_eq_Some_conv)
  from p post_wrs_stream [OF wf, where s = "emit (EvLock jfs) s" and wrs = wrs and ctx = ?ctx and a = NULL and e = False and n = 0]
  obtain k bss cs where "posted ?ctx ?sq (emit (EvLock jfs) s) False k bss cs sq' a e s1"
    by (auto split: option.splits)
  then obtain x y where "sq' = ?sq\<lparr>qbuf_curr := x, q_pi := y\<rparr>" by (rule posted_frame)
  then show ?thesis using sq by simp
qed

section \<open>What the device owes\<close>

text \<open>
  The device works on the blocks in flight in their order and writes an entry for some of them:
  \<open>js\<close> are the positions in flight that the new entries of the completion ring complete. The
  entry behind them is not new.
\<close>

definition dev_ok :: "ptr \<Rightarrow> ptr \<Rightarrow> st \<Rightarrow> nat list \<Rightarrow> bool" where
  "dev_ok jfs jfc s js \<longleftrightarrow> (let cq = jfc_cq (jfcs s jfc); sq = jfs_sq (jfss s jfs) in
     sorted_wrt (<) js \<and> (\<forall>j\<in>set js. j < unat (q_pi sq - q_ci sq))
     \<and> (\<forall>i<length js. cqe_new s cq (q_ci cq + of_nat i) \<and> (let e = cqe_at s cq (q_ci cq + of_nat i) in
          cqe_good e \<and> cqe_queue e = jfs + 72
          \<and> unat (cqe_entry_idx e) = unat (q_ci sq + of_nat (js ! i)) mod ring_cap sq))
     \<and> \<not> cqe_new s cq (q_ci cq + of_nat (length js)))"

definition session_inv :: "ptr \<Rightarrow> ptr \<Rightarrow> st \<Rightarrow> nat list \<Rightarrow> bool" where
  "session_inv jfs jfc s js \<longleftrightarrow> sq_wf (jfs_sq (jfss s jfs)) \<and> cq_wf (jfc_cq (jfcs s jfc)) \<and> dev_ok jfs jfc s js"

abbreviation in_flight :: "ptr \<Rightarrow> st \<Rightarrow> u64 list" where
  "in_flight jfs s \<equiv> sq_user_ctxs s (jfs_sq (jfss s jfs))"

abbreviation cq_ci :: "ptr \<Rightarrow> st \<Rightarrow> u32" where
  "cq_ci jfc s \<equiv> q_ci (jfc_cq (jfcs s jfc))"

lemma session_inv_emit [simp]: "session_inv jfs jfc (emit e s) js = session_inv jfs jfc s js"
  by (simp add: session_inv_def dev_ok_def cqe_new_def cqe_at_def)

lemma sq_user_ctxs_cong: "wrids s' = wrids s \<Longrightarrow> sq_user_ctxs s' q = sq_user_ctxs s q"
  by (simp add: sq_user_ctxs_def)

section \<open>One completion\<close>

lemma cqe_same: "cqes s' = cqes s \<Longrightarrow> cqe_at s' (q\<lparr>q_ci := i\<rparr>) n = cqe_at s q n"
    "cqes s' = cqes s \<Longrightarrow> cqe_new s' (q\<lparr>q_ci := i\<rparr>) n = cqe_new s q n"
  by (simp_all add: cqe_new_def cqe_at_def lap_odd_def ring_cap_def)

lemma session_poll_one:
  assumes inv: "session_inv jfs jfc s (j # js)"
  obtains cr' s' where "cdma_u_poll_one jfc cr s = Some (JFC_OK, cr', s')" and "j < length (in_flight jfs s)"
    and "cr_user_ctx cr' = in_flight jfs s ! j" and "in_flight jfs s' = drop (Suc j) (in_flight jfs s)"
    and "session_inv jfs jfc s' (List.map (\<lambda>i. i - Suc j) js)" and "cq_ci jfc s' = cq_ci jfc s + 1"
proof -
  let ?cq = "jfc_cq (jfcs s jfc)" let ?sq = "jfs_sq (jfss s jfs)" let ?e = "cqe_at s ?cq (q_ci ?cq)"
  have wf: "cq_wf ?cq" "sq_wf ?sq" and d: "dev_ok jfs jfc s (j # js)" using inv by (simp_all add: session_inv_def)
  have e: "cqe_new s ?cq (q_ci ?cq)" "cqe_good ?e" "cqe_queue ?e = jfs + 72" "unat (cqe_entry_idx ?e) = unat (q_ci ?sq + of_nat j) mod ring_cap ?sq"
      and j: "j < unat (q_pi ?sq - q_ci ?sq)"
    using d by (force simp: dev_ok_def Let_def)+
  have sq: "?sq = sq_at s (cqe_queue ?e)" by (simp add: sq_at_def e(3))
  obtain c where g: "ring_geometry_is c 6 ?sq" and room: "unat (q_pi ?sq - q_ci ?sq) \<le> 2 ^ c"
    using wf(2) by (rule sq_wfE)
  have dn: "done_ci ?sq ?e = q_ci ?sq + of_nat j"
    using done_ci_eq [OF g] e(4) j room by (simp add: ring_geometry_facts(6) [OF g])
  have "Suc j \<le> unat (q_pi ?sq - q_ci ?sq)" using j by simp
  note c = sq_complete [OF wf(2) this]
  let ?s = "good_st jfc ?e s"
  have sq': "jfs_sq (jfss ?s jfs) = ?sq\<lparr>q_ci := q_ci ?sq + of_nat (Suc j)\<rparr>"
    using dn by (simp add: good_st_def Let_def set_sq_def e(3) sq_at_def add.assoc add.commute)
  have s': "wrids ?s = wrids s" "cqes ?s = cqes s" "jfc_cq (jfcs ?s jfc) = ?cq\<lparr>q_ci := q_ci ?cq + 1\<rparr>"
    by (simp_all add: good_st_def Let_def)
  have one: "cdma_u_poll_one jfc cr s = Some (JFC_OK, good_cr s ?e cr, ?s)" by (rule poll_one_good [OF wf(1) e(1) refl e(2)])
  have "cr_user_ctx (good_cr s ?e cr) = in_flight jfs s ! j"
    using user_ctx_nth [OF j] dn by (simp add: good_cr_def Let_def sq [symmetric])
  moreover have "j < length (in_flight jfs s)" using j by (simp add: sq_user_ctxs_def)
  moreover have "in_flight jfs ?s = drop (Suc j) (in_flight jfs s)"
    unfolding sq' using c(3) sq_user_ctxs_cong [OF s'(1)] by simp
  moreover have "session_inv jfs jfc ?s (List.map (\<lambda>i. i - Suc j) js)"
  proof -
    have "cq_wf (jfc_cq (jfcs ?s jfc))" using wf(1) unfolding s'(3) by simp
    moreover have "dev_ok jfs jfc ?s (List.map (\<lambda>i. i - Suc j) js)"
    proof -
      have st: "sorted_wrt (<) js" "\<forall>i\<in>set js. j < i \<and> i < unat (q_pi ?sq - q_ci ?sq)" using d by (auto simp: dev_ok_def Let_def)
      have "sorted_wrt (\<lambda>a b. a - Suc j < b - Suc j) js"
        using st(1) by (rule sorted_wrt_mono_rel [rotated]) (use st(2) in fastforce)
      then have "sorted_wrt (<) (List.map (\<lambda>i. i - Suc j) js)" by (simp add: sorted_wrt_map)
      moreover have "i - Suc j < unat (q_pi ?sq - (q_ci ?sq + of_nat (Suc j)))" if "i \<in> set js" for i
        using inflight_after [OF \<open>Suc j \<le> _\<close>] st(2) that by fastforce
      moreover have "q_ci ?sq + of_nat (Suc j) + of_nat (js ! i - Suc j) = q_ci ?sq + of_nat (js ! i)" if "i < length js" for i
      proof -
        have "j < js ! i" using st(2) that by simp
        then have "js ! i = Suc j + (js ! i - Suc j)" by simp
        then show ?thesis by (metis add.assoc of_nat_add)
      qed
      moreover have "cqe_new s ?cq (q_ci ?cq + 1 + of_nat i) \<and> (let e = cqe_at s ?cq (q_ci ?cq + 1 + of_nat i) in
          cqe_good e \<and> cqe_queue e = jfs + 72 \<and> unat (cqe_entry_idx e) = unat (q_ci ?sq + of_nat (js ! i)) mod ring_cap ?sq)"
        if "i < length js" for i
      proof -
        have "Suc i < length (j # js)" using that by simp
        moreover have "q_ci ?cq + of_nat (Suc i) = q_ci ?cq + 1 + of_nat i" by simp
        ultimately show ?thesis using d unfolding dev_ok_def Let_def by (metis nth_Cons_Suc)
      qed
      moreover have "\<not> cqe_new s ?cq (q_ci ?cq + 1 + of_nat (length js))"
        using d unfolding dev_ok_def Let_def by (simp add: add.assoc)
      moreover have "ring_cap (?sq\<lparr>q_ci := x\<rparr>) = ring_cap ?sq" for x by (simp add: ring_cap_def)
      ultimately show ?thesis unfolding dev_ok_def Let_def sq' s'(3) by (simp add: cqe_same [OF s'(2)] del: of_nat_Suc) (simp add: add.assoc del: of_nat_Suc)
    qed
    ultimately show ?thesis using c(1) unfolding session_inv_def sq' by simp
  qed
  moreover have "cq_ci jfc ?s = cq_ci jfc s + 1" unfolding s'(3) by simp
  ultimately show ?thesis using that one by blast
qed

section \<open>A call of poll\<close>

lemma session_poll_none:
  assumes "session_inv jfs jfc s []"
  shows "cdma_u_poll_one jfc cr s = Some (JFC_EMPTY, cr, s)"
proof -
  have wf: "cq_wf (jfc_cq (jfcs s jfc))" and no: "\<not> cqe_new s (jfc_cq (jfcs s jfc)) (q_ci (jfc_cq (jfcs s jfc)))"
    using assms by (simp_all add: session_inv_def dev_ok_def Let_def)
  show ?thesis using get_next_cqe_eq [OF wf] no by (simp add: cdma_u_poll_one_def cqe_new_def)
qed

text \<open>
  Completing the first \<open>k\<close> of the positions \<open>js\<close> retires the blocks up to the last of them; the
  remaining positions count from there.
\<close>

definition retired :: "nat \<Rightarrow> nat list \<Rightarrow> nat" where
  "retired k js = (if take k js = [] then 0 else Suc (last (take k js)))"

definition owed :: "nat \<Rightarrow> nat list \<Rightarrow> nat list" where
  "owed k js = List.map (\<lambda>i. i - retired k js) (drop k js)"

lemma retired_none [simp]: "retired 0 js = 0" "retired k [] = 0" "owed 0 js = js" "owed k [] = []"
  by (simp_all add: retired_def owed_def)

lemma retired_Cons:
  assumes "\<forall>i\<in>set js. j < i"
  shows "retired (Suc k) (j # js) = Suc j + retired k (List.map (\<lambda>i. i - Suc j) js)"
    and "owed (Suc k) (j # js) = owed k (List.map (\<lambda>i. i - Suc j) js)"
proof -
  have l: "j < last (take k js)" if "take k js \<noteq> []" using assms last_in_set [OF that] by (blast dest: in_set_takeD)
  show r: "retired (Suc k) (j # js) = Suc j + retired k (List.map (\<lambda>i. i - Suc j) js)"
    using l by (cases "take k js = []") (simp_all add: retired_def take_map last_map)
  show "owed (Suc k) (j # js) = owed k (List.map (\<lambda>i. i - Suc j) js)"
    unfolding owed_def r by (simp add: drop_map)
qed

text \<open>
  \<open>min k (length js)\<close> records are written; the contexts in them are those of the blocks at the
  positions completed, in order.
\<close>

lemma session_poll_loop:
  assumes "session_inv jfs jfc s js" and "n + k \<le> length crs"
  shows "\<exists>r crs' s'. poll_loop jfc k n crs s = Some (r, n + min k (length js), crs', s') \<and> r \<noteq> JFC_POLL_ERR
     \<and> length crs' = length crs \<and> take n crs' = take n crs
     \<and> in_flight jfs s' = drop (retired k js) (in_flight jfs s) \<and> session_inv jfs jfc s' (owed k js)
     \<and> List.map cr_user_ctx (take (min k (length js)) (drop n crs')) = List.map ((!) (in_flight jfs s)) (take k js)
     \<and> subseq (List.map cr_user_ctx (take (min k (length js)) (drop n crs'))) (take (retired k js) (in_flight jfs s))
     \<and> cq_ci jfc s' = cq_ci jfc s + of_nat (min k (length js))"
  using assms
proof (induction k arbitrary: n crs s js)
  case 0
  then show ?case by (intro exI [of _ JFC_OK] exI [of _ crs] exI [of _ s]) simp
next
  case (Suc k)
  have n: "n < length crs" using Suc.prems(2) by simp
  show ?case
  proof (cases js)
    case Nil
    have "cdma_u_poll_one jfc (crs ! n) s = Some (JFC_EMPTY, crs ! n, s)"
      using session_poll_none Suc.prems(1) unfolding Nil by blast
    then show ?thesis using n Suc.prems(1) Nil
      by (intro exI [of _ JFC_EMPTY] exI [of _ crs] exI [of _ s]) simp
  next
    case (Cons j js1)
    let ?F = "in_flight jfs s"
    obtain cr1 s1 where one: "cdma_u_poll_one jfc (crs ! n) s = Some (JFC_OK, cr1, s1)" and j: "j < length ?F"
      and u: "cr_user_ctx cr1 = ?F ! j" and fl: "in_flight jfs s1 = drop (Suc j) ?F"
      and inv: "session_inv jfs jfc s1 (List.map (\<lambda>i. i - Suc j) js1)" and ci: "cq_ci jfc s1 = cq_ci jfc s + 1"
      using session_poll_one Suc.prems(1) unfolding Cons by blast
    let ?m = "min k (length js1)" let ?js = "List.map (\<lambda>i. i - Suc j) js1" let ?D = "take (retired k ?js) (in_flight jfs s1)"
    have gt: "\<forall>i\<in>set js1. j < i" using Suc.prems(1) unfolding Cons by (auto simp: session_inv_def dev_ok_def Let_def)
    note rt = retired_Cons [OF gt, of k, folded Cons]
    have "Suc n + k \<le> length (crs[n := cr1])" using Suc.prems(2) by simp
    from Suc.IH [OF inv this] obtain r crs' s' where
      loop: "poll_loop jfc k (Suc n) (crs[n := cr1]) s1 = Some (r, Suc n + ?m, crs', s')" "r \<noteq> JFC_POLL_ERR"
      and l: "length crs' = length crs" and t: "take (Suc n) crs' = take (Suc n) (crs[n := cr1])"
      and D: "in_flight jfs s' = drop (retired k ?js) (in_flight jfs s1)" and inv': "session_inv jfs jfc s' (owed k ?js)"
      and ex: "List.map cr_user_ctx (take ?m (drop (Suc n) crs')) = List.map ((!) (in_flight jfs s1)) (take k ?js)"
      and sub: "subseq (List.map cr_user_ctx (take ?m (drop (Suc n) crs'))) ?D" and ci': "cq_ci jfc s' = cq_ci jfc s1 + of_nat ?m" by auto
    have "crs' ! n = take (Suc n) crs' ! n" by simp
    also have "\<dots> = cr1" unfolding t using n by simp
    finally have "drop n crs' = cr1 # drop (Suc n) crs'" using n l by (simp add: Cons_nth_drop_Suc [symmetric])
    moreover have "subseq [?F ! j] (take (Suc j) ?F)" using j by (simp add: subseq_singleton_left in_set_conv_nth) force
    then have "subseq ([?F ! j] @ List.map cr_user_ctx (take ?m (drop (Suc n) crs'))) (take (Suc j) ?F @ ?D)"
      using sub by (rule list_emb_append_mono)
    ultimately have sub': "subseq (List.map cr_user_ctx (take (Suc ?m) (drop n crs'))) (take (Suc j) ?F @ ?D)" using u by simp
    have "?F ! i = in_flight jfs s1 ! (i - Suc j)" if "i \<in> set js1" for i
    proof -
      have "j < i" using gt that by simp
      then show ?thesis using j unfolding fl by simp
    qed
    then have "List.map ((!) (in_flight jfs s1)) (take k (List.map (\<lambda>i. i - Suc j) js1)) = List.map ((!) ?F) (take k js1)"
      by (auto simp: take_map dest!: in_set_takeD)
    then have ex': "List.map cr_user_ctx (take (Suc ?m) (drop n crs')) = List.map ((!) ?F) (take (Suc k) js)"
      using ex u \<open>drop n crs' = _\<close> Cons by simp
    have F: "in_flight jfs s' = drop (retired (Suc k) js) ?F" unfolding rt D fl by (simp add: add.commute)
    have T: "take (Suc j) ?F @ ?D = take (retired (Suc k) js) ?F" unfolding rt fl by (simp only: take_add)
    have "take n crs' = take n (take (Suc n) crs')" by (simp add: min_def)
    also have "\<dots> = take n crs" unfolding t by simp
    finally have t': "take n crs' = take n crs" .
    have run: "poll_loop jfc (Suc k) n crs s = Some (r, n + min (Suc k) (length js), crs', s')" using n one loop(1) Cons by simp
    have m: "min (Suc k) (length js) = Suc ?m" using Cons by simp
    have ci'': "cq_ci jfc s' = cq_ci jfc s + of_nat (Suc ?m)" using ci ci' by simp
    show ?thesis
      by (intro exI [of _ r] exI [of _ crs'] exI [of _ s'] conjI)
        (fact run loop(2) l t' F inv' [folded rt] ex' [folded m] sub' [folded m, unfolded T] ci'' [folded m])+
  qed
qed

lemma session_inv_sw_db [simp]: "session_inv jfs jfc (write_sw_db j s) js = session_inv jfs jfc s js"
  by (simp add: session_inv_def dev_ok_def cqe_new_def cqe_at_def write_sw_db_def)

lemma session_len:
  assumes "session_inv jfs jfc s js"
  shows "length js \<le> length (in_flight jfs s)" and "length js \<le> 33554432"
proof -
  let ?n = "unat (q_pi (jfs_sq (jfss s jfs)) - q_ci (jfs_sq (jfss s jfs)))"
  have js: "sorted_wrt (<) js" "set js \<subseteq> {..<?n}" and wf: "sq_wf (jfs_sq (jfss s jfs))"
    using assms by (auto simp: session_inv_def dev_ok_def Let_def)
  have "length js = card (set js)" using js(1) strict_sorted_iff distinct_card by metis
  also have "\<dots> \<le> ?n" using card_mono [OF _ js(2)] by simp
  finally have l: "length js \<le> ?n" .
  then show "length js \<le> length (in_flight jfs s)" by (simp add: sq_user_ctxs_def)
  obtain c where c: "ring_geometry_is c 6 (jfs_sq (jfss s jfs))" "?n \<le> 2 ^ c" using wf by (rule sq_wfE)
  then have "c \<le> 25" by (simp add: ring_geometry_is_def)
  then have "(2 :: nat) ^ c \<le> 2 ^ 25" by (intro power_increasing) simp_all
  then show "length js \<le> 33554432" using l c(2) by simp
qed

lemma session_poll:
  assumes inv: "session_inv jfs jfc s js" and c: "jfc \<noteq> NULL" and len: "unat cnt \<le> length crs"
  shows "\<exists>crs' s'. cdma_u_poll_jfc jfc cnt crs s = Some (int (min (unat cnt) (length js)), crs', s')
     \<and> in_flight jfs s' = drop (retired (unat cnt) js) (in_flight jfs s) \<and> session_inv jfs jfc s' (owed (unat cnt) js)
     \<and> List.map cr_user_ctx (take (min (unat cnt) (length js)) crs') = List.map ((!) (in_flight jfs s)) (take (unat cnt) js)
     \<and> subseq (List.map cr_user_ctx (take (min (unat cnt) (length js)) crs')) (take (retired (unat cnt) js) (in_flight jfs s))
     \<and> cq_ci jfc s' = cq_ci jfc s + of_nat (min (unat cnt) (length js)) \<and> length crs' = length crs"
proof -
  let ?m = "min (unat cnt) (length js)" let ?s = "emit (EvLock jfc) s"
  have "session_inv jfs jfc ?s js" "0 + unat cnt \<le> length crs" using inv len by simp_all
  from session_poll_loop [OF this] obtain r crs' s' where
    p: "poll_loop jfc (unat cnt) 0 crs ?s = Some (r, ?m, crs', s')" "r \<noteq> JFC_POLL_ERR"
      "in_flight jfs s' = drop (retired (unat cnt) js) (in_flight jfs s)" "session_inv jfs jfc s' (owed (unat cnt) js)"
      "List.map cr_user_ctx (take ?m crs') = List.map ((!) (in_flight jfs s)) (take (unat cnt) js)" "subseq (List.map cr_user_ctx (take ?m crs')) (take (retired (unat cnt) js) (in_flight jfs s))"
      "cq_ci jfc s' = cq_ci jfc s + of_nat ?m" "length crs' = length crs"
    by (auto simp: sq_user_ctxs_def)
  have "sint (of_nat ?m :: u32) = int ?m" using session_len [OF inv] by (intro sint_small) simp
  then have "cdma_u_poll_jfc jfc cnt crs s = Some (int ?m, crs', emit (EvUnlock jfc) (if ?m \<noteq> 0 then write_sw_db jfc s' else s'))"
    using poll_jfc_result_eq [OF c] p(1,2) by simp
  moreover have "in_flight jfs (emit (EvUnlock jfc) (if ?m \<noteq> 0 then write_sw_db jfc s' else s')) = in_flight jfs s'"
    by (simp add: sq_user_ctxs_def)
  moreover have "session_inv jfs jfc (emit (EvUnlock jfc) (if ?m \<noteq> 0 then write_sw_db jfc s' else s')) (owed (unat cnt) js)" using p(4) by simp
  moreover have "cq_ci jfc (emit (EvUnlock jfc) (if ?m \<noteq> 0 then write_sw_db jfc s' else s')) = cq_ci jfc s'"
    by (simp add: write_sw_db_def)
  ultimately show ?thesis using p(3,5-8) by metis
qed

section \<open>Posting\<close>

lemma session_post:
  assumes inv: "session_inv jfs jfc s js" and run: "cdma_u_post_jfs_wr jfs wrs s = Some (r, bad, s')"
    and str: "wr_stream (umem s) (jfs_sq (jfss s jfs)) wrs = Some (bss, cs, r', bad', k)"
  shows "in_flight jfs s' = in_flight jfs s @ cs" and "session_inv jfs jfc s' js" and "r = r'" and "bad = bad'" and "jfcs s' = jfcs s"
proof -
  let ?sq = "jfs_sq (jfss s jfs)" let ?sq' = "jfs_sq (jfss s' jfs)"
  have wf: "sq_wf ?sq" and d: "dev_ok jfs jfc s js" and cq: "cq_wf (jfc_cq (jfcs s jfc))" using inv by (simp_all add: session_inv_def)
  from post_jfs_spec [OF wf str] run have p: "sq_wf ?sq'" "q_ci ?sq' = q_ci ?sq"
      "unat (q_pi ?sq' - q_ci ?sq) = unat (q_pi ?sq - q_ci ?sq) + length bss" "in_flight jfs s' = in_flight jfs s @ cs" "r = r'" "bad = bad'"
    and fr: "s' = s\<lparr>wqebbs := wqebbs s', wrids := wrids s', tr := tr s', jfss := (jfss s)(jfs := (jfss s jfs)\<lparr>jfs_sq := ?sq'\<rparr>)\<rparr>"
    by (auto simp: Let_def)
  have same: "jfcs s' = jfcs s" "cqes s' = cqes s" by (subst fr, simp)+
  have "ring_cap ?sq' = ring_cap ?sq" using post_jfs_cnt [OF wf run] by (simp add: ring_cap_def)
  then have "dev_ok jfs jfc s' js" using d p(2,3) by (auto simp: dev_ok_def Let_def same cqe_new_def cqe_at_def)
  then show "session_inv jfs jfc s' js" using p(1) cq by (simp add: session_inv_def same)
  show "in_flight jfs s' = in_flight jfs s @ cs" "r = r'" "bad = bad'" by fact+
  show "jfcs s' = jfcs s" by (rule same)
qed

section \<open>Sessions\<close>

text \<open>
  What a user and the device do to a queue: chains of requests are posted (accepted whole, in part or
  not at all), the device writes entries, completions are polled. \<open>Posted\<close> carries the user
  contexts of the blocks added, \<open>Polled\<close> those of the records returned.
\<close>

datatype session_event = Posted "u64 list" | Polled "u64 list"

inductive session :: "ptr \<Rightarrow> ptr \<Rightarrow> st \<Rightarrow> session_event list \<Rightarrow> st \<Rightarrow> bool" for jfs jfc where
  session_nil: "session jfs jfc s [] s"
| session_posts: "wr_stream (umem s) (jfs_sq (jfss s jfs)) wrs = Some (bss, cs, r', bad', k)
    \<Longrightarrow> cdma_u_post_jfs_wr jfs wrs s = Some (r, bad, s1) \<Longrightarrow> session jfs jfc s1 es s2
    \<Longrightarrow> session jfs jfc s (Posted cs # es) s2"
| session_device: "dev_ok jfs jfc (s\<lparr>cqes := m\<rparr>) js \<Longrightarrow> session jfs jfc (s\<lparr>cqes := m\<rparr>) es s2
    \<Longrightarrow> session jfs jfc s es s2"
| session_polls: "unat cnt \<le> length crs \<Longrightarrow> cdma_u_poll_jfc jfc cnt crs s = Some (n, crs', s1)
    \<Longrightarrow> session jfs jfc s1 es s2 \<Longrightarrow> session jfs jfc s (Polled (List.map cr_user_ctx (take (nat n) crs')) # es) s2"

fun posted_ctxs :: "session_event list \<Rightarrow> u64 list" where
  "posted_ctxs [] = []"
| "posted_ctxs (Posted cs # es) = cs @ posted_ctxs es"
| "posted_ctxs (Polled us # es) = posted_ctxs es"

fun polled_ctxs :: "session_event list \<Rightarrow> u64 list" where
  "polled_ctxs [] = []"
| "polled_ctxs (Posted cs # es) = polled_ctxs es"
| "polled_ctxs (Polled us # es) = us @ polled_ctxs es"

lemma session_run:
  assumes "session jfs jfc s es s'" and "jfc \<noteq> NULL" and "session_inv jfs jfc s js"
  shows "\<exists>js' D. session_inv jfs jfc s' js' \<and> in_flight jfs s @ posted_ctxs es = D @ in_flight jfs s'
     \<and> subseq (polled_ctxs es) D \<and> cq_ci jfc s' = cq_ci jfc s + of_nat (length (polled_ctxs es))"
  using assms
proof (induction arbitrary: js rule: session.induct)
  case (session_nil s)
  then show ?case by (intro exI [of _ js] exI [of _ "[]"]) simp
next
  case (session_posts s wrs bss cs r' bad' k r bad s1 es s2)
  note p = session_post [OF session_posts.prems(2) session_posts.hyps(2,1)]
  show ?case using session_posts.IH [OF session_posts.prems(1) p(2)] p(1,5) by simp
next
  case (session_device m s js' es s2)
  have "session_inv jfs jfc (s\<lparr>cqes := m\<rparr>) js'" using session_device.prems(2) session_device.hyps(1) by (simp add: session_inv_def)
  from session_device.IH [OF session_device.prems(1) this] show ?case by (simp add: sq_user_ctxs_def)
next
  case (session_polls cnt crs s n crs' s1 es s2)
  from session_poll [OF session_polls.prems(2,1) session_polls.hyps(1)] session_polls.hyps(2) obtain js1 i where
    f: "in_flight jfs s1 = drop i (in_flight jfs s)" and inv: "session_inv jfs jfc s1 js1"
    and sub: "subseq (List.map cr_user_ctx (take (nat n) crs')) (take i (in_flight jfs s))"
    and ci: "cq_ci jfc s1 = cq_ci jfc s + of_nat (length (take (nat n) crs'))" using session_polls.hyps(1) by auto
  let ?D = "take i (in_flight jfs s)"
  have D: "in_flight jfs s = ?D @ in_flight jfs s1" unfolding f by simp
  from session_polls.IH [OF session_polls.prems(1) inv] obtain js2 D2 where
    "session_inv jfs jfc s2 js2" "in_flight jfs s1 @ posted_ctxs es = D2 @ in_flight jfs s2" "subseq (polled_ctxs es) D2"
    "cq_ci jfc s2 = cq_ci jfc s1 + of_nat (length (polled_ctxs es))" by blast
  then show ?case using arg_cong [OF D, of "\<lambda>l. l @ posted_ctxs es"] list_emb_append_mono [OF sub, of "polled_ctxs es" D2]
    by (intro exI [of _ js2] exI [of _ "?D @ D2"]) (simp add: ci del: length_take append_take_drop_id)
qed

text \<open>
  C8: when the device has written entries for the positions \<open>js\<close> in flight (and only those), a poll
  with room for \<open>cnt\<close> records returns the number \<open>min cnt (length js)\<close>; the records carry the user
  contexts of those positions in order, exactly the blocks up to and including the last position
  returned leave the send queue (\<open>retired\<close>), and the rest of \<open>js\<close>, counted from the new head of the
  send queue, is what the device is owed for then (\<open>owed\<close>).
\<close>

theorem session_polling:
  assumes "session_inv jfs jfc s js" and "jfc \<noteq> NULL" and "unat cnt \<le> length crs"
  shows "\<exists>crs' s'. cdma_u_poll_jfc jfc cnt crs s = Some (int (min (unat cnt) (length js)), crs', s')
     \<and> in_flight jfs s' = drop (retired (unat cnt) js) (in_flight jfs s) \<and> session_inv jfs jfc s' (owed (unat cnt) js)
     \<and> List.map cr_user_ctx (take (min (unat cnt) (length js)) crs') = List.map ((!) (in_flight jfs s)) (take (unat cnt) js)"
  using session_poll [OF assms] by blast

text \<open>
  C1: over any session, that is any interleaving of posting chains of requests, of the device writing
  entries and of polling, the invariants of both rings are kept; the user contexts in flight at
  the start followed by those posted are, in order, the ones of the blocks that left the queue and
  then those still in flight, and the contexts the polls returned are a subsequence of the former:
  completions come back in the order of posting, none twice and none of a block still in flight. The
  consumer index has advanced by the number of completions returned.
\<close>

theorem session_order:
  assumes "session jfs jfc s es s'" and "jfc \<noteq> NULL" and "session_inv jfs jfc s js"
  shows "\<exists>js' D. session_inv jfs jfc s' js' \<and> in_flight jfs s @ posted_ctxs es = D @ in_flight jfs s'
     \<and> subseq (polled_ctxs es) D \<and> cq_ci jfc s' = cq_ci jfc s + of_nat (length (polled_ctxs es))"
  by (rule session_run [OF assms])

lemma demo_session_inv: "session_inv 0x200 0x800 demo_cq_st [0, 1, 2]"
proof -
  let ?sq = "demo_sq\<lparr>q_pi := 1, qbuf_curr := 0x100040\<rparr>" let ?es = "[demo_cqe 1 6 0, demo_cqe 1 7 0, demo_cqe 0 0 0]"
  have sq: "jfs_sq (jfss demo_cq_st 0x200) = ?sq" "jfc_cq (jfcs demo_cq_st 0x800) = demo_cq" by (simp_all add: demo_cq_st_def)
  have "cdma_u_get_buf_entry ?sq (q_pi ?sq) = qbuf_curr ?sq" by code_simp
  then have wf: "sq_wf ?sq" unfolding sq_wf_def
    by (intro exI [of _ 3]) (simp add: ring_geometry_is_def, simp add: demo_sq_def)
  have "\<forall>i\<in>set [0..<3]. cqe_new demo_cq_st demo_cq (q_ci demo_cq + of_nat i) \<and> cqe_at demo_cq_st demo_cq (q_ci demo_cq + of_nat i) = ?es ! i"
    by code_simp
  moreover have "list_all (\<lambda>e. cqe_good e \<and> cqe_queue e = 0x200 + 72) ?es" by code_simp
  moreover have "\<forall>i\<in>set [0..<3]. unat (cqe_entry_idx (?es ! i)) = unat (q_ci ?sq + of_nat ([0, 1, 2] ! i)) mod ring_cap ?sq"
    by (simp add: upt_rec demo_cqe_def demo_sq_def ring_cap_def)
  ultimately have "cqe_new demo_cq_st demo_cq (q_ci demo_cq + of_nat i) \<and> (let e = cqe_at demo_cq_st demo_cq (q_ci demo_cq + of_nat i) in
      cqe_good e \<and> cqe_queue e = 0x200 + 72 \<and> unat (cqe_entry_idx e) = unat (q_ci ?sq + of_nat ([0, 1, 2] ! i)) mod ring_cap ?sq)"
    if "i < length [0 :: nat, 1, 2]" for i
    using that unfolding Let_def by (auto simp: list_all_length)
  moreover have "\<not> cqe_new demo_cq_st demo_cq (q_ci demo_cq + of_nat (length [0 :: nat, 1, 2]))" by code_simp
  moreover have "unat (q_pi ?sq - q_ci ?sq) = 3" by code_simp
  ultimately have "dev_ok 0x200 0x800 demo_cq_st [0, 1, 2]" unfolding dev_ok_def sq Let_def by simp
  then show ?thesis using wf demo_cq_wf unfolding session_inv_def sq by blast
qed

lemma demo_in_flight: "in_flight 0x200 demo_cq_st = [0x77, 0x78, 0x79]"
  by code_simp

text \<open>Two of three completions are polled; the third block stays in flight, its completion outstanding.\<close>

lemma session_polling_witness:
  "\<exists>crs' s'. cdma_u_poll_jfc 0x800 2 [demo_cr, demo_cr] demo_cq_st = Some (2, crs', s')
     \<and> List.map cr_user_ctx (take 2 crs') = [0x77, 0x78] \<and> in_flight 0x200 s' = [0x79] \<and> session_inv 0x200 0x800 s' [0]"
proof -
  have "(0x800 :: ptr) \<noteq> NULL" "unat (2 :: u32) \<le> length [demo_cr, demo_cr]" by simp_all
  from session_polling [OF demo_session_inv this] obtain crs' s' where
    "cdma_u_poll_jfc 0x800 2 [demo_cr, demo_cr] demo_cq_st = Some (int (min (unat (2 :: u32)) (length [0 :: nat, 1, 2])), crs', s')"
    "in_flight 0x200 s' = drop (retired (unat (2 :: u32)) [0, 1, 2]) (in_flight 0x200 demo_cq_st)"
    "session_inv 0x200 0x800 s' (owed (unat (2 :: u32)) [0, 1, 2])"
    "List.map cr_user_ctx (take (min (unat (2 :: u32)) (length [0 :: nat, 1, 2])) crs') = List.map ((!) (in_flight 0x200 demo_cq_st)) (take (unat (2 :: u32)) [0, 1, 2])"
    by blast
  moreover have "min (unat (2 :: u32)) (length [0 :: nat, 1, 2]) = 2" "take (unat (2 :: u32)) [0 :: nat, 1, 2] = [0, 1]"
    "retired (unat (2 :: u32)) [0, 1, 2] = 2" "owed (unat (2 :: u32)) [0, 1, 2] = [0]" by (simp_all add: retired_def owed_def)
  moreover have "List.map ((!) [0x77, 0x78, 0x79 :: u64]) [0, 1] = [0x77, 0x78]" "int 2 = 2" "drop 2 [0x77, 0x78, 0x79 :: u64] = [0x79]" by simp_all
  ultimately show ?thesis unfolding demo_in_flight by metis
qed

lemma demo_session_stream:
  "map_option (\<lambda>(bss, cs, r, bad, k). cs) (wr_stream (umem demo_cq_st) (jfs_sq (jfss demo_cq_st 0x200)) [demo_cas 8]) = Some [0x78, 0x78]"
  by code_simp

text \<open>An atomic is posted behind the three blocks in flight, then all three completions are polled.\<close>

lemma session_order_witness:
  "\<exists>us s' D. session 0x200 0x800 demo_cq_st [Posted [0x78, 0x78], Polled us] s' \<and> length us = 3
     \<and> [0x77, 0x78, 0x79, 0x78, 0x78] = D @ in_flight 0x200 s' \<and> subseq us D"
proof -
  have c: "(0x800 :: ptr) \<noteq> NULL" by simp
  obtain bss r bad k where str: "wr_stream (umem demo_cq_st) (jfs_sq (jfss demo_cq_st 0x200)) [demo_cas 8] = Some (bss, [0x78, 0x78], r, bad, k)"
    using demo_session_stream by auto
  have "sq_wf (jfs_sq (jfss demo_cq_st 0x200))" using demo_session_inv by (simp add: session_inv_def)
  from post_jfs_spec [OF this str] obtain s1 where p: "cdma_u_post_jfs_wr 0x200 [demo_cas 8] demo_cq_st = Some (r, bad, s1)" by blast
  have inv: "session_inv 0x200 0x800 s1 [0, 1, 2]" by (rule session_post [OF demo_session_inv p str])
  have l: "unat (5 :: u32) \<le> length (replicate 5 demo_cr)" by simp
  from session_poll [OF inv c l] obtain crs' s2 where
    q: "cdma_u_poll_jfc 0x800 5 (replicate 5 demo_cr) s1 = Some (int (min (unat (5 :: u32)) (length [0 :: nat, 1, 2])), crs', s2)"
    "List.map cr_user_ctx (take (min (unat (5 :: u32)) (length [0 :: nat, 1, 2])) crs') = List.map ((!) (in_flight 0x200 s1)) (take (unat (5 :: u32)) [0, 1, 2])"
    by blast
  let ?us = "List.map cr_user_ctx (take 3 crs')"
  have "session 0x200 0x800 demo_cq_st [Posted [0x78, 0x78], Polled (List.map cr_user_ctx (take (nat (int (min (unat (5 :: u32)) (length [0 :: nat, 1, 2])))) crs'))] s2"
    by (rule session_posts [OF str p session_polls [OF l q(1) session_nil]])
  then have run: "session 0x200 0x800 demo_cq_st [Posted [0x78, 0x78], Polled ?us] s2" by simp
  have "min (unat (5 :: u32)) (length [0 :: nat, 1, 2]) = 3" "take (unat (5 :: u32)) [0 :: nat, 1, 2] = [0, 1, 2]" by simp_all
  with q(2) have us: "?us = List.map ((!) (in_flight 0x200 s1)) [0, 1, 2]" by (simp only:)
  from session_order [OF run c demo_session_inv] obtain D where
    "in_flight 0x200 demo_cq_st @ [0x78, 0x78] = D @ in_flight 0x200 s2" "subseq ?us D" by auto
  then show ?thesis unfolding demo_in_flight using run us
    by (intro exI [of _ ?us] exI [of _ s2] exI [of _ D] conjI) (assumption, simp_all only: length_map us, simp_all)
qed

end
