(* ===== verification/Cdma_Lifetime.thy ===== *)
theory Cdma_Lifetime
  imports Cdma_Release Cdma_Session
begin

text \<open>
  The whole life of a queue: it is allocated, used in a session of posts, device writes and polls,
  and released. What a session changes is not among the resources of the queue, so the theorems on
  allocation, on sessions and on release compose.
\<close>

section \<open>Using a queue leaves its resources alone\<close>

definition jfs_fixed :: "cdma_u_jfs \<Rightarrow> cdma_u_jfs" where
  "jfs_fixed j = j\<lparr>jfs_sq := (jfs_sq j)\<lparr>qbuf_curr := 0, q_pi := 0, q_ci := 0, q_flush_flag := False\<rparr>\<rparr>"

definition use_frame :: "st \<Rightarrow> st \<Rightarrow> bool" where
  "use_frame s s' \<longleftrightarrow> live s' = live s \<and> jfs_frame s s'
     \<and> (\<forall>y. jfc_fixed (jfcs s' y) = jfc_fixed (jfcs s y)) \<and> (\<forall>y. jfs_fixed (jfss s' y) = jfs_fixed (jfss s y))"

lemma use_frame_refl [simp]: "use_frame s s"
  by (simp add: use_frame_def)

lemma use_frame_trans: "use_frame s s1 \<Longrightarrow> use_frame s1 s2 \<Longrightarrow> use_frame s s2"
  by (simp add: use_frame_def jfs_frame_def)

lemma use_frame_upd [simp]:
  "acquired e = {#} \<Longrightarrow> released e = {#} \<Longrightarrow> use_frame s (emit e s') = use_frame s s'"
  "use_frame s (s'\<lparr>cqes := a\<rparr>) = use_frame s s'" "use_frame s (s'\<lparr>wqebbs := b\<rparr>) = use_frame s s'"
  "use_frame s (s'\<lparr>wrids := c\<rparr>) = use_frame s s'" "use_frame s (s'\<lparr>swdbs := d\<rparr>) = use_frame s s'"
  by (simp_all add: use_frame_def jfs_frame_def live_simps)

lemma use_frame_sq:
  assumes "use_frame s s'" and "sq = (jfs_sq (jfss s' x))\<lparr>qbuf_curr := p, q_pi := i, q_ci := n, q_flush_flag := f\<rparr>"
  shows "use_frame s (s'\<lparr>jfss := (jfss s')(x := (jfss s' x)\<lparr>jfs_sq := sq\<rparr>)\<rparr>)"
  using assms by (simp add: use_frame_def jfs_frame_def jfs_fixed_def live_simps)

lemma use_frame_cq:
  assumes "use_frame s s'"
  shows "use_frame s (s'\<lparr>jfcs := (jfcs s')(x := (jfcs s' x)\<lparr>jfc_cq := (jfc_cq (jfcs s' x))\<lparr>q_ci := n\<rparr>\<rparr>)\<rparr>)"
proof -
  have "jfc_fixed ((jfcs s' x)\<lparr>jfc_cq := (jfc_cq (jfcs s' x))\<lparr>q_ci := n\<rparr>\<rparr>) = jfc_fixed (jfcs s' x)"
    by (simp add: jfc_fixed_def queue_buf_res_def)
  then show ?thesis using assms by (simp add: use_frame_def jfs_frame_def live_simps)
qed

text \<open>Posting.\<close>

lemma sq_unmoved: "\<exists>p i. sq = sq\<lparr>qbuf_curr := p, q_pi := i\<rparr>"
    "\<exists>p i. sq\<lparr>qbuf_curr := x, q_pi := y\<rparr> = sq\<lparr>qbuf_curr := p, q_pi := i\<rparr>"
  by (intro exI [of _ "qbuf_curr sq"] exI [of _ "q_pi sq"]) (simp, blast)

lemma pred_bind: "(\<And>x. m = Some x \<Longrightarrow> pred_option P (f x)) \<Longrightarrow> pred_option P (Option.bind m f)"
  by (cases m) simp_all

lemma pred_if: "(c \<Longrightarrow> pred_option P x) \<Longrightarrow> (\<not> c \<Longrightarrow> pred_option P y) \<Longrightarrow> pred_option P (if c then x else y)"
  by simp

lemma post_one_use:
  assumes "cdma_post_one_wr ctx sq wr a e s = Some (r, sq', a', e', s')"
  shows "use_frame s s' \<and> jfss s' = jfss s \<and> (\<exists>p i. sq' = sq\<lparr>qbuf_curr := p, q_pi := i\<rparr>)"
proof -
  have copy: "use_frame s (snd (cdma_copy_to_sq sq n t s)) \<and> jfss (snd (cdma_copy_to_sq sq n t s)) = jfss s" for n t
    by (simp add: cdma_copy_to_sq_def Let_def)
  have keep: "jfss (t\<lparr>wrids := m\<rparr>) = jfss t" for t m by simp
  have "pred_option (\<lambda>(r, sq', a', e', s'). use_frame s s' \<and> jfss s' = jfss s \<and> (\<exists>p i. sq' = sq\<lparr>qbuf_curr := p, q_pi := i\<rparr>))
      (cdma_post_one_wr ctx sq wr a e s)"
    unfolding cdma_post_one_wr_def Let_def split_beta
    by (intro pred_bind pred_if)
      (simp_all only: option.pred_inject fst_conv snd_conv sq_unmoved copy use_frame_refl use_frame_upd keep simp_thms)
  then show ?thesis using assms by simp
qed

lemma post_wrs_use:
  "post_wrs ctx sq wrs a e n s = Some (r, sq', a', e', s', bad, n') \<Longrightarrow>
     use_frame s s' \<and> jfss s' = jfss s \<and> (\<exists>p i. sq' = sq\<lparr>qbuf_curr := p, q_pi := i\<rparr>)"
proof (induction wrs arbitrary: sq a e n s)
  case Nil
  then show ?case by (auto simp: sq_unmoved)
next
  case (Cons w ws)
  then obtain r1 sq1 a1 e1 s1 where o: "cdma_post_one_wr ctx sq w a e s = Some (r1, sq1, a1, e1, s1)"
    and rest: "(if r1 \<noteq> 0 then Some (r1, sq1, a1, e1, s1, Some w, n) else post_wrs ctx sq1 ws a1 e1 (n + 1) s1)
      = Some (r, sq', a', e', s', bad, n')" by (auto simp: bind_eq_Some_conv)
  note f = post_one_use [OF o]
  show ?case
  proof (cases "r1 = 0")
    case True
    then have "use_frame s1 s' \<and> jfss s' = jfss s1 \<and> (\<exists>p i. sq' = sq1\<lparr>qbuf_curr := p, q_pi := i\<rparr>)" using Cons.IH rest by simp
    then show ?thesis using f use_frame_trans by fastforce
  next
    case False
    then show ?thesis using f rest by auto
  qed
qed

lemma post_jfs_use:
  assumes "cdma_u_post_jfs_wr jfs wrs s = Some (r, bad, s')"
  shows "use_frame s s'"
proof -
  obtain sq a e s1 s2 n where p: "post_wrs (jfs_dma_ctx (jfss s jfs)) (jfs_sq (jfss s jfs)) wrs NULL False 0 (emit (EvLock jfs) s)
      = Some (r, sq, a, e, s1, bad, n)"
    and s2: "s2 = emit (EvUnlock jfs) (if n = 0 then s1 else (let s1' = emit EvBarrierSt s1 in
       if n = 1 \<and> e \<and> q_pi sq - q_ci sq = 1 then cdma_write_dsqe (jfs_dma_ctx (jfss s jfs)) sq a s1' else cdma_update_sq_db sq s1'))"
    and s': "s' = s2\<lparr>jfss := (jfss s2)(jfs := (jfss s2 jfs)\<lparr>jfs_sq := sq\<rparr>)\<rparr>"
    using assms by (auto simp: cdma_u_post_jfs_wr_def cdma_post_sq_wr_def Let_def bind_eq_Some_conv)
  have "use_frame s (emit (EvLock jfs) s)" by simp
  with post_wrs_use [OF p] obtain x y where f: "use_frame s s1" "jfss s1 = jfss s" "sq = (jfs_sq (jfss s jfs))\<lparr>qbuf_curr := x, q_pi := y\<rparr>"
    using use_frame_trans by fastforce
  have "use_frame s s2" "jfss s2 = jfss s" using f
    by (simp_all add: s2 Let_def cdma_write_dsqe_def cdma_st64b_def mmio_memcpy_x64_def cdma_update_sq_db_def)
  moreover have "sq = (jfs_sq (jfss s2 jfs))\<lparr>qbuf_curr := x, q_pi := y, q_ci := q_ci sq, q_flush_flag := q_flush_flag sq\<rparr>"
    using f(3) calculation(2) by simp
  ultimately show ?thesis unfolding s' by (metis use_frame_sq)
qed

text \<open>Polling.\<close>

lemma set_sq_use:
  assumes "use_frame s s'"
  shows "use_frame s (set_sq q ((sq_at s' q)\<lparr>q_ci := n\<rparr>) s')" and "use_frame s (set_sq q ((sq_at s' q)\<lparr>q_flush_flag := f\<rparr>) s')"
proof -
  let ?q = "jfs_sq (jfss s' (q - 72))"
  note u = use_frame_sq [OF assms, where x = "q - 72" and p = "qbuf_curr ?q" and i = "q_pi ?q"]
  show "use_frame s (set_sq q ((sq_at s' q)\<lparr>q_ci := n\<rparr>) s')"
    unfolding set_sq_def sq_at_def by (rule u [where n = n and f = "q_flush_flag ?q"]) simp
  show "use_frame s (set_sq q ((sq_at s' q)\<lparr>q_flush_flag := f\<rparr>) s')"
    unfolding set_sq_def sq_at_def by (rule u [where n = "q_ci ?q" and f = f]) simp
qed

lemma poll_one_use:
  assumes "cdma_u_poll_one jfc cr s = Some (r, cr', s')"
  shows "use_frame s s'"
proof -
  have "use_frame s (emit EvBarrierLd (s\<lparr>jfcs := (jfcs s)(jfc := (jfcs s jfc)\<lparr>jfc_cq := (jfc_cq (jfcs s jfc))\<lparr>q_ci := n\<rparr>\<rparr>)\<rparr>))" for n
    using use_frame_cq [OF use_frame_refl] by simp
  moreover have "use_frame s (snd (snd (cdma_parse_cqe_for_jfc c cr t)))" if "use_frame s t" for c t
    using that by (simp add: cdma_parse_cqe_for_jfc_def cdma_u_update_jetty_idx_def cdma_u_update_flush_cr_def Let_def split_beta set_sq_use)
  ultimately have "use_frame s (snd (snd (cdma_parse_cqe_for_jfc c cr (emit EvBarrierLd (s\<lparr>jfcs := (jfcs s)(jfc :=
      (jfcs s jfc)\<lparr>jfc_cq := (jfc_cq (jfcs s jfc))\<lparr>q_ci := n\<rparr>\<rparr>)\<rparr>)))))" for c n by blast
  then show ?thesis using assms
    by (auto simp: cdma_u_poll_one_def Let_def bind_eq_Some_conv split_beta split: if_splits) (metis snd_conv)+
qed

lemma poll_loop_use: "poll_loop jfc k n crs s = Some (r, m, crs', s') \<Longrightarrow> use_frame s s'"
proof (induction k arbitrary: n crs s)
  case (Suc k)
  then show ?case
    by (auto simp: bind_eq_Some_conv split: if_splits dest!: poll_one_use intro: use_frame_trans)
qed simp

lemma poll_jfc_use:
  assumes "cdma_u_poll_jfc jfc cnt crs s = Some (n, crs', s')"
  shows "use_frame s s'"
proof (cases "jfc = NULL")
  case True
  then show ?thesis using assms by (simp add: cdma_u_poll_jfc_def)
next
  case False
  obtain r m s1 where p: "poll_loop jfc (unat cnt) 0 crs (emit (EvLock jfc) s) = Some (r, m, crs', s1)"
    and s': "s' = emit (EvUnlock jfc) (if m \<noteq> 0 then write_sw_db jfc s1 else s1)"
    using assms False by (auto simp: cdma_u_poll_jfc_def Let_def bind_eq_Some_conv)
  have "use_frame s (emit (EvLock jfc) s)" by simp
  then have "use_frame s s1" using poll_loop_use [OF p] use_frame_trans by blast
  then show ?thesis by (simp add: s' write_sw_db_def)
qed

lemma session_use: "session jfs jfc s es s' \<Longrightarrow> use_frame s s'"
proof (induction rule: session.induct)
  case (session_device m s js es s2)
  have "use_frame s (s\<lparr>cqes := m\<rparr>)" by simp
  then show ?case using session_device.IH use_frame_trans by blast
next
  case session_posts
  then show ?case using post_jfs_use use_frame_trans by blast
next
  case session_polls
  then show ?case using poll_jfc_use use_frame_trans by blast
qed simp

lemma use_frame_world:
  assumes f: "use_frame s s'"
  shows "with_pages k ctx (s', as) = with_pages k ctx (s, as)" and "db_bal (s', as) = db_bal (s, as)"
    and "queue_res k ctx (s', as) q = queue_res k ctx (s, as) q" and "queue_valid k ctx (s', as) q = queue_valid k ctx (s, as) q"
    and "jfs_cfg (jfss s' j) = jfs_cfg (jfss s j)" and "queues s' = queues s"
proof -
  have fr: "devs s' = devs s" "ctxs s' = ctxs s" "pages s' = pages s" "jfces s' = jfces s" "tps s' = tps s" "queues s' = queues s"
    "live s' = live s" using f by (simp_all add: use_frame_def jfs_frame_def)
  have "jfc_fixed (jfcs s' y) = jfc_fixed (jfcs s y)" for y using f by (simp add: use_frame_def)
  then have c: "jfc_dma_ctx (jfcs s' y) = jfc_dma_ctx (jfcs s y)" "jfc_id (jfcs s' y) = jfc_id (jfcs s y)"
    "sw_db (jfcs s' y) = sw_db (jfcs s y)" "queue_buf_res (jfc_cq (jfcs s' y)) = queue_buf_res (jfc_cq (jfcs s y))" for y
    by (simp_all add: jfc_fixed_def)
  have bufres: "queue_buf_res (q\<lparr>qbuf_curr := 0, q_pi := 0, q_ci := 0, q_flush_flag := False\<rparr>) = queue_buf_res q" for q
    by (simp add: queue_buf_res_def)
  have e: "jfs_fixed (jfss s' y) = jfs_fixed (jfss s y)" for y using f by (simp add: use_frame_def)
  have j: "jfs_cfg (jfss s' y) = jfs_cfg (jfss s y)" "jfs_id (jfss s' y) = jfs_id (jfss s y)" "jfs_dma_ctx (jfss s' y) = jfs_dma_ctx (jfss s y)"
    "q_db (jfs_sq (jfss s' y)) = q_db (jfs_sq (jfss s y))" "queue_buf_res (jfs_sq (jfss s' y)) = queue_buf_res (jfs_sq (jfss s y))" for y
    using arg_cong [OF e [of y], of jfs_cfg] arg_cong [OF e [of y], of jfs_id] arg_cong [OF e [of y], of jfs_dma_ctx]
      arg_cong [OF e [of y], of "\<lambda>j. q_db (jfs_sq j)"] arg_cong [OF e [of y], of "\<lambda>j. queue_buf_res (jfs_sq j)"]
    by (simp_all add: jfs_fixed_def bufres)
  have x: "ctx_fd s' = ctx_fd s" "ctx_dev s' = ctx_dev s" using fr by (simp_all add: fun_eq_iff ctx_fd_def ctx_dev_def)
  show "with_pages k ctx (s', as) = with_pages k ctx (s, as)" "db_bal (s', as) = db_bal (s, as)"
    using fr by (simp_all add: with_pages_def db_inv_def db_bal_def db_own_def pages_res_def db_used_def)
  show "queue_res k ctx (s', as) q = queue_res k ctx (s, as) q"
    using fr c j x by (simp add: queue_res_def parts_res_def comp_res_def jfce_res_def jfc_res_def jfc_own_def ctp_res_def jfs_own_def)
  show "queue_valid k ctx (s', as) q = queue_valid k ctx (s, as) q"
    using fr c j x by (simp add: queue_valid_def parts_valid_def comp_valid_def jfce_valid_def jfc_valid_def ctp_valid_def jfs_valid_def db_used_def)
  show "jfs_cfg (jfss s' j) = jfs_cfg (jfss s j)" by (rule j(1))
  show "queues s' = queues s" by (rule fr(6))
qed

section \<open>The life of a queue\<close>

lemma ready_session:
  assumes r: "ring_ready s jfs jfc n" and no: "\<not> cqe_new (s\<lparr>cqes := m\<rparr>) (jfc_cq (jfcs s jfc)) 0"
  shows "session_inv jfs jfc (s\<lparr>cqes := m\<rparr>) []" and "in_flight jfs (s\<lparr>cqes := m\<rparr>) = []"
  using assms by (simp_all add: ring_ready_def Let_def session_inv_def dev_ok_def sq_user_ctxs_def window_def)

lemma queue_used_freed:
  assumes ok: "sys_ok E k" "jfce_ok E" "mmap_room E" and so: "sync_ok E"
    and w: "with_pages k ctx (s, as)" and sz: "ring_sizes s ctx cfg"
    and run: "dma_alloc_queue E ctx (Some cfg) s = Some (q, s1)" "q \<noteq> NULL"
    and parts: "que_jfs (queues s1 q) = jfs" "que_jfc (queues s1 q) = jfc"
    and zero: "\<not> cqe_new (s1\<lparr>cqes := m\<rparr>) (jfc_cq (jfcs s1 jfc)) 0" and use: "session jfs jfc (s1\<lparr>cqes := m\<rparr>) es s2"
    and few: "length (polled_ctxs es) < 2 ^ 30"
  shows "\<exists>s3 as3 D. dma_free_queue E q s2 = Some s3 \<and> with_pages k ctx (s3, as3) \<and> db_bal (s3, as3) = db_bal (s, as)
     \<and> syncs s3 = syncs s + {#RMutex (jfc + 64), RCond (jfc + 104)#}
     \<and> posted_ctxs es = D @ in_flight jfs s2 \<and> subseq (polled_ctxs es) D"
proof -
  have c0: "ctx \<noteq> NULL" using run by (auto simp: dma_alloc_queue_def)
  from alloc_queue_returns [OF ok w sz c0] obtain p t where a: "cdma_alloc_queue E ctx cfg s = Some (p, t)"
    and rdy: "p \<noteq> NULL \<longrightarrow> ring_ready t (que_jfs (queues t p)) (que_jfc (queues t p)) (unat (qcfg_queue_depth cfg))" by blast
  have pt: "p = q" "t = s1" using run a c0 by (auto simp: dma_alloc_queue_def split: if_splits)
  from alloc_queue_spec [OF ok(1,2) c0 w a] run(2) obtain as1 where v: "queue_valid k ctx (s1, as1) q"
    and g: "gains k ctx (s, as) (queue_res k ctx (s1, as1) q) (s1, as1)" unfolding pt by auto
  have w1: "with_pages k ctx (s1, as1)" "db_bal (s1, as1) = db_bal (s, as) + queue_res k ctx (s1, as1) q"
    using g by (simp_all add: gains_def)
  have rr: "ring_ready s1 jfs jfc (unat (qcfg_queue_depth cfg))" using rdy run(2) parts unfolding pt by simp
  note st = ready_session [OF rr zero]
  have j0: "jfc \<noteq> NULL" using v parts by (simp add: queue_valid_def parts_valid_def comp_valid_def jfc_valid_def)
  from session_run [OF use j0 st(1)] obtain js' D where
    si: "session_inv jfs jfc s2 js'" and D: "posted_ctxs es = D @ in_flight jfs s2" "subseq (polled_ctxs es) D"
    and ci: "cq_ci jfc s2 = cq_ci jfc s1 + of_nat (length (polled_ctxs es))" unfolding st(2) by auto
  have "cq_ci jfc s1 = 0" using rr by (simp add: ring_ready_def Let_def)
  then have "unat (cq_ci jfc s2) < 2 ^ 30" using few unfolding ci by (simp add: unat_of_nat)
  then have safe: "cq_wf (jfc_cq (jfcs s2 jfc)) \<and> clean_safe (cq_ci jfc s2) (Suc (ring_cap (jfc_cq (jfcs s2 jfc))))"
    using si cq_wf_cap by (force simp: session_inv_def clean_safe_def)
  have f: "use_frame s1 s2" using session_use [OF use] use_frame_trans [of s1 "s1\<lparr>cqes := m\<rparr>" s2] by simp
  note u = use_frame_world [OF f]
  have "jfs_cfg_jfc (jfs_cfg (jfss s1 jfs)) = jfc" using rr by (simp add: ring_ready_def Let_def)
  then have "cleanable s2 (que_jfs (queues s2 q))" using safe parts(1) u(5,6) by (simp add: cleanable_def Let_def)
  moreover have "queue_res k ctx (s2, as1) q \<subseteq># db_bal (s2, as1)" unfolding u(2,3) w1(2) by simp
  ultimately obtain s3 as3 where fr: "dma_free_queue E q s2 = Some s3" "with_pages k ctx (s3, as3)" "db_bal (s3, as3) = db_bal (s, as)"
    using free_queue_ends [OF ok(1), of ctx s2 as1 q] w1 v unfolding u(1-4) by auto
  have "syncs s1 = syncs s + jfc_syncs jfc" using alloc_queue_syncs [OF so a] run(2) parts(2) unfolding pt by simp
  moreover have "syncs s2 = syncs s1" using f by (intro syncs_live) (simp add: use_frame_def)
  moreover have "syncs s3 = syncs s2" using fr(1) run(2) by (auto simp: dma_free_queue_def dest: free_queue_syncs split: if_splits)
  ultimately have "syncs s3 = syncs s + {#RMutex (jfc + 64), RCond (jfc + 104)#}" by (simp add: jfc_syncs_def)
  with fr D show ?thesis by blast
qed

text \<open>
  C2: a queue that was allocated (depth at most 2^20) can be used and released: after any session
  on its rings that starts with an empty completion ring and returns fewer than 2^30 completions,
  releasing it returns, and the process owns exactly what it owned before the allocation, except for
  the mutex \<open>event_mutex\<close> and the condition variable \<open>event_cond\<close> of the completion queue, which were
  initialised and are never destroyed (\<open>syncs\<close>; \<open>db_bal\<close> counts everything else). Every user context
  posted has left the queue in order or was still in flight, the ones returned by polling being in
  order among those that left.
\<close>

theorem queue_lifetime:
  assumes "sys_ok E k" "jfce_ok E" "mmap_room E" and "sync_ok E" and "with_pages k ctx (s, as)" and "ring_sizes s ctx cfg"
    and "dma_alloc_queue E ctx (Some cfg) s = Some (q, s1)" "q \<noteq> NULL"
    and "que_jfs (queues s1 q) = jfs" "que_jfc (queues s1 q) = jfc"
    and "\<not> cqe_new (s1\<lparr>cqes := m\<rparr>) (jfc_cq (jfcs s1 jfc)) 0" and "session jfs jfc (s1\<lparr>cqes := m\<rparr>) es s2"
    and "length (polled_ctxs es) < 2 ^ 30"
  shows "\<exists>s3 as3 D. dma_free_queue E q s2 = Some s3 \<and> with_pages k ctx (s3, as3) \<and> db_bal (s3, as3) = db_bal (s, as)
     \<and> syncs s3 = syncs s + {#RMutex (jfc + 64), RCond (jfc + 104)#}
     \<and> posted_ctxs es = D @ in_flight jfs s2 \<and> subseq (polled_ctxs es) D"
  by (rule queue_used_freed [OF assms])

section \<open>One life, evaluated\<close>

abbreviation demo_life_cq :: cdma_u_jetty_queue where
  "demo_life_cq \<equiv> zero_jetty_queue\<lparr>qbuf := 0x70000, qbuf_size := 4096, qbuf_curr := 0x70000,
       q_idx := 7, baseblk_shift := 6, baseblk_cnt := 64, baseblk_mask := 63\<rparr>"

lemma demo_alloc_sq:
  "map_option (\<lambda>(p, s1). let jfs = que_jfs (queues s1 p); jfc = que_jfc (queues s1 p); sq = jfs_sq (jfss s1 jfs) in
     (p, jfs, jfc, q_max_sge_num sq, baseblk_cnt sq, q_pi sq, q_ci sq, jfc_cq (jfcs s1 jfc), umem s1))
   (cdma_alloc_queue room_sys 0x40 demo_queue_cfg demo_queue_st)
   = Some (0x10000, 0x150000, 0x50000, 8, 64, 0, 0, demo_life_cq, \<lambda>_. 0)"
  by (simp add: Let_def eval_sys eval_zero eval_buf eval_jfc eval_jfs eval_queue cong: bind_weak_cong let_weak_cong)

lemma demo_life_stream:
  "map_option (\<lambda>(bss, cs, r, bad, k). (length bss, cs, r)) (wr_stream (\<lambda>_. 0)
     (demo_sq\<lparr>q_pi := 0, q_ci := 0, baseblk_cnt := 64, q_max_sge_num := 8\<rparr>) [demo_cas 8]) = Some (2, [0x78, 0x78], 0)"
  by code_simp

abbreviation demo_life_cqe :: cdma_u_jfc_cqe where
  "demo_life_cqe \<equiv> (demo_cqe 1 1 0)\<lparr>cqe_user_data0 := 0x150048\<rparr>"

lemma demo_life_dev:
  assumes "jfc_cq (jfcs t 0x50000) = demo_life_cq" and "cqes t = (\<lambda>_. zero_cqe)(0x70000 := demo_life_cqe)"
    and "ring_cap (jfs_sq (jfss t 0x150000)) = 64" and "q_ci (jfs_sq (jfss t 0x150000)) = 0"
    and "unat (q_pi (jfs_sq (jfss t 0x150000)) - q_ci (jfs_sq (jfss t 0x150000))) = 2"
  shows "dev_ok 0x150000 0x50000 t [1]"
proof -
  have e: "cdma_u_get_buf_entry demo_life_cq 0 = 0x70000" "cdma_u_get_buf_entry demo_life_cq 1 = 0x70040"
    "q_ci demo_life_cq = 0" by code_simp+
  have g: "cqe_good demo_life_cqe" "cqe_queue demo_life_cqe = 0x150000 + 72" "unat (cqe_entry_idx demo_life_cqe) = 1"
    "cqe_owner demo_life_cqe = 1" "cqe_owner zero_cqe = 0" by code_simp+
  have "cqe_at t demo_life_cq 0 = demo_life_cqe" "cqe_at t demo_life_cq 1 = zero_cqe" by (simp_all add: cqe_at_def e assms(2))
  moreover have "\<not> lap_odd demo_life_cq 0" "\<not> lap_odd demo_life_cq 1" by (simp_all add: lap_odd_def ring_cap_def)
  ultimately show ?thesis
    unfolding dev_ok_def Let_def assms(1) e(3) using g assms(3-5) by (simp add: cqe_new_def)
qed

text \<open>An atomic of two blocks is posted, the device completes it, the completion is polled, the queue is freed.\<close>

lemma queue_lifetime_witness:
  "\<exists>s1 s2 s3 as3. dma_alloc_queue room_sys 0x40 (Some demo_queue_cfg) demo_queue_st = Some (0x10000, s1)
     \<and> session 0x150000 0x50000 (s1\<lparr>cqes := \<lambda>_. zero_cqe\<rparr>) [Posted [0x78, 0x78], Polled [0x78]] s2
     \<and> dma_free_queue room_sys 0x10000 s2 = Some s3 \<and> db_bal (s3, as3) = db_bal (demo_queue_st, [])
     \<and> syncs s3 = syncs demo_queue_st + {#RMutex 0x50040, RCond 0x50068#}"
proof -
  let ?j = "0x150000 :: ptr" let ?c = "0x50000 :: ptr"
  let ?cq = demo_life_cq
  have c: "(0x40 :: ptr) \<noteq> NULL" "?c \<noteq> NULL" "(0x10000 :: ptr) \<noteq> NULL" by simp_all
  obtain s1 where run: "cdma_alloc_queue room_sys 0x40 demo_queue_cfg demo_queue_st = Some (0x10000, s1)"
    and p: "que_jfs (queues s1 0x10000) = ?j" "que_jfc (queues s1 0x10000) = ?c"
    and q: "q_max_sge_num (jfs_sq (jfss s1 ?j)) = 8" "baseblk_cnt (jfs_sq (jfss s1 ?j)) = 64" "q_pi (jfs_sq (jfss s1 ?j)) = 0"
      "q_ci (jfs_sq (jfss s1 ?j)) = 0" "jfc_cq (jfcs s1 ?c) = ?cq" "umem s1 = (\<lambda>_. 0)"
    using demo_alloc_sq by (auto simp: Let_def)
  then have run': "dma_alloc_queue room_sys 0x40 (Some demo_queue_cfg) demo_queue_st = Some (0x10000, s1)"
    by (simp add: dma_alloc_queue_def)
  have rr: "ring_ready s1 ?j ?c 16"
    using alloc_queue_returns [OF room_sys_ok demo_queue_pages demo_queue_sizes c(1)] run p c(3) by (auto simp: zero_queue_cfg_def)
  let ?s1 = "s1\<lparr>cqes := \<lambda>_. zero_cqe\<rparr>"
  have zero: "\<not> cqe_new ?s1 (jfc_cq (jfcs s1 ?c)) 0" by (simp add: cqe_new_def cqe_at_def zero_cqe_def lap_odd_def)
  note i1 = ready_session [OF rr zero]
  obtain bss r bad k where str: "wr_stream (umem ?s1) (jfs_sq (jfss ?s1 ?j)) [demo_cas 8] = Some (bss, [0x78, 0x78], r, bad, k)" "length bss = 2"
    using demo_life_stream wr_stream_cong [of "jfs_sq (jfss s1 ?j)" "demo_sq\<lparr>q_pi := 0, q_ci := 0, baseblk_cnt := 64, q_max_sge_num := 8\<rparr>"
        "\<lambda>_. 0" "[demo_cas 8]"] q by auto
  have wf: "sq_wf (jfs_sq (jfss ?s1 ?j))" using i1(1) by (simp add: session_inv_def)
  from post_jfs_spec [OF wf str(1)] obtain t where post: "cdma_u_post_jfs_wr ?j [demo_cas 8] ?s1 = Some (r, bad, t)" by blast
  with post_jfs_spec [OF wf str(1)] have ci: "q_ci (jfs_sq (jfss t ?j)) = 0" using q by (simp add: Let_def)
  note i2 = session_post [OF i1(1) post str(1)]
  have fl: "in_flight ?j t = [0x78, 0x78]" using i2(1) i1(2) by simp
  have tc: "jfc_cq (jfcs t ?c) = ?cq" using i2(5) q by simp
  have cap: "ring_cap (jfs_sq (jfss t ?j)) = 64" using post_jfs_cnt [OF wf post] q by (simp add: ring_cap_def)
  have "length (in_flight ?j t) = unat (q_pi (jfs_sq (jfss t ?j)) - q_ci (jfs_sq (jfss t ?j)))" by (simp add: sq_user_ctxs_def)
  then have n: "unat (q_pi (jfs_sq (jfss t ?j)) - q_ci (jfs_sq (jfss t ?j))) = 2" unfolding fl by simp
  let ?t = "t\<lparr>cqes := (\<lambda>_. zero_cqe)(0x70000 := demo_life_cqe)\<rparr>"
  have dev: "dev_ok ?j ?c ?t [1]" using tc cap n ci by (intro demo_life_dev) simp_all
  have i3: "session_inv ?j ?c ?t [1]" using i2(2) dev by (simp add: session_inv_def)
  have l: "unat (1 :: u32) \<le> length [demo_cr]" by simp
  from session_poll [OF i3 c(2) l] obtain crs' s2 where poll: "cdma_u_poll_jfc ?c 1 [demo_cr] ?t = Some (int 1, crs', s2)"
    and u: "List.map cr_user_ctx (take 1 crs') = [0x78]" using fl by (auto simp: sq_user_ctxs_def)
  have use: "session ?j ?c ?s1 [Posted [0x78, 0x78], Polled [0x78]] s2"
    using session_posts [OF str(1) post session_device [OF dev session_polls [OF l poll session_nil]]] u by simp
  have few: "length (polled_ctxs [Posted [0x78, 0x78], Polled [0x78]]) < 2 ^ 30" by simp
  from queue_lifetime [OF room_sys_ok room_sys_sync demo_queue_pages demo_queue_sizes run' c(3) p zero use few] show ?thesis
    using run' use by auto
qed

end
