(* ===== verification/Cdma_Log.thy ===== *)
theory Cdma_Log
  imports Cdma_Prelude
begin

text \<open>
  Logging (\<open>cdma_u_log.c\<close>): the level of the process, the messages, and the rate limiter that all
  threads share.
\<close>

section \<open>Levels\<close>

datatype cdma_log_level =
    CDMA_VLOG_LEVEL_EMERG | CDMA_VLOG_LEVEL_ALERT | CDMA_VLOG_LEVEL_CRIT | CDMA_VLOG_LEVEL_ERR
  | CDMA_VLOG_LEVEL_WARNING | CDMA_VLOG_LEVEL_NOTICE | CDMA_VLOG_LEVEL_INFO | CDMA_VLOG_LEVEL_DEBUG
  | CDMA_VLOG_LEVEL_MAX

fun level_num :: "cdma_log_level \<Rightarrow> nat" where
  "level_num CDMA_VLOG_LEVEL_EMERG = 0"
| "level_num CDMA_VLOG_LEVEL_ALERT = 1"
| "level_num CDMA_VLOG_LEVEL_CRIT = 2"
| "level_num CDMA_VLOG_LEVEL_ERR = 3"
| "level_num CDMA_VLOG_LEVEL_WARNING = 4"
| "level_num CDMA_VLOG_LEVEL_NOTICE = 5"
| "level_num CDMA_VLOG_LEVEL_INFO = 6"
| "level_num CDMA_VLOG_LEVEL_DEBUG = 7"
| "level_num CDMA_VLOG_LEVEL_MAX = 8"

instantiation cdma_log_level :: linorder
begin

definition less_eq_cdma_log_level :: "cdma_log_level \<Rightarrow> cdma_log_level \<Rightarrow> bool" where
  "less_eq_cdma_log_level x y \<longleftrightarrow> level_num x \<le> level_num y"

definition less_cdma_log_level :: "cdma_log_level \<Rightarrow> cdma_log_level \<Rightarrow> bool" where
  "less_cdma_log_level x y \<longleftrightarrow> level_num x < level_num y"

instance
proof
  fix x y :: cdma_log_level
  show "x \<le> y \<Longrightarrow> y \<le> x \<Longrightarrow> x = y"
    by (cases x; cases y) (simp_all add: less_eq_cdma_log_level_def)
qed (auto simp: less_eq_cdma_log_level_def less_cdma_log_level_def)

end

definition cdma_log_drop :: "cdma_log_level \<Rightarrow> cdma_log_level \<Rightarrow> bool" where
  "cdma_log_drop g_level level \<longleftrightarrow> level > g_level"

text \<open>\<open>strcasecmp\<close> in the C locale: letters A to Z are taken as a to z.\<close>

definition to_lower :: "char \<Rightarrow> char" where
  "to_lower c = (if 65 \<le> (of_char c :: nat) \<and> (of_char c :: nat) \<le> 90 then char_of ((of_char c :: nat) + 32) else c)"

definition strcaseeq :: "string \<Rightarrow> string \<Rightarrow> bool" where
  "strcaseeq x y \<longleftrightarrow> List.map to_lower x = List.map to_lower y"

definition cdma_log_get_level :: "string option \<Rightarrow> cdma_log_level" where
  "cdma_log_get_level level_string =
     (case level_string of None \<Rightarrow> CDMA_VLOG_LEVEL_MAX
      | Some l \<Rightarrow>
          if strcaseeq l ''fatal'' then CDMA_VLOG_LEVEL_CRIT
          else if strcaseeq l ''error'' then CDMA_VLOG_LEVEL_ERR
          else if strcaseeq l ''warning'' then CDMA_VLOG_LEVEL_WARNING
          else if strcaseeq l ''info'' then CDMA_VLOG_LEVEL_INFO
          else if strcaseeq l ''debug'' then CDMA_VLOG_LEVEL_DEBUG
          else CDMA_VLOG_LEVEL_MAX)"

section \<open>Messages\<close>

text \<open>
  The header of a message is put before the format of the caller, then the whole is formatted.
  \<open>vfmt\<close> is the C library's \<open>vsnprintf\<close> on the caller's arguments: the format and the size of the
  buffer to its result and the contents of the buffer.
\<close>

fun dec_digits :: "nat \<Rightarrow> string" where
  "dec_digits n = (if n < 10 then [char_of (48 + n)] else dec_digits (n div 10) @ [char_of (48 + n mod 10)])"

definition dec :: "int \<Rightarrow> string" where
  "dec i = (if i < 0 then ''-'' @ dec_digits (nat (- i)) else dec_digits (nat i))"

abbreviation (input) MAX_LOG_LEN :: nat where "MAX_LOG_LEN \<equiv> 512"

datatype log_out = Syslog int string | Stdout string

definition cdma_default_log_func :: "int \<Rightarrow> string \<Rightarrow> log_out" where
  "cdma_default_log_func level message = Syslog level message"

definition log_head :: "string \<Rightarrow> int \<Rightarrow> string" where
  "log_head function line = ''CDMA_LOG_TAG|'' @ function @ ''['' @ dec line @ '']|''"

definition cdma_vlog ::
  "(string \<Rightarrow> nat \<Rightarrow> int \<times> string) \<Rightarrow> string \<Rightarrow> int \<Rightarrow> cdma_log_level \<Rightarrow> string \<Rightarrow> int \<times> log_out list" where
  "cdma_vlog vfmt function line level format =
     (let whole = log_head function line @ format;
          ret = int (length whole);
          newformat = take (MAX_LOG_LEN - 1) whole
      in if ret \<le> 0 \<or> ret \<ge> int MAX_LOG_LEN + 1 then (ret, [])
         else (let (ret, logmsg) = vfmt newformat MAX_LOG_LEN in
           if ret = - 1 then (ret, [Stdout (''logmsg size exceeds MAX_LOG_LEN size: '' @ dec (int MAX_LOG_LEN))])
           else (ret, [cdma_default_log_func (int (level_num level)) logmsg])))"

definition cdma_log ::
  "(string \<Rightarrow> nat \<Rightarrow> int \<times> string) \<Rightarrow> string \<Rightarrow> int \<Rightarrow> cdma_log_level \<Rightarrow> string \<Rightarrow> log_out list" where
  "cdma_log vfmt function line level format = snd (cdma_vlog vfmt function line level format)"

text \<open>The macro \<open>CDMA_LOG\<close>.\<close>

definition log_macro ::
  "(string \<Rightarrow> nat \<Rightarrow> int \<times> string) \<Rightarrow> cdma_log_level \<Rightarrow> string \<Rightarrow> int \<Rightarrow> cdma_log_level \<Rightarrow> string \<Rightarrow> log_out list" where
  "log_macro vfmt g_level function line level format =
     (if \<not> cdma_log_drop g_level level then cdma_log vfmt function line level format else [])"

section \<open>The level of the process\<close>

definition g_cdma_log_level :: cdma_log_level where
  "g_cdma_log_level = CDMA_VLOG_LEVEL_INFO"

text \<open>
  The environment variable and the level before; the results are the level after and what is logged.
  \<open>vsn args\<close> is \<open>vsnprintf\<close> on the arguments of a message, which are strings here.
\<close>

definition cdma_getenv_log_level ::
  "(string list \<Rightarrow> string \<Rightarrow> nat \<Rightarrow> int \<times> string) \<Rightarrow> string option \<Rightarrow> cdma_log_level \<Rightarrow> cdma_log_level \<times> log_out list" where
  "cdma_getenv_log_level vsn level_str g_level =
     (case level_str of None \<Rightarrow> (g_level, [])
      | Some l \<Rightarrow>
          if length l \<ge> 32
          then (g_level, log_macro (vsn []) g_level ''cdma_getenv_log_level'' 94 CDMA_VLOG_LEVEL_ERR
                  (''invalid parameter: log level str'' @ [CHR 0x0A]))
          else (let log_level = cdma_log_get_level (Some l)
                in (if log_level \<noteq> CDMA_VLOG_LEVEL_MAX then log_level else g_level, [])))"

text \<open>The constructor and the destructor of the library.\<close>

definition cdma_log_init ::
  "(string list \<Rightarrow> string \<Rightarrow> nat \<Rightarrow> int \<times> string) \<Rightarrow> string option \<Rightarrow> cdma_log_level \<times> log_out list" where
  "cdma_log_init vsn level_str =
     (let (level, out) = cdma_getenv_log_level vsn level_str g_cdma_log_level in
      (level, out @ log_macro (vsn [''1.0.2'']) level ''cdma_log_init'' 145 CDMA_VLOG_LEVEL_INFO
                      (''cdma version %s'' @ [CHR 0x0A])))"

definition cdma_log_uninit :: "cdma_log_level \<Rightarrow> cdma_log_level" where
  "cdma_log_uninit level = level"

text \<open>
  Whatever the environment holds, the level the library starts with is one that can be asked for by
  name; it lets every message of level CRIT or above through.
\<close>

lemma log_init_level:
  "fst (cdma_log_init vsn level_str) \<in> {CDMA_VLOG_LEVEL_CRIT, CDMA_VLOG_LEVEL_ERR, CDMA_VLOG_LEVEL_WARNING,
     CDMA_VLOG_LEVEL_INFO, CDMA_VLOG_LEVEL_DEBUG}"
  by (simp add: cdma_log_init_def cdma_getenv_log_level_def g_cdma_log_level_def cdma_log_get_level_def Let_def split: option.split)

lemma log_init_critical:
  assumes "level \<le> CDMA_VLOG_LEVEL_CRIT"
  shows "\<not> cdma_log_drop (fst (cdma_log_init vsn level_str)) level"
proof -
  have "CDMA_VLOG_LEVEL_CRIT \<le> fst (cdma_log_init vsn level_str)"
    using log_init_level [of vsn level_str] by (auto simp: less_eq_cdma_log_level_def)
  with assms show ?thesis by (simp add: cdma_log_drop_def)
qed

section \<open>The rate limiter\<close>

text \<open>
  \<open>struct cdma_log_rl_state\<close>: the second the window began and the messages counted in it; the
  counter is an atomic C \<open>int\<close>, whose \<open>fetch_add\<close> wraps.
\<close>

abbreviation (input) CDMA_LOG_RATE_BURST :: int where "CDMA_LOG_RATE_BURST \<equiv> 5"
abbreviation (input) CDMA_LOG_RATE_INTERVAL_SEC :: int where "CDMA_LOG_RATE_INTERVAL_SEC \<equiv> 5"

record cdma_log_rl_state =
  window_start :: int
  rl_count :: "32 word"

text \<open>
  A call of \<open>cdma_log_ratelimit\<close> by where it stands: before \<open>clock_gettime\<close>, before an
  \<open>atomic_load\<close> of the window, before the compare-and-exchange (with what was loaded), before
  the \<open>atomic_store\<close> of a winner, before the \<open>atomic_fetch_add\<close>, and returned. One step is one
  access to the shared state; \<open>clock\<close> is what the clock shows in that step, None a failure.
\<close>

datatype rl_pc = RlStart | RlLoad int | RlCas int int | RlStore | RlCount | RlDone bool

datatype rl_event = RlTau | RlNoClock | RlWin | RlGrant | RlDeny

definition rl_expired :: "int \<Rightarrow> int \<Rightarrow> bool" where
  "rl_expired now window \<longleftrightarrow> now - window < 0 \<or> now - window \<ge> CDMA_LOG_RATE_INTERVAL_SEC"

fun rl_step :: "int option \<Rightarrow> rl_pc \<Rightarrow> cdma_log_rl_state \<Rightarrow> rl_event \<times> rl_pc \<times> cdma_log_rl_state" where
  "rl_step clock RlStart s =
     (case clock of None \<Rightarrow> (RlNoClock, RlDone True, s) | Some now \<Rightarrow> (RlTau, RlLoad now, s))"
| "rl_step clock (RlLoad now) s =
     (RlTau, if rl_expired now (window_start s) then RlCas now (window_start s) else RlCount, s)"
| "rl_step clock (RlCas now window) s =
     (if window_start s = window then (RlWin, RlStore, s\<lparr>window_start := now\<rparr>) else (RlTau, RlLoad now, s))"
| "rl_step clock RlStore s = (RlGrant, RlDone True, s\<lparr>rl_count := 1\<rparr>)"
| "rl_step clock RlCount s =
     (let ok = sint (rl_count s) < CDMA_LOG_RATE_BURST
      in (if ok then RlGrant else RlDeny, RlDone ok, s\<lparr>rl_count := rl_count s + 1\<rparr>))"
| "rl_step clock (RlDone b) s = (RlTau, RlStart, s)"

text \<open>A call that no other thread disturbs.\<close>

definition cdma_log_ratelimit :: "int option \<Rightarrow> cdma_log_rl_state \<Rightarrow> bool \<times> cdma_log_rl_state" where
  "cdma_log_ratelimit clock s =
     (case clock of None \<Rightarrow> (True, s)
      | Some now \<Rightarrow>
          if rl_expired now (window_start s) then (True, s\<lparr>window_start := now, rl_count := 1\<rparr>)
          else (sint (rl_count s) < CDMA_LOG_RATE_BURST, s\<lparr>rl_count := rl_count s + 1\<rparr>))"

text \<open>The macro \<open>CDMA_LOG_RL\<close>, for a thread alone: the message is counted before its level is looked at.\<close>

definition log_rl_macro ::
  "(string \<Rightarrow> nat \<Rightarrow> int \<times> string) \<Rightarrow> cdma_log_level \<Rightarrow> int option \<Rightarrow> string \<Rightarrow> int \<Rightarrow> cdma_log_level \<Rightarrow> string
     \<Rightarrow> cdma_log_rl_state \<Rightarrow> log_out list \<times> cdma_log_rl_state" where
  "log_rl_macro vfmt g_level clock function line level format s =
     (let (ok, s') = cdma_log_ratelimit clock s in
      (if ok \<and> \<not> cdma_log_drop g_level level then cdma_log vfmt function line level format else [], s'))"

text \<open>
  The threads run interleaved; a thread that has returned may call again. \<open>rl_exec\<close> runs a given
  schedule of threads and clocks.
\<close>

type_synonym rl_sys = "(nat \<Rightarrow> rl_pc) \<times> cdma_log_rl_state"

inductive rl_run :: "rl_sys \<Rightarrow> (nat \<times> int option \<times> rl_event) list \<Rightarrow> rl_sys \<Rightarrow> bool" where
  rl_nil: "rl_run x [] x"
| rl_cons: "rl_step clock (pcs i) s = (e, pc', s') \<Longrightarrow> rl_run (pcs(i := pc'), s') es y
     \<Longrightarrow> rl_run (pcs, s) ((i, clock, e) # es) y"

fun rl_exec :: "(nat \<times> int option) list \<Rightarrow> rl_sys \<Rightarrow> (nat \<times> int option \<times> rl_event) list \<times> rl_sys" where
  "rl_exec [] x = ([], x)"
| "rl_exec ((i, clock) # sched) (pcs, s) =
     (let (e, pc', s') = rl_step clock (pcs i) s; (es, y) = rl_exec sched (pcs(i := pc'), s')
      in ((i, clock, e) # es, y))"

lemma rl_exec_run: "rl_run x (fst (rl_exec sched x)) (snd (rl_exec sched x))"
proof (induction sched arbitrary: x)
  case Nil
  then show ?case by (simp add: rl_nil)
next
  case (Cons a sched)
  obtain i clock pcs s where a: "a = (i, clock)" and x: "x = (pcs, s)" by (cases a; cases x) simp
  obtain e pc' s' where st: "rl_step clock (pcs i) s = (e, pc', s')" by (cases "rl_step clock (pcs i) s") simp
  have "rl_run (pcs, s) ((i, clock, e) # fst (rl_exec sched (pcs(i := pc'), s'))) (snd (rl_exec sched (pcs(i := pc'), s')))"
    by (rule rl_cons [where pc' = pc' and s' = s']) (rule st, rule Cons.IH)
  then show ?case by (simp add: a x st split_beta)
qed

definition rl_init :: cdma_log_rl_state where
  "rl_init = \<lparr>window_start = 0, rl_count = 0\<rparr>"

definition rl_num :: "rl_event \<Rightarrow> (nat \<times> int option \<times> rl_event) list \<Rightarrow> nat" where
  "rl_num e es = length (filter (\<lambda>(_, _, e'). e' = e) es)"

lemma rl_num_simps [simp]:
  "rl_num e [] = 0" "rl_num e ((i, c, e') # es) = (if e' = e then 1 else 0) + rl_num e es"
  by (simp_all add: rl_num_def)

lemma rl_run_append: "rl_run x es y \<Longrightarrow> rl_run y fs z \<Longrightarrow> rl_run x (es @ fs) z"
  by (induction rule: rl_run.induct) (auto intro: rl_run.intros)

lemma rl_num_append [simp]: "rl_num e (es @ fs) = rl_num e es + rl_num e fs"
  by (simp add: rl_num_def)

text \<open>A step returns true, letting its message pass, in the two events counted here.\<close>

definition rl_passed :: "(nat \<times> int option \<times> rl_event) list \<Rightarrow> nat" where
  "rl_passed es = rl_num RlGrant es + rl_num RlNoClock es"

lemma rl_step_passes: "rl_step clock pc s = (e, pc', s') \<Longrightarrow> pc' = RlDone True \<longleftrightarrow> e = RlGrant \<or> e = RlNoClock"
  by (cases pc) (auto simp: Let_def split: option.splits if_splits)

lemma rl_step_refuses: "rl_step clock pc s = (e, pc', s') \<Longrightarrow> pc' = RlDone False \<longleftrightarrow> e = RlDeny"
  by (cases pc) (auto simp: Let_def split: option.splits if_splits)

subsection \<open>One thread\<close>

text \<open>\<open>rl_alone\<close> runs one call for at most \<open>k\<close> accesses, until it returns.\<close>

fun rl_alone :: "nat \<Rightarrow> int option \<Rightarrow> rl_pc \<Rightarrow> cdma_log_rl_state \<Rightarrow> rl_pc \<times> cdma_log_rl_state" where
  "rl_alone 0 clock pc s = (pc, s)"
| "rl_alone (Suc k) clock pc s =
     (case pc of RlDone b \<Rightarrow> (pc, s)
      | _ \<Rightarrow> (let (_, pc', s') = rl_step clock pc s in rl_alone k clock pc' s'))"

text \<open>A call that no other thread disturbs takes at most four accesses and is the sequential function.\<close>

lemma rl_alone_call:
  "rl_alone 4 clock RlStart s =
     (RlDone (fst (cdma_log_ratelimit clock s)), snd (cdma_log_ratelimit clock s))"
  by (cases clock) (simp_all add: numeral_eq_Suc cdma_log_ratelimit_def Let_def)

fun rl_calls :: "int list \<Rightarrow> cdma_log_rl_state \<Rightarrow> bool list \<times> cdma_log_rl_state" where
  "rl_calls [] s = ([], s)"
| "rl_calls (t # ts) s =
     (let (b, s1) = cdma_log_ratelimit (Some t) s; (bs, s2) = rl_calls ts s1 in (b # bs, s2))"

lemma rl_calls_in_window:
  assumes "\<forall>t\<in>set ts. w \<le> t \<and> t < w + 5" and "window_start s = w"
    and "rl_count s = of_nat n" and "n + length ts < 2147483648"
  shows "rl_calls ts s =
     (map (\<lambda>i. n + i < 5) [0..<length ts], s\<lparr>rl_count := of_nat (n + length ts)\<rparr>)"
  using assms
proof (induction ts arbitrary: s n)
  case Nil
  then show ?case by (cases s) simp
next
  case (Cons t ts)
  have "sint (of_nat n :: 32 word) = int n"
    using Cons.prems(4) by (subst signed_of_nat) (simp add: signed_take_bit_int_eq_self)
  then have one: "cdma_log_ratelimit (Some t) s = (n < 5, s\<lparr>rl_count := of_nat (Suc n)\<rparr>)"
    using Cons.prems by (simp add: cdma_log_ratelimit_def rl_expired_def add.commute)
  have "rl_calls ts (s\<lparr>rl_count := of_nat (Suc n)\<rparr>) = (map (\<lambda>i. Suc n + i < 5) [0..<length ts],
      s\<lparr>rl_count := of_nat (Suc n)\<rparr>\<lparr>rl_count := of_nat (Suc n + length ts)\<rparr>)"
    by (rule Cons.IH) (use Cons.prems in auto)
  moreover have "map (\<lambda>i. n + i < 5) [0..<length (t # ts)] = (n < 5) # map (\<lambda>i. Suc n + i < 5) [0..<length ts]"
    by (simp add: map_upt_Suc del: upt_Suc)
  ultimately show ?case by (simp add: one del: upt_Suc)
qed

text \<open>
  C39: with one thread the limiter does what its comment says: a call whose window has run out, or
  whose clock went back, is let through and starts a new window; of it and the calls in the
  five seconds that follow exactly the first five are let through.
\<close>

theorem ratelimit_burst:
  assumes "rl_expired t (window_start s)" and "\<forall>t'\<in>set ts. t \<le> t' \<and> t' < t + CDMA_LOG_RATE_INTERVAL_SEC"
    and "length ts < 2147483647"
  shows "fst (rl_calls (t # ts) s) = map (\<lambda>i. i < 5) [0..<Suc (length ts)]
     \<and> window_start (snd (rl_calls (t # ts) s)) = t"
proof -
  have "cdma_log_ratelimit (Some t) s = (True, s\<lparr>window_start := t, rl_count := of_nat 1\<rparr>)"
    using assms(1) by (simp add: cdma_log_ratelimit_def)
  moreover have "rl_calls ts (s\<lparr>window_start := t, rl_count := of_nat 1\<rparr>) = (map (\<lambda>i. 1 + i < 5) [0..<length ts],
      s\<lparr>window_start := t, rl_count := of_nat 1\<rparr>\<lparr>rl_count := of_nat (1 + length ts)\<rparr>)"
    by (rule rl_calls_in_window) (use assms in auto)
  ultimately show ?thesis by (simp add: map_upt_Suc del: upt_Suc of_nat_1)
qed

lemma ratelimit_burst_witness:
  "fst (rl_calls [100, 100, 101, 102, 104, 104, 104] rl_init) = [True, True, True, True, True, False, False]"
  using ratelimit_burst [of 100 rl_init "[100, 101, 102, 104, 104, 104]"]
  by (simp add: rl_expired_def rl_init_def upt_conv_Cons)

subsection \<open>Progress\<close>

text \<open>
  What a call still has to do when nobody interferes. A new window of another thread costs it at most
  two more accesses: a failed compare-and-exchange and another load.
\<close>

fun rl_todo :: "rl_pc \<Rightarrow> cdma_log_rl_state \<Rightarrow> nat" where
  "rl_todo RlStart s = 4"
| "rl_todo (RlLoad now) s = 3"
| "rl_todo (RlCas now w) s = (if window_start s = w then 2 else 4)"
| "rl_todo RlStore s = 1"
| "rl_todo RlCount s = 1"
| "rl_todo (RlDone b) s = 0"

definition rl_steps_of :: "nat \<Rightarrow> (nat \<times> int option \<times> rl_event) list \<Rightarrow> nat" where
  "rl_steps_of i es = length (filter (\<lambda>(j, _, _). j = i) es)"

definition rl_others_win :: "nat \<Rightarrow> (nat \<times> int option \<times> rl_event) list \<Rightarrow> nat" where
  "rl_others_win i es = length (filter (\<lambda>(j, _, e). j \<noteq> i \<and> e = RlWin) es)"

lemma rl_of_simps [simp]:
  "rl_steps_of i [] = 0" "rl_steps_of i ((j, c, e) # es) = (if j = i then 1 else 0) + rl_steps_of i es"
  "rl_others_win i [] = 0" "rl_others_win i ((j, c, e) # es) = (if j \<noteq> i \<and> e = RlWin then 1 else 0) + rl_others_win i es"
  by (simp_all add: rl_steps_of_def rl_others_win_def)

lemma rl_todo_step:
  assumes "rl_step clock pc s = (e, pc', s')"
  shows "(\<forall>b. pc \<noteq> RlDone b) \<Longrightarrow> Suc (rl_todo pc' s') \<le> rl_todo pc s"
    and "rl_todo qc s' \<le> rl_todo qc s + (if e = RlWin then 2 else 0)"
proof -
  show "(\<forall>b. pc \<noteq> RlDone b) \<Longrightarrow> Suc (rl_todo pc' s') \<le> rl_todo pc s"
    using assms by (cases pc) (auto simp: Let_def split: option.splits if_splits)
  have "e = RlWin \<or> window_start s' = window_start s"
    using assms by (cases pc) (auto simp: Let_def split: option.splits if_splits)
  then show "rl_todo qc s' \<le> rl_todo qc s + (if e = RlWin then 2 else 0)" by (cases qc) auto
qed

lemma rl_returns:
  assumes "rl_run x es y" and "rl_todo (fst x i) (snd x) + 2 * rl_others_win i es \<le> rl_steps_of i es"
  shows "\<exists>es1 es2 pcs' s' b. es = es1 @ es2 \<and> rl_run x es1 (pcs', s') \<and> pcs' i = RlDone b \<and> rl_run (pcs', s') es2 y"
  using assms
proof (induction rule: rl_run.induct)
  case (rl_nil x)
  then have "rl_todo (fst x i) (snd x) = 0" by simp
  then obtain b where "fst x i = RlDone b" by (cases "fst x i") (auto split: if_splits)
  then show ?case by (intro exI [of _ "[]"] exI [of _ "fst x"] exI [of _ "snd x"]) (auto intro: rl_run.rl_nil)
next
  case (rl_cons clock pcs j s e pc' s' es y)
  show ?case
  proof (cases "\<exists>b. pcs i = RlDone b")
    case True
    then obtain b where "pcs i = RlDone b" by blast
    then show ?thesis using rl_run.rl_cons [where pcs = pcs and i = j, OF rl_cons.hyps]
      by (intro exI [of _ "[]"] exI [of _ "(j, clock, e) # es"] exI [of _ pcs] exI [of _ s] exI [of _ b]) (simp add: rl_run.rl_nil)
  next
    case False
    have "rl_todo ((pcs(j := pc')) i) s' + 2 * rl_others_win i es \<le> rl_steps_of i es"
    proof (cases "j = i")
      case True
      then have "Suc (rl_todo pc' s') \<le> rl_todo (pcs i) s" using rl_todo_step(1) [OF rl_cons.hyps(1)] False by simp
      then show ?thesis using rl_cons.prems True by simp
    next
      case other: False
      then show ?thesis using rl_cons.prems rl_todo_step(2) [OF rl_cons.hyps(1), of "pcs i"] by (auto split: if_splits)
    qed
    then obtain es1 es2 qcs s2 b where "es = es1 @ es2" "rl_run (pcs(j := pc'), s') es1 (qcs, s2)" "qcs i = RlDone b"
      "rl_run (qcs, s2) es2 y" using rl_cons.IH by auto
    then show ?thesis using rl_run.rl_cons [where pcs = pcs and i = j, OF rl_cons.hyps(1)]
      by (intro exI [of _ "(j, clock, e) # es1"] exI [of _ es2] exI [of _ qcs] exI [of _ s2] exI [of _ b]) simp
  qed
qed

text \<open>
  C38: the limiter is lock-free. However the threads interleave, a call of a thread that has made four
  accesses, and two more for each window that another thread has started in the meantime, has
  returned: its loop repeats only when another thread has won the compare-and-exchange.
\<close>

theorem ratelimit_returns:
  assumes "rl_run (pcs, s) es y" and "pcs i = RlStart" and "4 + 2 * rl_others_win i es \<le> rl_steps_of i es"
  shows "\<exists>es1 es2 pcs' s' b. es = es1 @ es2 \<and> rl_run (pcs, s) es1 (pcs', s') \<and> pcs' i = RlDone b \<and> rl_run (pcs', s') es2 y"
  using rl_returns [OF assms(1), of i] assms(2,3) by simp

text \<open>
  Threads 0 and 1 both find the window of second 0 run out at second 100; thread 1 wins, thread 0 fails
  once, loads the window again and counts: six accesses.
\<close>

lemma ratelimit_returns_witness:
  "\<exists>es1 es2 pcs' s' b. fst (rl_exec [(0, Some 100), (0, None), (1, Some 100), (1, None), (1, None), (0, None), (0, None), (0, None), (0, None)]
       (\<lambda>_. RlStart, rl_init)) = es1 @ es2 \<and> rl_run (\<lambda>_. RlStart, rl_init) es1 (pcs', s') \<and> pcs' 0 = RlDone b"
proof -
  let ?sched = "[(0, Some 100), (0, None), (1, Some 100), (1, None), (1, None), (0, None), (0, None), (0, None), (0, None)] :: (nat \<times> int option) list"
  have "4 + 2 * rl_others_win 0 (fst (rl_exec ?sched (\<lambda>_. RlStart, rl_init))) \<le> rl_steps_of 0 (fst (rl_exec ?sched (\<lambda>_. RlStart, rl_init)))"
    by code_simp
  from ratelimit_returns [OF rl_exec_run refl this] show ?thesis by blast
qed

subsection \<open>Any interleaving\<close>

definition stores :: "(nat \<Rightarrow> rl_pc) \<Rightarrow> nat set" where
  "stores pcs = {i. pcs i = RlStore}"

definition rl_threads_ok :: "int \<Rightarrow> (nat \<Rightarrow> rl_pc) \<Rightarrow> bool" where
  "rl_threads_ok t pcs \<longleftrightarrow> finite (stores pcs)
     \<and> (\<forall>i. case pcs i of RlLoad now \<Rightarrow> t \<le> now \<and> now < t + 5
              | RlCas now w \<Rightarrow> t \<le> now \<and> now < t + 5 \<and> rl_expired now w | _ \<Rightarrow> True)"

text \<open>
  Two potentials bound what may still happen: \<open>rl_credit\<close> the messages let through without a new
  window (a thread about to store will add its own and leave room for four more), \<open>rl_moves\<close> the
  windows that clocks in the five seconds from \<open>t\<close> on can still start.
\<close>

definition rl_credit :: "(nat \<Rightarrow> rl_pc) \<Rightarrow> cdma_log_rl_state \<Rightarrow> nat" where
  "rl_credit pcs s = (5 - unat (rl_count s)) + 5 * card (stores pcs)"

definition rl_moves :: "int \<Rightarrow> cdma_log_rl_state \<Rightarrow> nat" where
  "rl_moves t s = (if t \<le> window_start s \<and> window_start s < t + 5 then nat (window_start s - t) else 5)"

lemma stores_upd:
  "stores (pcs(i := pc')) = (if pc' = RlStore then insert i (stores pcs) else stores pcs - {i})"
  by (auto simp: stores_def)

lemma stores_other: "pcs i \<noteq> RlStore \<Longrightarrow> stores pcs - {i} = stores pcs"
  by (auto simp: stores_def)

lemma rl_threads_ok_upd:
  assumes "rl_threads_ok t pcs"
    and "case pc' of RlLoad now \<Rightarrow> t \<le> now \<and> now < t + 5
           | RlCas now w \<Rightarrow> t \<le> now \<and> now < t + 5 \<and> rl_expired now w | _ \<Rightarrow> True"
  shows "rl_threads_ok t (pcs(i := pc'))"
  using assms unfolding rl_threads_ok_def stores_upd by simp

lemma count_up:
  assumes "unat (rl_count s) < 2147483647"
  shows "unat (rl_count s + 1) = Suc (unat (rl_count s))" and "sint (rl_count s) < 5 \<longleftrightarrow> unat (rl_count s) < 5"
proof -
  show "unat (rl_count s + 1) = Suc (unat (rl_count s))"
    using unat_add_u32_le [of "rl_count s" 1] assms by simp
  have "sint (rl_count s) = uint (rl_count s)" using assms by (simp add: sint_u32)
  moreover have "uint (rl_count s) = int (unat (rl_count s))" by simp
  ultimately show "sint (rl_count s) < 5 \<longleftrightarrow> unat (rl_count s) < 5" by (simp only: of_nat_less_numeral_iff)
qed

lemma rl_step_ok:
  assumes st: "rl_step clock (pcs i) s = (e, pc', s')" and ok: "rl_threads_ok t pcs"
    and clk: "\<And>now. clock = Some now \<Longrightarrow> t \<le> now \<and> now < t + 5" and cnt: "unat (rl_count s) < 2147483647"
  shows "rl_threads_ok t (pcs(i := pc'))
    \<and> (if e = RlGrant then 1 else 0) + rl_credit (pcs(i := pc')) s' \<le> rl_credit pcs s + (if e = RlWin then 5 else 0)
    \<and> (if e = RlWin then 1 else 0) + rl_moves t s' \<le> rl_moves t s
    \<and> unat (rl_count s') \<le> Suc (unat (rl_count s))"
proof -
  have fin: "finite (stores pcs)" using ok by (simp add: rl_threads_ok_def)
  show ?thesis
  proof (cases "pcs i")
    case RlStart
    then show ?thesis using st clk ok
      by (auto simp: rl_credit_def stores_upd stores_other intro!: rl_threads_ok_upd split: option.splits)
  next
    case (RlLoad now)
    then have "t \<le> now \<and> now < t + 5" using ok by (auto simp: rl_threads_ok_def split: rl_pc.splits)
    then show ?thesis using st ok RlLoad
      by (auto simp: rl_credit_def stores_upd stores_other split: if_splits intro!: rl_threads_ok_upd)
  next
    case (RlCas now w)
    then have now: "t \<le> now \<and> now < t + 5" and ex: "rl_expired now w"
      using ok by (auto simp: rl_threads_ok_def split: rl_pc.splits)
    show ?thesis
    proof (cases "window_start s = w")
      case True
      have "1 + rl_moves t (s\<lparr>window_start := now\<rparr>) \<le> rl_moves t s"
        using now ex True by (simp add: rl_moves_def rl_expired_def) linarith
      then show ?thesis using st ok RlCas True fin
        by (auto simp: rl_credit_def stores_upd stores_other card_insert_if intro!: rl_threads_ok_upd)
    next
      case False
      then show ?thesis using st ok RlCas now
        by (auto simp: rl_credit_def stores_upd stores_other intro!: rl_threads_ok_upd)
    qed
  next
    case RlStore
    then have "card (stores pcs) = Suc (card (stores pcs - {i}))"
      using fin by (intro card.remove) (simp_all add: stores_def)
    then show ?thesis using st ok RlStore
      by (auto simp: rl_credit_def stores_upd stores_other rl_moves_def intro!: rl_threads_ok_upd)
  next
    case RlCount
    then show ?thesis using st ok count_up [OF cnt]
      by (auto simp: rl_credit_def stores_upd stores_other rl_moves_def Let_def split: if_splits intro!: rl_threads_ok_upd)
  next
    case (RlDone b)
    then show ?thesis using st ok by (auto simp: rl_credit_def stores_upd stores_other intro!: rl_threads_ok_upd)
  qed
qed

lemma rl_run_bound:
  assumes "rl_run x es y" and "rl_threads_ok t (fst x)"
    and "\<forall>(i, c, e)\<in>set es. \<forall>now. c = Some now \<longrightarrow> t \<le> now \<and> now < t + 5"
    and "unat (rl_count (snd x)) + length es < 2147483648"
  shows "rl_num RlGrant es \<le> rl_credit (fst x) (snd x) + 5 * rl_num RlWin es
     \<and> rl_num RlWin es \<le> rl_moves t (snd x)"
  using assms
proof (induction rule: rl_run.induct)
  case (rl_cons clock pcs i s e pc' s' es y)
  have cl: "\<And>now. clock = Some now \<Longrightarrow> t \<le> now \<and> now < t + 5" using rl_cons.prems(2) by auto
  have step: "rl_threads_ok t pcs \<Longrightarrow> unat (rl_count s) < 2147483647 \<Longrightarrow> rl_threads_ok t (pcs(i := pc'))
    \<and> (if e = RlGrant then 1 else 0) + rl_credit (pcs(i := pc')) s' \<le> rl_credit pcs s + (if e = RlWin then 5 else 0)
    \<and> (if e = RlWin then 1 else 0) + rl_moves t s' \<le> rl_moves t s
    \<and> unat (rl_count s') \<le> Suc (unat (rl_count s))"
    using rl_step_ok [where pcs = pcs and i = i, OF rl_cons.hyps(1), of t] cl by blast
  have ok: "rl_threads_ok t pcs" and cnt: "unat (rl_count s) + Suc (length es) < 2147483648"
    using rl_cons.prems by simp_all
  have st: "rl_threads_ok t (pcs(i := pc'))"
      "(if e = RlGrant then 1 else 0) + rl_credit (pcs(i := pc')) s' \<le> rl_credit pcs s + (if e = RlWin then 5 else 0)"
      "(if e = RlWin then 1 else 0) + rl_moves t s' \<le> rl_moves t s" "unat (rl_count s') \<le> Suc (unat (rl_count s))"
    using step [OF ok] cnt by simp_all
  have "rl_num RlGrant es \<le> rl_credit (pcs(i := pc')) s' + 5 * rl_num RlWin es \<and> rl_num RlWin es \<le> rl_moves t s'"
    by (rule rl_cons.IH [unfolded fst_conv snd_conv]) (use st cnt rl_cons.prems(2) in \<open>auto simp: fun_upd_def\<close>)
  then show ?case using st(2,3) by (auto split: if_splits)
qed simp

text \<open>
  C13: however many threads call the limiter of one call site and however they interleave, while the
  clocks read show no more than five seconds: the calls let through are at most five (the burst) for
  the window found and five for each window started, and the calls whose clock could not be read,
  which all pass; and a window is started at most five times, because after the first only a clock
  that shows an earlier second can start another. So at most thirty calls pass beside those without
  a clock.
\<close>

theorem ratelimit_bound:
  assumes "rl_run (\<lambda>_. RlStart, s) es y"
    and "\<forall>(i, c, e)\<in>set es. \<forall>now. c = Some now \<longrightarrow> t \<le> now \<and> now < t + CDMA_LOG_RATE_INTERVAL_SEC"
    and "unat (rl_count s) + length es < 2147483648"
  shows "rl_passed es \<le> 5 * (1 + rl_num RlWin es) + rl_num RlNoClock es \<and> rl_num RlWin es \<le> 5
     \<and> rl_passed es \<le> 30 + rl_num RlNoClock es"
proof -
  have "rl_threads_ok t (fst (\<lambda>_. RlStart, s))" by (simp add: rl_threads_ok_def stores_def)
  from rl_run_bound [OF assms(1) this] assms(2,3)
  have g: "rl_num RlGrant es \<le> (5 - unat (rl_count s)) + 5 * rl_num RlWin es" and m: "rl_num RlWin es \<le> rl_moves t s"
    by (auto simp: rl_credit_def stores_def)
  have w: "rl_num RlWin es \<le> 5" using m by (rule order_trans) (auto simp: rl_moves_def)
  have "rl_num RlGrant es \<le> 5 + 5 * rl_num RlWin es" using g by (rule order_trans) simp
  with w show ?thesis by (simp add: rl_passed_def)
qed

text \<open>
  Thread 0 starts a window and is held up before it stores the count; threads 1 to 5 still count in
  the old one, threads 6 to 9 after the store; thread 10 cannot read the clock: eleven calls pass.
\<close>

definition demo_sched :: "(nat \<times> int option) list" where
  "demo_sched = List.map (\<lambda>i. (i, if i = 10 then None else Some 100)) ([0, 0, 0] @ concat (List.map (\<lambda>i. [i, i, i]) [1..<6]) @ [0]
     @ concat (List.map (\<lambda>i. [i, i, i]) [6..<10]) @ [10])"

lemma demo_sched_clocks: "list_all (\<lambda>(i, c, e). c = None \<or> c = Some 100) (fst (rl_exec demo_sched (\<lambda>_. RlStart, rl_init)))"
  by code_simp

lemma demo_sched_counts: "length (fst (rl_exec demo_sched (\<lambda>_. RlStart, rl_init))) = 32"
    "rl_num RlNoClock (fst (rl_exec demo_sched (\<lambda>_. RlStart, rl_init))) = 1" "rl_passed (fst (rl_exec demo_sched (\<lambda>_. RlStart, rl_init))) = 11"
  by code_simp+

lemma ratelimit_bound_witness:
  "rl_passed (fst (rl_exec demo_sched (\<lambda>_. RlStart, rl_init))) = 11 \<and> rl_passed (fst (rl_exec demo_sched (\<lambda>_. RlStart, rl_init))) \<le> 30 + 1"
proof -
  have c: "\<forall>(i, c, e)\<in>set (fst (rl_exec demo_sched (\<lambda>_. RlStart, rl_init))).
      \<forall>now. c = Some now \<longrightarrow> 100 \<le> now \<and> now < 100 + CDMA_LOG_RATE_INTERVAL_SEC"
    using demo_sched_clocks by (auto simp: list_all_iff)
  have n: "unat (rl_count rl_init) + length (fst (rl_exec demo_sched (\<lambda>_. RlStart, rl_init))) < 2147483648"
    by (simp only: demo_sched_counts) (simp add: rl_init_def)
  from ratelimit_bound [OF rl_exec_run c n] show ?thesis using demo_sched_counts(2,3) by simp
qed

subsection \<open>Two threads pass the limit\<close>

text \<open>A thread between two calls; calls of it that pass in the current window, one after another.\<close>

definition rl_idle :: "rl_pc \<Rightarrow> bool" where
  "rl_idle pc \<longleftrightarrow> pc = RlStart \<or> (\<exists>b. pc = RlDone b)"

lemma rl_idle_simps [simp]: "rl_idle RlStart" "rl_idle (RlDone b)"
  by (simp_all add: rl_idle_def)

definition rl_only :: "nat set \<Rightarrow> int \<Rightarrow> (nat \<times> int option \<times> rl_event) list \<Rightarrow> bool" where
  "rl_only I t es \<longleftrightarrow> (\<forall>(i, c, e)\<in>set es. i \<in> I \<and> c = Some t)"

lemma rl_only_simps [simp]:
  "rl_only I t []" "rl_only I t ((i, c, e) # es) \<longleftrightarrow> i \<in> I \<and> c = Some t \<and> rl_only I t es"
  "rl_only I t (es @ fs) \<longleftrightarrow> rl_only I t es \<and> rl_only I t fs"
  by (simp_all add: rl_only_def ball_Un)

lemma rl_begin:
  assumes "rl_idle (pcs b)"
  obtains es where "rl_run (pcs, s) es (pcs(b := RlLoad t), s)" and "rl_only {b} t es" and "\<And>e. e \<noteq> RlTau \<Longrightarrow> rl_num e es = 0"
proof -
  have one: "rl_run (pcs, s) [(b, Some t, RlTau)] (pcs(b := RlLoad t), s)" if "pcs b = RlStart" for pcs
    using that by (auto intro!: rl_cons [where pc' = "RlLoad t" and s' = s] rl_nil)
  show ?thesis
  proof (cases "pcs b = RlStart")
    case True
    then show ?thesis using that [OF one] by simp
  next
    case False
    then obtain x where x: "pcs b = RlDone x" using assms by (auto simp: rl_idle_def)
    have "rl_run (pcs(b := RlStart), s) [(b, Some t, RlTau)] (pcs(b := RlLoad t), s)" using one [of "pcs(b := RlStart)"] by simp
    then have "rl_run (pcs, s) [(b, Some t, RlTau), (b, Some t, RlTau)] (pcs(b := RlLoad t), s)"
      using x by (auto intro: rl_cons [where pc' = RlStart and s' = s])
    then show ?thesis using that by simp
  qed
qed

lemma rl_pass:
  assumes idle: "rl_idle (pcs b)" and w: "\<not> rl_expired t (window_start s)" and c: "rl_count s = of_nat n" "n < 5"
  obtains es where "rl_run (pcs, s) es (pcs(b := RlDone True), s\<lparr>rl_count := of_nat (Suc n)\<rparr>)" and "rl_only {b} t es"
    and "rl_num RlGrant es = 1" and "rl_num RlDeny es = 0" and "rl_num RlWin es = 0"
proof -
  obtain es where es: "rl_run (pcs, s) es (pcs(b := RlLoad t), s)" "rl_only {b} t es" "\<And>e. e \<noteq> RlTau \<Longrightarrow> rl_num e es = 0"
    using rl_begin [where pcs = pcs and b = b, OF idle] by blast
  have "sint (rl_count s) < 5" using c by (simp add: signed_of_nat signed_take_bit_int_eq_self)
  then have st: "rl_step (Some t) RlCount s = (RlGrant, RlDone True, s\<lparr>rl_count := of_nat (Suc n)\<rparr>)"
    using c(1) by (simp add: add.commute)
  have "rl_run (pcs(b := RlCount), s) [(b, Some t, RlGrant)] (pcs(b := RlDone True), s\<lparr>rl_count := of_nat (Suc n)\<rparr>)"
    using st by (auto intro!: rl_cons [where pc' = "RlDone True" and s' = "s\<lparr>rl_count := of_nat (Suc n)\<rparr>"] rl_nil)
  then have "rl_run (pcs(b := RlLoad t), s) [(b, Some t, RlTau), (b, Some t, RlGrant)] (pcs(b := RlDone True), s\<lparr>rl_count := of_nat (Suc n)\<rparr>)"
    using w by (auto intro: rl_cons [where pc' = RlCount and s' = s])
  from rl_run_append [OF es(1) this] show ?thesis using that es(2,3) by simp
qed

lemma rl_passes:
  assumes "rl_idle (pcs b)" and "\<not> rl_expired t (window_start s)" and "rl_count s = of_nat n" and "n + m \<le> 5"
  shows "\<exists>es pcs'. rl_run (pcs, s) es (pcs', s\<lparr>rl_count := of_nat (n + m)\<rparr>) \<and> rl_only {b} t es \<and> rl_idle (pcs' b)
     \<and> (\<forall>j. j \<noteq> b \<longrightarrow> pcs' j = pcs j) \<and> rl_num RlGrant es = m \<and> rl_num RlDeny es = 0 \<and> rl_num RlWin es = 0"
  using assms
proof (induction m arbitrary: pcs s n)
  case 0
  then have "rl_run (pcs, s) [] (pcs, s\<lparr>rl_count := of_nat (n + 0)\<rparr>)" by (cases s) (auto intro: rl_nil)
  then show ?case using 0 by (intro exI [of _ "[]"] exI [of _ pcs]) simp
next
  case (Suc m)
  have n: "n < 5" using Suc.prems(4) by simp
  obtain es where es: "rl_run (pcs, s) es (pcs(b := RlDone True), s\<lparr>rl_count := of_nat (Suc n)\<rparr>)" "rl_only {b} t es"
    "rl_num RlGrant es = 1" "rl_num RlDeny es = 0" "rl_num RlWin es = 0"
    by (rule rl_pass [where pcs = pcs and b = b, OF Suc.prems(1-3) n])
  let ?pcs = "pcs(b := RlDone True)" let ?s = "s\<lparr>rl_count := of_nat (Suc n)\<rparr>"
  have "rl_idle (?pcs b)" "\<not> rl_expired t (window_start ?s)" "rl_count ?s = of_nat (Suc n)" "Suc n + m \<le> 5"
    using Suc.prems by simp_all
  from Suc.IH [where pcs = ?pcs, OF this] obtain fs pcs' where fs: "rl_run (?pcs, ?s) fs (pcs', ?s\<lparr>rl_count := of_nat (Suc n + m)\<rparr>)" "rl_only {b} t fs"
    "rl_idle (pcs' b)" "\<forall>j. j \<noteq> b \<longrightarrow> pcs' j = ?pcs j" "rl_num RlGrant fs = m" "rl_num RlDeny fs = 0" "rl_num RlWin fs = 0" by blast
  have "rl_run (pcs, s) (es @ fs) (pcs', s\<lparr>rl_count := of_nat (n + Suc m)\<rparr>)" using rl_run_append [OF es(1) fs(1)] by simp
  then show ?case using es(2-5) fs(2-7) by (intro exI [of _ "es @ fs"] exI [of _ pcs']) simp
qed

text \<open>
  C40: the limit of five messages in five seconds does not hold when two threads share a call site.
  Whenever the window has run out at the second \<open>t\<close> and \<open>n\<close> calls, at most five, were counted in it,
  two threads can make \<open>10 - n\<close> calls in that very second that all pass, in one new window and with
  none refused: the winner of the compare-and-exchange sets the start of the window and the count in
  two accesses, and in between the other thread still counts the old window up to five.
\<close>

theorem ratelimit_race:
  assumes "a \<noteq> b" and "pcs a = RlStart" "pcs b = RlStart"
    and "rl_expired t (window_start s)" and "rl_count s = of_nat n" "n \<le> 5"
  shows "\<exists>es y. rl_run (pcs, s) es y \<and> (\<forall>(i, c, e)\<in>set es. i \<in> {a, b} \<and> c = Some t)
     \<and> rl_num RlWin es = 1 \<and> rl_num RlDeny es = 0 \<and> rl_num RlGrant es = 10 - n"
proof -
  let ?s1 = "s\<lparr>window_start := t\<rparr>" let ?p1 = "pcs(a := RlStore)"
  have "rl_idle (pcs a)" using assms(2) by (simp add: rl_idle_def)
  from rl_begin [where pcs = pcs and b = a, OF this, of s t] obtain e0 where e0: "rl_run (pcs, s) e0 (pcs(a := RlLoad t), s)" "rl_only {a} t e0"
    "\<And>e. e \<noteq> RlTau \<Longrightarrow> rl_num e e0 = 0" by blast
  have "rl_run (pcs(a := RlCas t (window_start s)), s) [(a, Some t, RlWin)] (?p1, ?s1)"
    by (auto intro!: rl_cons [where pc' = RlStore and s' = ?s1] rl_nil)
  then have e1: "rl_run (pcs(a := RlLoad t), s) [(a, Some t, RlTau), (a, Some t, RlWin)] (?p1, ?s1)"
    using assms(4) by (auto intro: rl_cons [where pc' = "RlCas t (window_start s)" and s' = s])
  have now: "\<not> rl_expired t (window_start ?s1)" by (simp add: rl_expired_def)
  have b: "rl_idle (?p1 b)" "rl_count ?s1 = of_nat n" "n + (5 - n) \<le> 5" using assms by (simp_all add: rl_idle_def)
  obtain e2 p2 where e2: "rl_run (?p1, ?s1) e2 (p2, ?s1\<lparr>rl_count := of_nat (n + (5 - n))\<rparr>)" "rl_only {b} t e2" "rl_idle (p2 b)"
    "\<forall>j. j \<noteq> b \<longrightarrow> p2 j = ?p1 j" "rl_num RlGrant e2 = 5 - n" "rl_num RlDeny e2 = 0" "rl_num RlWin e2 = 0"
    using rl_passes [where pcs = ?p1 and b = b, OF b(1) now b(2,3)] by blast
  let ?s2 = "?s1\<lparr>rl_count := of_nat (n + (5 - n))\<rparr>" let ?s3 = "?s2\<lparr>rl_count := of_nat 1\<rparr>" let ?p3 = "p2(a := RlDone True)"
  have "p2 a = RlStore" using e2(4) assms(1) by simp
  then have e3: "rl_run (p2, ?s2) [(a, Some t, RlGrant)] (?p3, ?s3)"
    by (auto intro!: rl_cons [where pc' = "RlDone True" and s' = ?s3] rl_nil)
  have "rl_idle (?p3 b)" "\<not> rl_expired t (window_start ?s3)" "rl_count ?s3 = of_nat 1" "1 + 4 \<le> (5 :: nat)"
    using e2(3) assms(1) by (simp_all add: rl_expired_def)
  from rl_passes [where pcs = ?p3 and b = b, OF this] obtain e4 p4 s4 where e4: "rl_run (?p3, ?s3) e4 (p4, s4)" "rl_only {b} t e4"
    "rl_num RlGrant e4 = 4" "rl_num RlDeny e4 = 0" "rl_num RlWin e4 = 0" by blast
  let ?es = "e0 @ [(a, Some t, RlTau), (a, Some t, RlWin)] @ e2 @ [(a, Some t, RlGrant)] @ e4"
  have "rl_run (pcs, s) ?es (p4, s4)" by (intro rl_run_append [OF e0(1)] rl_run_append [OF e1] rl_run_append [OF e2(1)] rl_run_append [OF e3] e4(1))
  moreover have "\<forall>(i, c, e)\<in>set ?es. i \<in> {a, b} \<and> c = Some t" using e0(2) e2(2) e4(2) by (auto simp: rl_only_def)
  moreover have "rl_num RlWin ?es = 1" "rl_num RlDeny ?es = 0" "rl_num RlGrant ?es = 10 - n"
    using e0(3) e2(5-7) e4(3-5) assms(6) by simp_all
  ultimately show ?thesis by blast
qed

text \<open>In the state the library starts with, two threads get ten calls of one second through.\<close>

lemma ratelimit_race_witness:
  "\<exists>es y. rl_run (\<lambda>_. RlStart, rl_init) es y \<and> (\<forall>(i, c, e)\<in>set es. i \<in> {0, 1} \<and> c = Some 100) \<and> rl_num RlGrant es = 10"
  using ratelimit_race [of 0 1 "\<lambda>_. RlStart" 100 rl_init 0] by (auto simp: rl_init_def rl_expired_def)

end
