(* ===== verification/Cdma_Device.thy ===== *)
theory Cdma_Device
  imports Cdma_Env
begin

text \<open>
  Finding the devices (\<open>cdma_u_device.c\<close>): the directory of the character devices is read twice, to
  count them and to open them; each device opened is asked for its attributes. The file system is a
  parameter beside the system: \<open>fs_entries\<close> is the sequence of names that \<open>readdir\<close> will return for
  the directory opened at that point of the trace, so it may differ between the two passes.
\<close>

record fs =
  fs_opendir :: "event list \<Rightarrow> ptr"
  fs_entries :: "event list \<Rightarrow> string list"
  fs_realpath :: "event list \<Rightarrow> string \<Rightarrow> ptr \<times> string"
  fs_open :: "event list \<Rightarrow> string \<Rightarrow> int"
  fs_info :: "event list \<Rightarrow> int \<Rightarrow> cdma_device_attr"

definition CDMA_CDEV_PATH :: string where
  "CDMA_CDEV_PATH = ''/dev/cdma''"

abbreviation (input) CDMA_MAX_DEV_NAME_LEN :: nat where "CDMA_MAX_DEV_NAME_LEN \<equiv> 300"

section \<open>Opening\<close>

definition cdma_open_cdev :: "fs \<Rightarrow> string \<Rightarrow> st \<Rightarrow> int \<times> st" where
  "cdma_open_cdev F path s =
     (let (p, real) = fs_realpath F (tr s) path; s1 = emit (EvRealpath path p) s; len = length CDMA_CDEV_PATH in
      if p = NULL then (- EIO, s1)
      else if length real \<le> len then (- EIO, sys_free p s1)
      else if take len real \<noteq> CDMA_CDEV_PATH then (- EIO, sys_free p s1)
      else (let fd = fs_open F (tr s1) real in (fd, sys_free p (emit (EvOpen real fd) s1))))"

text \<open>\<open>dent->d_name[0] == '.'\<close>\<close>

fun dot_name :: "string \<Rightarrow> bool" where
  "dot_name [] = False"
| "dot_name (c # cs) = (c = CHR ''.'')"

definition sys_opendir :: "fs \<Rightarrow> st \<Rightarrow> ptr \<times> string list \<times> st" where
  "sys_opendir F s = (let d = fs_opendir F (tr s) in (d, fs_entries F (tr s), emit (EvOpendir d) s))"

definition cdma_get_devs_num :: "fs \<Rightarrow> st \<Rightarrow> u32 \<times> st" where
  "cdma_get_devs_num F s =
     (let (d, names, s1) = sys_opendir F s in
      if d = NULL then (0, s1)
      else (of_nat (length (filter (\<lambda>n. \<not> dot_name n) names)), emit (EvClosedir d) s1))"

text \<open>The driver fills the 64 entries of the array of the reply.\<close>

definition info_eus :: "cdma_device_attr \<Rightarrow> eu_info list" where
  "info_eus a = take 64 (attr_eus a @ replicate 64 zero_eu)"

definition cdma_query_device_info :: "env \<Rightarrow> fs \<Rightarrow> dma_device \<Rightarrow> st \<Rightarrow> int \<times> dma_device \<times> st" where
  "cdma_query_device_info E F dev s =
     (let ((ret, _), s1) = sys_ioctl E (dev_fd dev) CDMA_CMD_QUERY_DEV_INFO s; a = fs_info F (tr s) (dev_fd dev) in
      if ret \<noteq> 0 then (ret, dev, s1)
      else if attr_eu_num a = 0 \<or> attr_eu_num a > CDMA_MAX_EU_NUM then (- EINVAL, dev, s1)
      else (let n = unat (attr_eu_num a) in
        (0, dev\<lparr>dev_attr := \<lparr>attr_eu_num = attr_eu_num a, attr_eid = attr_eid a, attr_eu = info_eus a ! 0,
              attr_eus = take n (info_eus a) @ drop n (attr_eus (dev_attr dev)),
              attr_dev_cap = attr_dev_cap a\<rparr>\<rparr>, s1)))"

text \<open>
  The second pass. The array of devices has the length that the first pass counted; storing beyond
  it would be None.
\<close>

fun open_devs :: "env \<Rightarrow> fs \<Rightarrow> u32 \<Rightarrow> string list \<Rightarrow> u32 \<Rightarrow> dma_device list \<Rightarrow> st
    \<Rightarrow> (u32 \<times> dma_device list \<times> st) option" where
  "open_devs E F num [] i ds s = Some (i, ds, s)"
| "open_devs E F num (n # ns) i ds s =
     (if dot_name n then open_devs E F num ns i ds s
      else if length ds \<le> unat i then None
      else (let path = take (CDMA_MAX_DEV_NAME_LEN - 1) (CDMA_CDEV_PATH @ ''/'' @ n);
                (fd, s1) = cdma_open_cdev F path s;
                dev = (ds ! unat i)\<lparr>dev_fd := fd\<rparr>
            in if fd < 0 then open_devs E F num ns i (ds[unat i := dev]) s1
               else (let dev1 = dev\<lparr>dev_name := take (CDMA_MAX_DEV_NAME_LEN - 1) n\<rparr>;
                         (ret, dev2, s2) = cdma_query_device_info E F dev1 s1
                     in if ret \<noteq> 0
                        then open_devs E F num ns i (ds[unat i := dev2\<lparr>dev_fd := - 1\<rparr>]) (sys_close fd s2)
                        else if i + 1 \<ge> num then Some (i + 1, ds[unat i := dev2], s2)
                        else open_devs E F num ns (i + 1) (ds[unat i := dev2]) s2)))"

text \<open>The results are the array (its address and contents), \<open>*num_devices\<close> and the state.\<close>

definition cdma_get_device_list ::
  "env \<Rightarrow> fs \<Rightarrow> st \<Rightarrow> (ptr \<times> dma_device list \<times> u32 \<times> st) option" where
  "cdma_get_device_list E F s =
     (let (num, s1) = cdma_get_devs_num F s in
      if num = 0 then Some (NULL, [], num, s1)
      else (let (d, names, s2) = sys_opendir F s1 in
        if d = NULL then Some (NULL, [], num, s2)
        else (let (dev_list, s3) = sys_alloc E ObjDevList s2 in
          if dev_list = NULL then Some (NULL, [], num, emit (EvClosedir d) s3)
          else do {
            (i, ds, s4) \<leftarrow> open_devs E F num names 0 (replicate (unat num) zero_dev) s3;
            Some (dev_list, ds, if i \<noteq> num then i else num, emit (EvClosedir d) s4)
          })))"

section \<open>Releasing\<close>

fun close_devs :: "dma_device list \<Rightarrow> st \<Rightarrow> st" where
  "close_devs [] s = s"
| "close_devs (d # rest) s = close_devs rest (if dev_fd d > 0 then sys_close (dev_fd d) s else s)"

definition cdma_free_device_list :: "ptr \<Rightarrow> dma_device list \<Rightarrow> u32 \<Rightarrow> st \<Rightarrow> st option" where
  "cdma_free_device_list dev_list ds num_devices s =
     (if length ds < unat num_devices then None
      else Some (sys_free dev_list (close_devs (take (unat num_devices) ds) s)))"

definition cdma_free_device_list_except_one ::
  "ptr \<Rightarrow> dma_device list \<Rightarrow> u32 \<Rightarrow> u32 \<Rightarrow> st \<Rightarrow> st option" where
  "cdma_free_device_list_except_one dev_list ds num_devices idx s =
     (if length ds < unat num_devices then None
      else (let l = take (unat num_devices) ds in
        Some (sys_free dev_list (close_devs (take (unat idx) l @ drop (Suc (unat idx)) l) s))))"

section \<open>Looking for an entity\<close>

definition cdma_find_seid_in_eus :: "dma_device \<Rightarrow> dev_eid \<Rightarrow> eu_info option" where
  "cdma_find_seid_in_eus dev eid =
     List.find (\<lambda>eu. eu_eid eu = eid) (take (unat (attr_eu_num (dev_attr dev))) (attr_eus (dev_attr dev)))"

text \<open>The loop of \<open>cdma_get_device_by_eid\<close>: the index of the first device with the entity.\<close>

fun find_dev :: "dma_device list \<Rightarrow> dev_eid \<Rightarrow> nat \<Rightarrow> (nat \<times> dma_device \<times> eu_info) option" where
  "find_dev [] eid i = None"
| "find_dev (d # ds) eid i =
     (case cdma_find_seid_in_eus d eid of Some eu \<Rightarrow> Some (i, d, eu) | None \<Rightarrow> find_dev ds eid (Suc i))"

definition cdma_get_device_by_eid :: "env \<Rightarrow> fs \<Rightarrow> dev_eid \<Rightarrow> st \<Rightarrow> (ptr \<times> st) option" where
  "cdma_get_device_by_eid E F eid s = do {
     (dev_list, ds, num, s1) \<leftarrow> cdma_get_device_list E F s;
     if dev_list = NULL then Some (NULL, s1)
     else if length ds < unat num then None
     else (case find_dev (take (unat num) ds) eid 0 of
         None \<Rightarrow> do { s2 \<leftarrow> cdma_free_device_list dev_list ds num s1; Some (NULL, s2) }
       | Some (i, d, eu) \<Rightarrow>
           (let (ret_dev, s2) = sys_alloc E ObjDev s1 in
            if ret_dev = NULL
            then do { s3 \<leftarrow> cdma_free_device_list dev_list ds num s2; Some (NULL, s3) }
            else do {
              let s3 = s2\<lparr>devs := (devs s2)(ret_dev := d\<lparr>dev_attr := (dev_attr d)\<lparr>attr_eu := eu\<rparr>\<rparr>)\<rparr>;
              s4 \<leftarrow> cdma_free_device_list_except_one dev_list ds num (of_nat i) s3;
              Some (ret_dev, s4)
            }))
   }"

section \<open>The interface\<close>

text \<open>The argument \<open>num_devices\<close> of the caller is a flag here: whether it is not NULL.\<close>

definition dma_get_device_list ::
  "env \<Rightarrow> fs \<Rightarrow> bool \<Rightarrow> st \<Rightarrow> (ptr \<times> dma_device list \<times> u32 option \<times> st) option" where
  "dma_get_device_list E F has_num s =
     (if \<not> has_num then Some (NULL, [], None, s)
      else do { (p, ds, num, s1) \<leftarrow> cdma_get_device_list E F s; Some (p, ds, Some num, s1) })"

definition dma_free_device_list :: "ptr \<Rightarrow> dma_device list \<Rightarrow> u32 \<Rightarrow> st \<Rightarrow> st option" where
  "dma_free_device_list dev_list ds num s =
     (if dev_list = NULL then Some s else cdma_free_device_list dev_list ds num s)"

definition dma_get_device_by_eid :: "env \<Rightarrow> fs \<Rightarrow> dev_eid option \<Rightarrow> st \<Rightarrow> (ptr \<times> st) option" where
  "dma_get_device_by_eid E F eid s =
     (case eid of None \<Rightarrow> Some (NULL, s) | Some e \<Rightarrow> cdma_get_device_by_eid E F e s)"

section \<open>What a pass over the directory leaves behind\<close>

text \<open>A device that was opened and answered the query.\<close>

definition dev_ready :: "fs \<Rightarrow> dma_device \<Rightarrow> bool" where
  "dev_ready F d \<longleftrightarrow> 0 \<le> dev_fd d \<and> (\<exists>t path. dev_fd d = fs_open F t path)
     \<and> 0 < attr_eu_num (dev_attr d) \<and> attr_eu_num (dev_attr d) \<le> CDMA_MAX_EU_NUM"

definition dev_fds :: "dma_device list \<Rightarrow> resource multiset" where
  "dev_fds ds = mset (List.map (\<lambda>d. RFd (dev_fd d)) ds)"

lemma dev_fds_simps [simp]:
  "dev_fds [] = {#}" "dev_fds (d # ds) = add_mset (RFd (dev_fd d)) (dev_fds ds)"
  "dev_fds (ds @ ds') = dev_fds ds + dev_fds ds'"
  by (simp_all add: dev_fds_def)

lemma cdma_open_cdev_spec:
  assumes "cdma_open_cdev F path s = (fd, s')"
  shows "live s' = live s + (if fd < 0 then {#} else {#RFd fd#}) \<and> devs s' = devs s
     \<and> (0 \<le> fd \<longrightarrow> (\<exists>t p. fd = fs_open F t p))"
  using assms by (auto simp: cdma_open_cdev_def Let_def split_beta live_simps sys_free_def split: if_splits)

lemma cdma_query_device_info_spec:
  assumes "cdma_query_device_info E F dev s = (ret, dev', s')"
  shows "live s' = live s \<and> devs s' = devs s \<and> dev_fd dev' = dev_fd dev
     \<and> (ret = 0 \<longrightarrow> 0 < attr_eu_num (dev_attr dev') \<and> attr_eu_num (dev_attr dev') \<le> CDMA_MAX_EU_NUM)"
  using assms
  by (auto simp: cdma_query_device_info_def sys_ioctl_def Let_def split_beta live_simps word_neq_0_conv not_less split: if_splits)

lemma unat_less_step:
  assumes "unat (i :: u32) < unat (num :: u32)"
  shows "unat (i + 1) = Suc (unat i)" and "i + 1 \<ge> num \<longleftrightarrow> Suc (unat i) = unat num"
  using unat_add_u32_le [of i 1] assms unat_u32_less [of num] by (auto simp: word_le_nat_alt)

lemma open_devs_spec:
  assumes "length ds = unat num" and "unat i < unat num"
  shows "\<exists>i' ds' s' new. open_devs E F num ns i ds s = Some (i', ds', s') \<and> length ds' = length ds
     \<and> unat i' \<le> unat num \<and> take (unat i') ds' = take (unat i) ds @ new \<and> list_all (dev_ready F) new
     \<and> live s' = live s + dev_fds new \<and> devs s' = devs s"
  using assms
proof (induction ns arbitrary: i ds s)
  case Nil
  then show ?case by (intro exI [of _ i] exI [of _ ds] exI [of _ s] exI [of _ "[]"]) simp
next
  case (Cons n ns)
  have i: "unat i < length ds" using Cons.prems by simp
  show ?case
  proof (cases "dot_name n")
    case True
    then show ?thesis using Cons.IH [OF Cons.prems] by simp
  next
    case False
    let ?path = "take 299 (CDMA_CDEV_PATH @ ''/'' @ n)"
    obtain fd s1 where op: "cdma_open_cdev F ?path s = (fd, s1)" by (cases "cdma_open_cdev F ?path s")
    note o = cdma_open_cdev_spec [OF op]
    let ?dev = "(ds ! unat i)\<lparr>dev_fd := fd\<rparr>"
    show ?thesis
    proof (cases "fd < 0")
      case True
      have "open_devs E F num (n # ns) i ds s = open_devs E F num ns i (ds[unat i := ?dev]) s1"
        using False True op i by simp
      then show ?thesis using Cons.IH [of "ds[unat i := ?dev]" i s1] Cons.prems o True by simp
    next
      case pos: False
      let ?dev1 = "?dev\<lparr>dev_name := take 299 n\<rparr>"
      obtain ret dev2 s2 where q: "cdma_query_device_info E F ?dev1 s1 = (ret, dev2, s2)"
        by (cases "cdma_query_device_info E F ?dev1 s1")
      note q' = cdma_query_device_info_spec [OF q]
      have fd2: "dev_fd dev2 = fd" using q' by simp
      show ?thesis
      proof (cases "ret = 0")
        case False
        let ?ds = "ds[unat i := dev2\<lparr>dev_fd := - 1\<rparr>]"
        have "open_devs E F num (n # ns) i ds s = open_devs E F num ns i ?ds (sys_close fd s2)"
          using \<open>\<not> dot_name n\<close> pos False op q i by simp
        moreover have "live (sys_close fd s2) = live s" using o q' pos by (simp add: sys_close_def live_simps)
        ultimately show ?thesis using Cons.IH [of ?ds i "sys_close fd s2"] Cons.prems o q' by (simp add: sys_close_def)
      next
        case True
        let ?ds = "ds[unat i := dev2]"
        have r: "dev_ready F dev2" using q' o pos True fd2 by (auto simp: dev_ready_def)
        have t: "take (Suc (unat i)) ?ds = take (unat i) ds @ [dev2]" using i by (simp add: take_Suc_conv_app_nth)
        have l2: "live s2 = live s + {#RFd (dev_fd dev2)#}" using o q' pos fd2 by simp
        note st = unat_less_step [OF Cons.prems(2)]
        show ?thesis
        proof (cases "Suc (unat i) = unat num")
          case last: True
          have "open_devs E F num (n # ns) i ds s = Some (i + 1, ?ds, s2)"
            using \<open>\<not> dot_name n\<close> pos True op q i st last by simp
          then show ?thesis using t r l2 o q' last st(1)
            by (intro exI [of _ "i + 1"] exI [of _ ?ds] exI [of _ s2] exI [of _ "[dev2]"]) simp
        next
          case more: False
          have e: "open_devs E F num (n # ns) i ds s = open_devs E F num ns (i + 1) ?ds s2"
            using \<open>\<not> dot_name n\<close> pos True op q i st more by simp
          have "length ?ds = unat num" "unat (i + 1) < unat num" using Cons.prems st(1) more by simp_all
          from Cons.IH [OF this, of s2]
          obtain i' ds' s' new where "open_devs E F num ns (i + 1) ?ds s2 = Some (i', ds', s')" "length ds' = length ?ds"
            "unat i' \<le> unat num" "take (unat i') ds' = take (unat (i + 1)) ?ds @ new" "list_all (dev_ready F) new"
            "live s' = live s2 + dev_fds new" "devs s' = devs s2"
            by blast
          then show ?thesis using e t r l2 o q' st(1)
            by (intro exI [of _ i'] exI [of _ ds'] exI [of _ s'] exI [of _ "dev2 # new"]) simp
        qed
      qed
    qed
  qed
qed

lemma cdma_get_devs_num_spec:
  "live (snd (cdma_get_devs_num F s)) = live s \<and> devs (snd (cdma_get_devs_num F s)) = devs s"
  by (simp add: cdma_get_devs_num_def sys_opendir_def Let_def live_simps)

lemma cdma_get_device_list_spec:
  "\<exists>p ds num s'. cdma_get_device_list E F s = Some (p, ds, num, s') \<and> devs s' = devs s
     \<and> (if p = NULL then ds = [] \<and> live s' = live s
        else unat num \<le> length ds \<and> list_all (dev_ready F) (take (unat num) ds)
          \<and> live s' = live s + {#RMem p#} + dev_fds (take (unat num) ds))"
proof -
  obtain num s1 where n: "cdma_get_devs_num F s = (num, s1)" by (cases "cdma_get_devs_num F s")
  note n' = cdma_get_devs_num_spec [of F s, unfolded n snd_conv]
  obtain d names s2 where d: "sys_opendir F s1 = (d, names, s2)" by (cases "sys_opendir F s1")
  have d': "live s2 = live s1 + (if d = NULL then {#} else {#RDir d#})" "devs s2 = devs s1"
    using d by (auto simp: sys_opendir_def Let_def live_simps)
  obtain p s3 where p: "sys_alloc E ObjDevList s2 = (p, s3)" by (cases "sys_alloc E ObjDevList s2")
  have p': "live s3 = live s2 + (if p = NULL then {#} else {#RMem p#})" "devs s3 = devs s2"
    using p by (auto simp: sys_alloc_def Let_def live_simps)
  show ?thesis
  proof (cases "num = 0 \<or> d = NULL \<or> p = NULL")
    case True
    then show ?thesis using n n' d d' p p' by (auto simp: cdma_get_device_list_def Let_def live_simps)
  next
    case False
    then have "unat (0 :: u32) < unat num" by (simp add: unat_gt_0)
    from open_devs_spec [of "replicate (unat num) zero_dev" num 0 E F names s3, OF _ this]
    obtain i ds s4 new where run: "open_devs E F num names 0 (replicate (unat num) zero_dev) s3 = Some (i, ds, s4)"
      and ds: "length ds = unat num" "unat i \<le> unat num" "take (unat i) ds = new" "list_all (dev_ready F) new"
        "live s4 = live s3 + dev_fds new" "devs s4 = devs s3"
      by auto
    then show ?thesis using False n n' d d' p p'
      by (auto simp: cdma_get_device_list_def Let_def live_simps)
  qed
qed

text \<open>
  C36: whatever the directory shows in its two passes and whichever devices fail, listing never
  stores outside the array, returns only devices that were opened and have between one and 64
  entities, and keeps exactly the array and their descriptors: no descriptor, path or directory
  handle is left open.
\<close>

theorem device_list_ready:
  "\<exists>p ds num s'. cdma_get_device_list E F s = Some (p, ds, num, s')
     \<and> (if p = NULL then ds = [] \<and> live s' = live s
        else unat num \<le> length ds \<and> list_all (dev_ready F) (take (unat num) ds)
          \<and> live s' = live s + {#RMem p#} + dev_fds (take (unat num) ds))"
  using cdma_get_device_list_spec [of E F s] by blast

lemma close_devs_live:
  assumes "\<forall>d\<in>set ds. 0 < dev_fd d"
  shows "live (close_devs ds s) = live s - dev_fds ds \<and> devs (close_devs ds s) = devs s"
  using assms by (induction ds arbitrary: s) (simp_all add: sys_close_def live_simps)

lemma ready_fd_pos:
  assumes "\<forall>t path. fs_open F t path \<noteq> 0" and "list_all (dev_ready F) ds"
  shows "\<forall>d\<in>set ds. 0 < dev_fd d"
  using assms by (fastforce simp: list_all_iff dev_ready_def order_less_le)

lemma free_list_live:
  assumes "\<forall>t path. fs_open F t path \<noteq> 0" and "list_all (dev_ready F) (take (unat num) ds)"
    and "unat num \<le> length ds" and "p \<noteq> NULL"
  shows "\<exists>s'. cdma_free_device_list p ds num s = Some s' \<and> devs s' = devs s
     \<and> live s' = live s - dev_fds (take (unat num) ds) - {#RMem p#}"
  using close_devs_live [OF ready_fd_pos [OF assms(1,2)], of s] assms(3,4)
  by (simp add: cdma_free_device_list_def sys_free_def live_simps)

text \<open>
  C16: when descriptor 0 is taken (the code does not close a device it got as 0), releasing the list
  that was returned gives back everything that listing acquired.
\<close>

theorem device_list_roundtrip:
  assumes "\<forall>t path. fs_open F t path \<noteq> 0"
  shows "\<exists>p ds num s1 s2. dma_get_device_list E F True s = Some (p, ds, Some num, s1)
     \<and> dma_free_device_list p ds num s1 = Some s2 \<and> live s2 = live s"
proof -
  obtain p ds num s1 where l: "cdma_get_device_list E F s = Some (p, ds, num, s1)"
    "if p = NULL then ds = [] \<and> live s1 = live s
     else unat num \<le> length ds \<and> list_all (dev_ready F) (take (unat num) ds)
       \<and> live s1 = live s + {#RMem p#} + dev_fds (take (unat num) ds)"
    using cdma_get_device_list_spec [of E F s] by blast
  show ?thesis
  proof (cases "p = NULL")
    case True
    then show ?thesis using l by (simp add: dma_get_device_list_def dma_free_device_list_def)
  next
    case False
    then obtain s2 where "cdma_free_device_list p ds num s1 = Some s2"
        "live s2 = live s1 - dev_fds (take (unat num) ds) - {#RMem p#}"
      using free_list_live [OF assms, of num ds p s1] l(2) by auto
    then show ?thesis using l False by (simp add: dma_get_device_list_def dma_free_device_list_def)
  qed
qed

definition demo_fs :: "string list \<Rightarrow> fs" where
  "demo_fs names = \<lparr>fs_opendir = \<lambda>_. 0x50, fs_entries = \<lambda>_. names, fs_realpath = \<lambda>_ path. (0x60, path),
     fs_open = \<lambda>_ _. 8, fs_info = \<lambda>_ _. zero_attr\<lparr>attr_eu_num := 2,
       attr_eus := [zero_eu\<lparr>eu_upi := 1\<rparr>, zero_eu\<lparr>eu_eid := zero_eid\<lparr>dw0 := 9\<rparr>, eu_upi := 2\<rparr>]\<rparr>\<rparr>"

lemma device_list_roundtrip_witness:
  "\<exists>p ds num s1 s2. dma_get_device_list demo_sys (demo_fs [''.'', ''cdma0'']) True init_st = Some (p, ds, Some num, s1)
     \<and> dma_free_device_list p ds num s1 = Some s2 \<and> live s2 = {#}"
proof -
  have "\<forall>t path. fs_open (demo_fs [''.'', ''cdma0'']) t path \<noteq> 0" by (simp add: demo_fs_def)
  from device_list_roundtrip [OF this, of demo_sys init_st] show ?thesis
    by (simp add: live_def init_st_def)
qed

text \<open>The entities of a device, and whether one of them has the identifier.\<close>

definition dev_eus :: "dma_device \<Rightarrow> eu_info list" where
  "dev_eus d = take (unat (attr_eu_num (dev_attr d))) (attr_eus (dev_attr d))"

definition has_eid :: "dev_eid \<Rightarrow> dma_device \<Rightarrow> bool" where
  "has_eid eid d \<longleftrightarrow> (\<exists>eu\<in>set (dev_eus d). eu_eid eu = eid)"

lemma find_seid_spec:
  "cdma_find_seid_in_eus d eid = None \<longleftrightarrow> \<not> has_eid eid d"
  "cdma_find_seid_in_eus d eid = Some eu \<longleftrightarrow> (\<exists>j<length (dev_eus d). eu = dev_eus d ! j \<and> eu_eid eu = eid
     \<and> (\<forall>j'<j. eu_eid (dev_eus d ! j') \<noteq> eid))"
  unfolding cdma_find_seid_in_eus_def dev_eus_def [symmetric] find_None_iff find_Some_iff has_eid_def by auto

lemma find_dev_none: "find_dev l eid k = None \<longleftrightarrow> (\<forall>d\<in>set l. \<not> has_eid eid d)"
proof (induction l arbitrary: k)
  case (Cons d l)
  then show ?case using find_seid_spec(1) [of d eid] by (cases "cdma_find_seid_in_eus d eid") auto
qed simp

lemma find_dev_first:
  assumes "find_dev l eid k = Some (i, d, eu)"
  shows "k \<le> i \<and> i - k < length l \<and> d = l ! (i - k) \<and> (\<forall>i'<i - k. \<not> has_eid eid (l ! i'))
     \<and> cdma_find_seid_in_eus d eid = Some eu"
  using assms
proof (induction l arbitrary: k)
  case (Cons d' l)
  show ?case
  proof (cases "cdma_find_seid_in_eus d' eid")
    case None
    then have "find_dev l eid (Suc k) = Some (i, d, eu)" using Cons.prems by simp
    from Cons.IH [OF this] have r: "Suc k \<le> i" "i - Suc k < length l" "d = l ! (i - Suc k)"
      "\<forall>i'<i - Suc k. \<not> has_eid eid (l ! i')" "cdma_find_seid_in_eus d eid = Some eu" by blast+
    then have "i - k = Suc (i - Suc k)" by simp
    moreover have "\<not> has_eid eid d'" using None find_seid_spec(1) [of d' eid] by blast
    ultimately show ?thesis using r by (auto simp: nth_Cons' less_Suc_eq_0_disj)
  next
    case (Some eu')
    then show ?thesis using Cons.prems by simp
  qed
qed simp

lemma free_except_live:
  assumes "\<forall>t path. fs_open F t path \<noteq> 0" and "list_all (dev_ready F) (take (unat num) ds)"
    and "unat num \<le> length ds" and "p \<noteq> NULL" and "i < unat num"
  shows "\<exists>s'. cdma_free_device_list_except_one p ds num (of_nat i) s = Some s' \<and> devs s' = devs s
     \<and> live s' = live s - (dev_fds (take (unat num) ds) - {#RFd (dev_fd (ds ! i))#}) - {#RMem p#}"
proof -
  let ?l = "take (unat num) ds"
  have "i < 4294967296" using assms(5) unat_u32_less [of num] by (rule less_trans)
  then have u: "unat (of_nat i :: u32) = i" by (simp add: unat_of_nat)
  have i: "i < length ?l" and n: "?l ! i = ds ! i" using assms(3,5) by simp_all
  have "?l = take i ?l @ ?l ! i # drop (Suc i) ?l" by (rule id_take_nth_drop [OF i])
  then have "dev_fds ?l = dev_fds (take i ?l @ ?l ! i # drop (Suc i) ?l)" by (rule arg_cong)
  then have sp: "dev_fds ?l - {#RFd (dev_fd (ds ! i))#} = dev_fds (take i ?l @ drop (Suc i) ?l)" using n by simp
  have "\<forall>d\<in>set (take i ?l @ drop (Suc i) ?l). 0 < dev_fd d"
    using ready_fd_pos [OF assms(1,2)] set_take_subset [of i ?l] set_drop_subset [of "Suc i" ?l]
    by (auto simp del: take_take drop_take)
  from close_devs_live [OF this, of s] assms(3,4) show ?thesis
    unfolding sp by (simp add: cdma_free_device_list_except_one_def u Let_def sys_free_def live_simps del: take_take drop_take)
qed

text \<open>
  C37: looking a device up by the identifier of an entity returns NULL exactly when the devices could
  not be listed, when none of the listed ones has the entity, or when there is no memory for the
  result, and then everything is given back. Otherwise it returns a copy of the first device of the
  list that has an entity with this identifier, with the first such entity selected in it, and the
  process owns the copy and that device's descriptor only: all other devices that were opened for
  the search are closed. (Descriptor 0 is taken: the code does not close a device it got as 0.)
\<close>

theorem device_by_eid_spec:
  assumes "\<forall>t path. fs_open F t path \<noteq> 0"
  shows "\<exists>p ds num s1 r s'. cdma_get_device_list E F s = Some (p, ds, num, s1) \<and> cdma_get_device_by_eid E F eid s = Some (r, s')
     \<and> (r = NULL \<longleftrightarrow> p = NULL \<or> (\<forall>d\<in>set (take (unat num) ds). \<not> has_eid eid d) \<or> e_alloc E (tr s1) ObjDev = NULL)
     \<and> (if r = NULL then live s' = live s
        else \<exists>i<unat num. \<exists>j<length (dev_eus (ds ! i)). (\<forall>i'<i. \<not> has_eid eid (ds ! i'))
          \<and> eu_eid (dev_eus (ds ! i) ! j) = eid \<and> (\<forall>j'<j. eu_eid (dev_eus (ds ! i) ! j') \<noteq> eid)
          \<and> devs s' r = (ds ! i)\<lparr>dev_attr := (dev_attr (ds ! i))\<lparr>attr_eu := dev_eus (ds ! i) ! j\<rparr>\<rparr>
          \<and> 0 < dev_fd (ds ! i) \<and> live s' = live s + {#RMem r, RFd (dev_fd (ds ! i))#})"
proof -
  obtain p ds num s1 where l: "cdma_get_device_list E F s = Some (p, ds, num, s1)"
    and post: "if p = NULL then ds = [] \<and> live s1 = live s
     else unat num \<le> length ds \<and> list_all (dev_ready F) (take (unat num) ds)
       \<and> live s1 = live s + {#RMem p#} + dev_fds (take (unat num) ds)"
    using cdma_get_device_list_spec [of E F s] by blast
  let ?l = "take (unat num) ds" let ?r = "e_alloc E (tr s1) ObjDev"
  consider "p = NULL" | "p \<noteq> NULL" "find_dev ?l eid 0 = None" | x where "p \<noteq> NULL" "find_dev ?l eid 0 = Some x" by fastforce
  then show ?thesis
  proof cases
    case 1
    then show ?thesis using l post by (simp add: cdma_get_device_by_eid_def)
  next
    case 2
    then show ?thesis using l post free_list_live [OF assms, of num ds p s1] find_dev_none [of ?l eid 0]
      by (auto simp: cdma_get_device_by_eid_def)
  next
    case (3 x)
    have n: "unat num \<le> length ds" "list_all (dev_ready F) ?l" and l1: "live s1 = live s + {#RMem p#} + dev_fds ?l"
      using post 3(1) by simp_all
    obtain i d eu where x: "x = (i, d, eu)" by (cases x)
    from find_dev_first [OF 3(2) [unfolded x]] have i: "i < unat num" "d = ds ! i" "\<forall>i'<i. \<not> has_eid eid (ds ! i')"
      and "cdma_find_seid_in_eus d eid = Some eu" by auto
    then obtain j where j: "j < length (dev_eus d)" "eu = dev_eus d ! j" "eu_eid eu = eid" "\<forall>j'<j. eu_eid (dev_eus d ! j') \<noteq> eid"
      unfolding find_seid_spec(2) by blast
    have mem: "d \<in> set ?l" using i n(1) by (auto simp: in_set_conv_nth)
    have "has_eid eid d" using j(1-3) by (auto simp: has_eid_def)
    then have some: "\<not> (\<forall>d\<in>set ?l. \<not> has_eid eid d)" using mem by blast
    have fd: "0 < dev_fd d" using ready_fd_pos [OF assms n(2)] mem by blast
    obtain s2 where r: "sys_alloc E ObjDev s1 = (?r, s2)" "live s2 = live s1 + (if ?r = NULL then {#} else {#RMem ?r#})"
      by (simp add: sys_alloc_def Let_def live_simps)
    show ?thesis
    proof (cases "?r = NULL")
      case True
      then show ?thesis using l 3 n x r free_list_live [OF assms n(2,1) 3(1), of s2] l1 some by (auto simp: cdma_get_device_by_eid_def)
    next
      case rn: False
      let ?s3 = "s2\<lparr>devs := (devs s2)(?r := d\<lparr>dev_attr := (dev_attr d)\<lparr>attr_eu := eu\<rparr>\<rparr>)\<rparr>"
      from free_except_live [OF assms n(2,1) 3(1) i(1), of ?s3]
      obtain s4 where s4: "cdma_free_device_list_except_one p ds num (of_nat i) ?s3 = Some s4" "devs s4 = devs ?s3"
        "live s4 = live ?s3 - (dev_fds ?l - {#RFd (dev_fd d)#}) - {#RMem p#}"
        unfolding i(2) [symmetric] by blast
      have "RFd (dev_fd d) \<in># dev_fds ?l" using mem by (simp add: dev_fds_def)
      then obtain M where M: "dev_fds ?l = add_mset (RFd (dev_fd d)) M" by (blast dest: multi_member_split)
      have "live s4 = live s + {#RMem ?r, RFd (dev_fd d)#}" using s4(3) r(2) l1 rn M by (simp add: live_simps)
      moreover have "devs s4 ?r = d\<lparr>dev_attr := (dev_attr d)\<lparr>attr_eu := dev_eus d ! j\<rparr>\<rparr>" using s4(2) j(2) by simp
      moreover have "cdma_get_device_by_eid E F eid s = Some (?r, s4)"
        using l 3 n x r(1) rn s4(1) by (simp add: cdma_get_device_by_eid_def Let_def)
      ultimately show ?thesis using l 3(1) rn some i j fd
        by (intro exI [of _ p] exI [of _ ds] exI [of _ num] exI [of _ s1] exI [of _ ?r] exI [of _ s4]) auto
    qed
  qed
qed

text \<open>Two devices with the entity: the first is returned, its second entity selected.\<close>

lemma device_by_eid_spec_witness:
  "\<exists>r s'. cdma_get_device_by_eid demo_sys (demo_fs [''cdma0'', ''cdma1'']) (zero_eid\<lparr>dw0 := 9\<rparr>) init_st = Some (r, s')
     \<and> r \<noteq> NULL \<and> dev_name (devs s' r) = ''cdma0'' \<and> eu_upi (attr_eu (dev_attr (devs s' r))) = 2 \<and> live s' = {#RMem r, RFd 8#}"
proof -
  let ?F = "demo_fs [''cdma0'', ''cdma1'']" let ?e = "zero_eid\<lparr>dw0 := 9\<rparr>"
  have "\<forall>t path. fs_open ?F t path \<noteq> 0" by (simp add: demo_fs_def)
  from device_by_eid_spec [OF this, of demo_sys init_st ?e]
  obtain r s' where r: "cdma_get_device_by_eid demo_sys ?F ?e init_st = Some (r, s')"
    and post: "r \<noteq> NULL \<Longrightarrow> live s' = live init_st + {#RMem r, RFd (dev_fd (devs s' r))#}"
    by (elim exE conjE) (rule that, assumption, auto)
  have "map_option (\<lambda>(r, s'). r \<noteq> NULL \<and> dev_name (devs s' r) = ''cdma0'' \<and> eu_upi (attr_eu (dev_attr (devs s' r))) = 2
        \<and> dev_fd (devs s' r) = 8)
      (cdma_get_device_by_eid demo_sys ?F ?e init_st) = Some True" by code_simp
  then show ?thesis using r post by (auto simp: live_def init_st_def)
qed

end
