(* ===== verification/Spec2Isabelle.thy ===== *)
theory Spec2Isabelle
  imports Cdma_Lifetime Cdma_Log Cdma_Device
begin

text \<open>
  libcdma is the user-space library of a direct-memory-access engine (CDMA). An application opens a
  device, creates a context on it, registers segments of memory and allocates a queue; it then posts
  copies and atomics between two segments and polls or waits for their completions. The library
  asks the kernel driver for each object through \<open>ioctl\<close>, maps doorbell pages into the process,
  and builds the queue elements the device reads in rings of memory it owns itself.

  THE PARTS, bottom up; C files are those of \<open>src/\<close>.

  \<^item> \<open>Cdma_Prelude\<close>: word types, error numbers, generic lemmas. \<open>Cdma_Types\<close>: every structure and
    enumeration of \<open>cdma_abi.h\<close>, \<open>cdma_u_lib.h\<close>, \<open>cdma_u_types.h\<close> and \<open>cdma_u_common.h\<close> the code
    uses, field by field. \<open>Cdma_Interfaces\<close>: the locales (below).
  \<^item> \<open>Cdma_Common\<close> (\<open>cdma_u_common.h\<close>): rounding, alignment, mmap offsets, the geometry of a ring.
    \<open>Cdma_Env\<close>: the state of the process and the system calls. \<open>Cdma_Queue_Buf\<close>
    (\<open>cdma_u_common.c\<close>): the buffers of a ring.
  \<^item> \<open>Cdma_Bitmap\<close>, \<open>Cdma_Db\<close> (\<open>cdma_u_db.c\<close>): software doorbells of 64 bytes, as many to a page
    as the page size allows (64 on a page of 4 KiB), in a doubly linked list of reference-counted pages,
    and the doorbell pages of the device.
  \<^item> \<open>Cdma_Sqe\<close>, \<open>Cdma_Ring\<close>, \<open>Cdma_Post\<close> (\<open>cdma_u_jfs.c\<close>, \<open>cdma_u_jfs.h\<close>): building an element of
    the send queue, the slots of the rings, posting a chain of requests with its doorbell.
  \<^item> \<open>Cdma_Cq\<close> (\<open>cdma_u_jfc.c\<close>): polling, waiting, acknowledging, arming and cleaning a completion
    queue. \<open>Cdma_Jfc\<close>, \<open>Cdma_Jfs\<close> (\<open>cdma_u_jfc.c\<close>, \<open>cdma_u_jfs.c\<close>, \<open>cdma_u_cmd.c\<close>): the objects
    themselves. \<open>Cdma_Tp\<close> (\<open>cdma_u_tp.c\<close>, \<open>cdma_u_segment.c\<close>, \<open>cdma_u_context.c\<close>): transport
    channels, segments, contexts.
  \<^item> \<open>Cdma_Queue\<close>, \<open>Cdma_Queue_Life\<close> (\<open>cdma_u_queue.c\<close>): the queue, built from an event channel (JFCE),
    a completion queue (JFC), a transport channel (CTP) and a send queue (JFS), with the rollbacks.
    \<open>Cdma_Sync\<close>: the mutexes and condition variables that its steps create and never destroy.
    \<open>Cdma_Queue_Ready\<close>: what is true of the rings of a queue that was allocated. \<open>Cdma_Demo\<close>: a
    run on a concrete system that the theorems on queues are applied to.
  \<^item> \<open>Cdma_Verbs\<close> (\<open>cdma_u_cmd.c\<close>), \<open>Cdma_Event\<close> (\<open>cdma_u_event.c\<close>), \<open>Cdma_Lib\<close> (\<open>cdma_u_lib.c\<close>):
    the data operations, completions and events, the calls of the library. \<open>Cdma_Flow\<close>: the data
    operations as one reference operation, and a request followed to its completion.
  \<^item> \<open>Cdma_Session\<close>: posting, the device and polling interleaved on the two rings of a queue.
    \<open>Cdma_Release\<close>: releasing a queue, the loops of cleaning included. \<open>Cdma_Lifetime\<close>: allocation,
    session and release composed.
  \<^item> \<open>Cdma_Device\<close> (\<open>cdma_u_device.c\<close>): listing, opening and finding devices. \<open>Cdma_Log\<close>
    (\<open>cdma_u_log.c\<close>, \<open>cdma_u_log.h\<close>): levels, messages, and the rate limiter with its interleavings.

  STATE AND EFFECTS. An operation has the name of its C function and passes the state \<open>st\<close> explicitly:
  one table per kind of object indexed by its address (\<open>ctxs\<close>, \<open>queues\<close>, \<open>jfss\<close>, \<open>jfcs\<close>, \<open>segs\<close>, ...), the
  memory of the rings as maps from addresses to elements, and the trace of everything the process
  did outside: allocations, mappings, descriptors, locks, kernel requests, stores to the device.
  \<open>live\<close> reads off the trace what the process owns at a moment; the theorems on queues state it in two
  parts, \<open>db_bal\<close> (everything but mutexes and condition variables, a page of doorbells counted by its
  doorbells in use) and \<open>syncs\<close> (mutexes and condition variables). Integers have the width of the C
  types. A result \<open>None\<close> is undefined behaviour of C (a store outside an object, a lock destroyed
  while held, an assertion on an invariant of a list broken); an error of the code is a value: NULL, a
  negative number, a status. The theorems on resources and on posting also show that no \<open>None\<close> arises.

  PARAMETERS. The kernel driver, the allocator, \<open>mmap\<close>, \<open>poll\<close> and \<open>libummu\<close> are functions of the
  environment \<open>env\<close> that may depend on the whole trace, hence fail at any call; the directory of devices
  is the record \<open>fs\<close>. \<open>sys_ok\<close> states what the library relies on: an allocation is NULL or fresh, a mapping
  fails or is fresh and page-aligned, the page has a power-of-two size. \<open>jfce_ok\<close>: the kernel does not
  report success for an event channel together with a negative descriptor. \<open>mmap_room\<close>: a mapping does
  not run over the end of the address space. \<open>sync_ok\<close>: mutexes and condition variables with default
  attributes are initialised. The device writes the completion ring: \<open>dev_ok\<close> states that
  its new entries complete blocks in flight in their order and have a known status, and that the entry
  behind them is not new (a ring just mapped is zero). They are shown satisfiable by \<open>demo_sys\<close> and
  \<open>room_sys\<close>, on which the witnesses compute.

  INTERFACES. \<open>slot_pool\<close>, interpreted by the bitmap and by the software doorbells: no slot in use is
  handed out. \<open>ring\<close>, interpreted by the send ring, its table of user contexts and the completion ring:
  the window between consumer and producer index is a list to which posting appends. \<open>lifecycle\<close>,
  interpreted by contexts, segments, the four parts of a queue, and queues: over any sequence of
  creations, failed creations and deletions the resources owned are those of the objects alive.

  WHAT THE LEMMAS SHOW. Ring geometry, bitmaps and doorbells: exactness, bounds, exclusiveness, no page
  leaked. Elements: their layout for each operation as lists of double words, their size, and that no
  store leaves the temporary element (nor that it does, where it does). Posting: refinement of an
  abstract queue. Completion: polling returns the new entries in order, its errors, the doorbells.
  Data operations: the functions of the library are one operation over a table of opcodes, and a
  request posted and executed by the device comes back once, with its user context, in the completion
  that frees its blocks. Queues: an allocation ends, leaves two empty well-formed rings tied to each
  other, and posting and polling start from there. Sessions: whatever the order of posts, device
  writes and polls, the rings keep their invariants and completions return in the order of posting.
  Cleaning: the entries of a queue are removed up to the end of the completion ring, and those behind it
  are left in it. Release: it ends, and a queue allocated, used and released leaves nothing behind but
  the mutex and the condition variable of its completion queue, which the code never destroys; so do
  queues in any sequence. Contexts and segments: lifecycles without leak. Devices: no descriptor leaked
  on any path; a lookup finds the first device. Rate limiter: for one thread exactly the first five calls
  of a window pass; for any number of threads at most thirty calls pass within five seconds of clock
  readings, beside those whose clock cannot be read; two threads can pass ten in one second; a call ends
  when the other threads start no more windows.

  BOUNDS AND TERMINATION. Loops over lists or counts are structural or have a measure; \<open>rl_alone\<close> has
  fuel 4, shown enough by \<open>rl_alone_call\<close>, and interleavings are finite sequences of any length. Loops that
  walk the memory (the list of pages, the elements) run over the list of what is in it. The theorems on
  allocated queues ask for a depth of at most \<open>2 ^ 20\<close> and a completion entry of at least 64 bytes, so
  that the size of a ring does not wrap in 32 bits. The loops of cleaning are partial functions; they
  are shown to end for a consumer index more than a ring away from 2^31 and 2^32 (beyond that the
  code computes out of range, see \<open>clean_safe\<close>), which holds for the first 2^30 completions of a queue.

  NOT MODELLED. The expansion of the caller's format by \<open>vsnprintf\<close> (a parameter of \<open>cdma_vlog\<close>), the
  lock around the level of the log, log output of the other files, memory barriers as such (the order of
  the stores is kept), the build files and the documentation. Signalling the condition variable of a completion queue is an event of the trace; no
  thread waits for it in the library.
\<close>

end
